(* ===== verification/Prelude.thy ===== *)
theory Prelude
  imports Main "HOL-Library.Word" "HOL-Library.Char_ord"
begin

unbundle bit_operations_syntax

section \<open>Vocabulary shared by the components\<close>

text \<open>
  Conventions of the whole development.  A NUL-terminated C string is the list of its
  bytes before the terminator, a \<^typ>\<open>string\<close>; a pointer the code tests against
  NULL is an \<open>option\<close>.  A function that edits a string in place is a function from
  the old contents to the new ones.  \<open>zbx_uint64_t\<close> is \<open>64 word\<close>, so that its
  arithmetic wraps, \<open>u_char\<close> is \<open>8 word\<close>, and the C type \<open>int\<close> is
  \<^typ>\<open>int\<close>: signed overflow is undefined behaviour in C, and a model that needs the
  width states it.  Array indices that the code keeps non-negative are \<^typ>\<open>nat\<close>.

  This theory holds the types of that vocabulary, the return codes of
  \<open>include/common.h\<close>, the pieces of the C library that the sources call on strings
  (\<open>strchr\<close>, \<open>strrchr\<close>, \<open>strstr\<close>, \<open>atoi\<close>, \<open>sscanf\<close>,
  decimal printing) and the list lemmas the components share.
\<close>

type_synonym u64 = "64 word"
type_synonym u8 = "8 word"

text \<open>The return codes of \<open>include/common.h\<close>; the code uses the numbers
  0, -1, -2, -3, -4 and -5.\<close>

datatype zret = SUCCEED | FAIL | NOTSUPPORTED | NETWORK_ERROR | TIMEOUT_ERROR | AGENT_ERROR

fun zret_code :: "zret \<Rightarrow> int" where
  "zret_code SUCCEED = 0"
| "zret_code FAIL = -1"
| "zret_code NOTSUPPORTED = -2"
| "zret_code NETWORK_ERROR = -3"
| "zret_code TIMEOUT_ERROR = -4"
| "zret_code AGENT_ERROR = -5"

lemma zret_code_inject [simp]: "zret_code a = zret_code b \<longleftrightarrow> a = b"
  by (cases a; cases b) simp_all

text \<open>The item types of \<open>include/common.h\<close>, in the order of their numbers.\<close>

datatype item_type =
    ITEM_TYPE_ZABBIX | ITEM_TYPE_SNMPv1 | ITEM_TYPE_TRAPPER | ITEM_TYPE_SIMPLE | ITEM_TYPE_SNMPv2c
  | ITEM_TYPE_INTERNAL | ITEM_TYPE_SNMPv3 | ITEM_TYPE_ZABBIX_ACTIVE | ITEM_TYPE_AGGREGATE
  | ITEM_TYPE_HTTPTEST | ITEM_TYPE_EXTERNAL | ITEM_TYPE_DB_MONITOR | ITEM_TYPE_IPMI

subsection \<open>Collections of rewrite rules\<close>

named_theorems cstr_simps \<open>facts about the C string functions\<close>
named_theorems scan_simps \<open>evaluation of the scanner\<close>
named_theorems index_simps \<open>facts about array positions\<close>

subsection \<open>Characters\<close>

definition is_digit :: "char \<Rightarrow> bool" where
  "is_digit c \<longleftrightarrow> CHR ''0'' \<le> c \<and> c \<le> CHR ''9''"

definition is_xdigit :: "char \<Rightarrow> bool" where
  "is_xdigit c \<longleftrightarrow> is_digit c \<or> (CHR ''A'' \<le> c \<and> c \<le> CHR ''F'') \<or> (CHR ''a'' \<le> c \<and> c \<le> CHR ''f'')"

definition digit_val :: "char \<Rightarrow> nat" where
  "digit_val c = of_char c - 48"

definition xdigit_val :: "char \<Rightarrow> nat" where
  "xdigit_val c =
     (if is_digit c then of_char c - 48
      else if CHR ''a'' \<le> c then of_char c - 87 else of_char c - 55)"

text \<open>\<open>isspace\<close> in the C locale: space, tab, newline, vertical tab, form feed, return.\<close>

definition is_space :: "char \<Rightarrow> bool" where
  "is_space c \<longleftrightarrow> c = CHR '' '' \<or> (CHR 0x09 \<le> c \<and> c \<le> CHR 0x0D)"

lemma is_digit_iff: "is_digit c \<longleftrightarrow> 48 \<le> (of_char c :: nat) \<and> of_char c \<le> (57 :: nat)"
  by (simp add: is_digit_def less_eq_char_def)

lemma is_digit_range: "is_digit c \<Longrightarrow> digit_val c < 10"
  unfolding is_digit_iff digit_val_def by linarith

lemma is_digit_neq:
  "is_digit c \<Longrightarrow> c \<noteq> CHR '' ''" "is_digit c \<Longrightarrow> c \<noteq> CHR ''-''" "is_digit c \<Longrightarrow> c \<noteq> CHR ''.''"
  "is_digit c \<Longrightarrow> c \<noteq> CHR '',''" "is_digit c \<Longrightarrow> c \<noteq> CHR '';''" "is_digit c \<Longrightarrow> c \<noteq> CHR ''+''"
  by (auto simp: is_digit_iff)

subsection \<open>Searching in a string\<close>

text \<open>\<open>strchr (s, c)\<close> for a character other than NUL: the position of the first
  occurrence.  \<open>strrchr\<close> is the last one.\<close>

fun strchr :: "string \<Rightarrow> char \<Rightarrow> nat option" where
  "strchr [] c = None"
| "strchr (x # xs) c = (if x = c then Some 0 else map_option Suc (strchr xs c))"

fun strrchr :: "string \<Rightarrow> char \<Rightarrow> nat option" where
  "strrchr [] c = None"
| "strrchr (x # xs) c =
     (case strrchr xs c of
        Some i \<Rightarrow> Some (Suc i)
      | None \<Rightarrow> if x = c then Some 0 else None)"

fun is_prefix :: "string \<Rightarrow> string \<Rightarrow> bool" where
  "is_prefix [] ys = True"
| "is_prefix (x # xs) [] = False"
| "is_prefix (x # xs) (y # ys) = (x = y \<and> is_prefix xs ys)"

text \<open>\<open>strstr (s, pat)\<close>: the first position where \<open>pat\<close> occurs.\<close>

fun strstr :: "string \<Rightarrow> string \<Rightarrow> nat option" where
  "strstr [] pat = (if pat = [] then Some 0 else None)"
| "strstr (x # xs) pat =
     (if is_prefix pat (x # xs) then Some 0 else map_option Suc (strstr xs pat))"

lemma strchr_None_iff [cstr_simps]: "strchr s c = None \<longleftrightarrow> c \<notin> set s"
  by (induction s) auto

lemma strchr_SomeD:
  "strchr s c = Some i \<Longrightarrow> i < length s \<and> s ! i = c \<and> c \<notin> set (take i s)"
  by (induction s arbitrary: i) (auto split: if_splits)

lemma strchr_append:
  "c \<notin> set a \<Longrightarrow> strchr (a @ c # b) c = Some (length a)"
  by (induction a) auto

lemma strrchr_None_iff [cstr_simps]: "strrchr s c = None \<longleftrightarrow> c \<notin> set s"
  by (induction s) (auto split: option.splits)

lemma strrchr_SomeD:
  "strrchr s c = Some i \<Longrightarrow> i < length s \<and> s ! i = c \<and> c \<notin> set (drop (Suc i) s)"
proof (induction s arbitrary: i)
  case (Cons x xs)
  then show ?case
    by (cases "strrchr xs c") (auto simp: strrchr_None_iff split: if_splits)
qed simp

lemma strrchr_append:
  "c \<notin> set b \<Longrightarrow> strrchr (a @ c # b) c = Some (length a)"
proof (induction a)
  case Nil
  then show ?case by (simp add: strrchr_None_iff [THEN iffD2])
next
  case (Cons x xs)
  then show ?case by simp
qed

lemma is_prefix_iff [cstr_simps]: "is_prefix p s \<longleftrightarrow> (\<exists>r. s = p @ r)"
  by (induction p s rule: is_prefix.induct) auto

lemma strstr_SomeD: "strstr s p = Some i \<Longrightarrow> i \<le> length s \<and> is_prefix p (drop i s)"
  by (induction s arbitrary: i) (auto split: if_splits)

subsection \<open>Decimal numbers\<close>

text \<open>The \<open>%d\<close> and \<open>%llu\<close> conversions of \<open>printf\<close>.\<close>

fun show_nat :: "nat \<Rightarrow> string" where
  "show_nat n = (if n < 10 then [char_of (48 + n)] else show_nat (n div 10) @ [char_of (48 + n mod 10)])"

declare show_nat.simps [simp del]

definition show_int :: "int \<Rightarrow> string" where
  "show_int i = (if i < 0 then CHR ''-'' # show_nat (nat (- i)) else show_nat (nat i))"

definition show_u64 :: "u64 \<Rightarrow> string" where
  "show_u64 w = show_nat (unat w)"

lemma of_char_of_digit: "n < 10 \<Longrightarrow> (of_char (char_of (48 + n) :: char) :: nat) = 48 + n"
  by simp

lemma show_nat_digits: "\<forall>c \<in> set (show_nat n). is_digit c"
proof (induction n rule: show_nat.induct)
  case (1 n)
  show ?case
    by (cases "n < 10") (use 1 in \<open>auto simp: show_nat.simps [of n] is_digit_iff\<close>)
qed

lemma show_nat_nonempty [simp]: "show_nat n \<noteq> []"
  by (simp add: show_nat.simps)

text \<open>The value of a digit string, most significant digit first.\<close>

definition dec_val :: "string \<Rightarrow> nat" where
  "dec_val s = foldl (\<lambda>v c. v * 10 + digit_val c) 0 s"

lemma dec_val_Nil [simp]: "dec_val [] = 0"
  by (simp add: dec_val_def)

lemma dec_val_snoc [simp]: "dec_val (s @ [c]) = dec_val s * 10 + digit_val c"
  by (simp add: dec_val_def)

lemma dec_val_show_nat [simp]: "dec_val (show_nat n) = n"
proof (induction n rule: show_nat.induct)
  case (1 n)
  show ?case
  proof (cases "n < 10")
    case True
    then show ?thesis
      using dec_val_snoc [of "[]" "char_of (48 + n)"] by (simp add: show_nat.simps [of n] digit_val_def)
  next
    case False
    then show ?thesis using 1 by (simp add: show_nat.simps [of n] digit_val_def)
  qed
qed

text \<open>C integer division drops the fraction, so it rounds towards zero; the remainder has the
  sign of the dividend.\<close>

definition trunc_div :: "int \<Rightarrow> int \<Rightarrow> int" where
  "trunc_div n d = (if (n < 0) = (d < 0) then \<bar>n\<bar> div \<bar>d\<bar> else - (\<bar>n\<bar> div \<bar>d\<bar>))"

definition trunc_mod :: "int \<Rightarrow> int \<Rightarrow> int" where
  "trunc_mod n d = (if n < 0 then - (\<bar>n\<bar> mod \<bar>d\<bar>) else n mod \<bar>d\<bar>)"

lemma trunc_div_nonneg: "0 \<le> n \<Longrightarrow> 0 < d \<Longrightarrow> trunc_div n d = n div d"
  by (simp add: trunc_div_def)

lemma trunc_mod_nonneg: "0 \<le> n \<Longrightarrow> 0 < d \<Longrightarrow> trunc_mod n d = n mod d"
  by (simp add: trunc_mod_def)

subsection \<open>Scanning\<close>

text \<open>
  \<open>sscanf\<close>, for the conversions the sources use: \<open>%d\<close> and the unsigned decimal
  (both skip white space and take an optional sign), \<open>%x\<close>, \<open>%<n>s\<close> and literal
  characters.  The result is the list of values assigned, so its length is the return value of a
  call on non-empty input.  Numbers are not reduced to the width of the destination: the standard
  leaves the result undefined when the value does not fit.
\<close>

datatype scan_dir = ScanInt | ScanHex | ScanStr nat | ScanLit char

datatype scan_val = IntV int | StrV string

definition skip_space :: "string \<Rightarrow> string" where
  "skip_space s = dropWhile is_space s"

definition scan_sign :: "string \<Rightarrow> bool \<times> string" where
  "scan_sign s =
     (case s of [] \<Rightarrow> (False, s)
      | c # cs \<Rightarrow> if c = CHR ''-'' then (True, cs) else if c = CHR ''+'' then (False, cs) else (False, s))"

definition scan_int :: "string \<Rightarrow> (int \<times> string) option" where
  "scan_int s =
     (let (neg, t) = scan_sign (skip_space s); ds = takeWhile is_digit t
      in if ds = [] then None
         else Some (if neg then - int (dec_val ds) else int (dec_val ds), dropWhile is_digit t))"

definition hex_val :: "string \<Rightarrow> nat" where
  "hex_val s = foldl (\<lambda>v c. v * 16 + xdigit_val c) 0 s"

text \<open>\<open>%x\<close> accepts a prefix \<open>0x\<close>; a prefix with no hexadecimal digit after it is a
  matching failure, as in the GNU C library.\<close>

definition scan_hex :: "string \<Rightarrow> (int \<times> string) option" where
  "scan_hex s =
     (let (neg, t) = scan_sign (skip_space s);
          t' = (case t of a # b # r \<Rightarrow> if a = CHR ''0'' \<and> (b = CHR ''x'' \<or> b = CHR ''X'') then r else t | _ \<Rightarrow> t);
          ds = takeWhile is_xdigit t'
      in if ds = [] then None
         else Some (if neg then - int (hex_val ds) else int (hex_val ds), dropWhile is_xdigit t'))"

definition scan_str :: "nat \<Rightarrow> string \<Rightarrow> (string \<times> string) option" where
  "scan_str n s =
     (let t = skip_space s; w = take n (takeWhile (\<lambda>c. \<not> is_space c) t)
      in if w = [] then None else Some (w, drop (length w) t))"

fun sscanf :: "scan_dir list \<Rightarrow> string \<Rightarrow> scan_val list" where
  "sscanf [] s = []"
| "sscanf (ScanInt # ds) s =
     (case scan_int s of None \<Rightarrow> [] | Some (v, r) \<Rightarrow> IntV v # sscanf ds r)"
| "sscanf (ScanHex # ds) s =
     (case scan_hex s of None \<Rightarrow> [] | Some (v, r) \<Rightarrow> IntV v # sscanf ds r)"
| "sscanf (ScanStr n # ds) s =
     (case scan_str n s of None \<Rightarrow> [] | Some (v, r) \<Rightarrow> StrV v # sscanf ds r)"
| "sscanf (ScanLit c # ds) s =
     (case s of [] \<Rightarrow> [] | x # r \<Rightarrow> if x = c then sscanf ds r else [])"

text \<open>\<open>atoi\<close>: zero when there is no number.\<close>

definition atoi :: "string \<Rightarrow> int" where
  "atoi s = (case scan_int s of None \<Rightarrow> 0 | Some (v, r) \<Rightarrow> v)"

lemma skip_space_digit: "is_digit c \<Longrightarrow> skip_space (c # s) = c # s"
  by (auto simp: skip_space_def is_space_def is_digit_iff less_eq_char_def)

lemma takeWhile_digits_append:
  assumes "\<forall>c \<in> set d. is_digit c" and "r = [] \<or> \<not> is_digit (hd r)"
  shows "takeWhile is_digit (d @ r) = d \<and> dropWhile is_digit (d @ r) = r"
  using assms by (cases r) auto

lemma takeWhile_digits: "\<forall>c \<in> set (takeWhile is_digit s). is_digit c"
  by (auto dest: set_takeWhileD)

lemma scan_int_show_nat:
  assumes "r = [] \<or> \<not> is_digit (hd r)"
  shows "scan_int (show_nat n @ r) = Some (int n, r)"
proof -
  obtain c s where cs: "show_nat n = c # s" by (cases "show_nat n") auto
  then have d: "is_digit c" using show_nat_digits [of n] by simp
  have "scan_sign (skip_space (show_nat n @ r)) = (False, show_nat n @ r)"
    using d is_digit_neq [OF d] by (simp add: cs skip_space_digit scan_sign_def)
  moreover have "takeWhile is_digit (show_nat n @ r) = show_nat n \<and> dropWhile is_digit (show_nat n @ r) = r"
    by (rule takeWhile_digits_append) (use show_nat_digits assms in auto)
  ultimately show ?thesis by (simp add: scan_int_def)
qed

lemma scan_int_number [scan_simps]:
  "scan_int (show_nat n) = Some (int n, [])"
  "\<not> is_digit c \<Longrightarrow> scan_int (show_nat n @ c # r) = Some (int n, c # r)"
  using scan_int_show_nat [of "[]" n] scan_int_show_nat [of "c # r" n] by simp_all

lemma show_nat_notin [scan_simps]: "\<not> is_digit c \<Longrightarrow> c \<notin> set (show_nat n)"
  using show_nat_digits by blast

lemma separators_not_digit [scan_simps]:
  "\<not> is_digit CHR ''-''" "\<not> is_digit CHR '',''" "\<not> is_digit CHR '':''" "\<not> is_digit CHR ''/''"
  "\<not> is_digit CHR ''.''" "\<not> is_digit CHR '';''"
  by code_simp+

lemma atoi_show_nat [simp]: "atoi (show_nat n) = int n"
  using scan_int_show_nat [of "[]" n] by (simp add: atoi_def)

lemma u64_bound: "unat (w :: u64) < 18446744073709551616"
proof -
  have "unat w < 2 ^ LENGTH(64)" by (rule unsigned_less)
  then show ?thesis by simp
qed

subsection \<open>Separated fields\<close>

text \<open>The loops that cut a list at a separator and process each piece stop when the rest is
  empty, so a trailing separator opens no last empty piece.\<close>

function pieces :: "char \<Rightarrow> string \<Rightarrow> string list" where
  "pieces sep s =
     (if s = [] then []
      else case strchr s sep of
             None \<Rightarrow> [s]
           | Some i \<Rightarrow> take i s # pieces sep (drop (Suc i) s))"
  by pat_completeness auto
termination
  by (relation "measure (\<lambda>(c, s). length s)") (auto dest: strchr_SomeD)

declare pieces.simps [simp del]

lemma pieces_Nil [simp]: "pieces sep [] = []"
  by (simp add: pieces.simps)

lemma pieces_single: "s \<noteq> [] \<Longrightarrow> sep \<notin> set s \<Longrightarrow> pieces sep s = [s]"
  by (simp add: pieces.simps strchr_None_iff [THEN iffD2])

lemma pieces_append: "sep \<notin> set s \<Longrightarrow> pieces sep (s @ sep # r) = s # pieces sep r"
  by (subst pieces.simps) (simp add: strchr_append)

fun join_fields :: "char \<Rightarrow> string list \<Rightarrow> string" where
  "join_fields sep [] = []"
| "join_fields sep [f] = f"
| "join_fields sep (f # g # fs) = f @ sep # join_fields sep (g # fs)"

lemma pieces_join:
  "\<forall>f \<in> set fs. sep \<notin> set f \<and> f \<noteq> [] \<Longrightarrow> pieces sep (join_fields sep fs) = fs"
  by (induction sep fs rule: join_fields.induct) (auto simp: pieces_single pieces_append)

text \<open>
  The contract of the loops that walk over such a list and stop at the first piece that
  matches: the id, interval, address and period lists all have it.
\<close>

locale piece_search =
  fixes sep :: char and matches :: "string \<Rightarrow> bool" and search :: "string \<Rightarrow> bool"
  assumes search_Nil: "\<not> search []"
    and search_last: "s \<noteq> [] \<Longrightarrow> strchr s sep = None \<Longrightarrow> search s = matches s"
    and search_next: "s \<noteq> [] \<Longrightarrow> strchr s sep = Some i \<Longrightarrow>
          search s = (matches (take i s) \<or> search (drop (Suc i) s))"
begin

lemma search_pieces: "search s \<longleftrightarrow> (\<exists>p \<in> set (pieces sep s). matches p)"
proof (induction "length s" arbitrary: s rule: less_induct)
  case less
  show ?case
  proof (cases "s = []")
    case False
    show ?thesis
    proof (cases "strchr s sep")
      case None
      then show ?thesis using False by (simp add: search_last pieces.simps [of sep s])
    next
      case (Some i)
      have "length (drop (Suc i) s) < length s" using False by simp
      then show ?thesis
        using less [of "drop (Suc i) s"] False Some by (simp add: search_next pieces.simps [of sep s])
    qed
  qed (simp add: search_Nil)
qed

lemma search_join:
  "\<forall>f \<in> set fs. sep \<notin> set f \<and> f \<noteq> [] \<Longrightarrow> search (join_fields sep fs) \<longleftrightarrow> (\<exists>f \<in> set fs. matches f)"
  by (simp add: search_pieces pieces_join)

end

end
