(* ===== verification/CString.thy ===== *)
theory CString
  imports Prelude
begin

section \<open>String routines (\<open>libs/zbxcommon/str.c\<close>)\<close>

text \<open>
  The editing and copying routines of \<open>str.c\<close>, in the order of the file.  In-place
  edits return the new contents.  A loop that walks backwards from the end of the string is a
  recursion over the reversed string.  Growing buffers carry their allocated size, so that the
  lemmas can say that every write, the terminator included, stays inside it.
\<close>

subsection \<open>Searching and growing buffers\<close>

fun find_char_from :: "string \<Rightarrow> char \<Rightarrow> int \<Rightarrow> int" where
  "find_char_from [] c i = -1"
| "find_char_from (x # xs) c i = (if x = c then i else find_char_from xs c (i + 1))"

definition find_char :: "string \<Rightarrow> char \<Rightarrow> int" where
  "find_char str c = find_char_from str c 0"

lemma find_char_from_strchr:
  "find_char_from s c i = (case strchr s c of None \<Rightarrow> -1 | Some k \<Rightarrow> i + int k)"
  by (induction s arbitrary: i) (auto split: option.splits)

text \<open>The triple (\<open>*str\<close>, \<open>*alloc_len\<close>, \<open>*offset\<close>): the text written so
  far has length \<open>*offset\<close>, and a terminator follows it.\<close>

record strbuf =
  bytes :: string
  alloc_len :: nat

definition strbuf_ok :: "strbuf \<Rightarrow> bool" where
  "strbuf_ok b \<longleftrightarrow> length (bytes b) < alloc_len b"

definition zbx_strcpy_alloc :: "strbuf \<Rightarrow> string \<Rightarrow> strbuf" where
  "zbx_strcpy_alloc b src =
     (let sz = length src;
          al = (if length (bytes b) + sz \<ge> alloc_len b
                then alloc_len b + (if sz < 32 then 64 else 2 * sz) else alloc_len b)
      in \<lparr>bytes = bytes b @ src, alloc_len = al\<rparr>)"

definition zbx_chrcpy_alloc :: "strbuf \<Rightarrow> char \<Rightarrow> strbuf" where
  "zbx_chrcpy_alloc b src =
     (let al = (if length (bytes b) + 1 \<ge> alloc_len b then alloc_len b + 64 else alloc_len b)
      in \<lparr>bytes = bytes b @ [src], alloc_len = al\<rparr>)"

text \<open>The doubling loop of \<open>zbx_snprintf_alloc\<close>; it never ends on an empty allocation,
  which is \<^const>\<open>None\<close>.\<close>

partial_function (option) grow_alloc :: "nat \<Rightarrow> nat \<Rightarrow> nat option" where
  "grow_alloc need al = (if need \<ge> al then grow_alloc need (al * 2) else Some al)"

text \<open>\<open>out\<close> is the formatted text; \<open>zbx_vsnprintf\<close> writes at most
  \<open>max_len - 1\<close> characters of it and the terminator.\<close>

definition zbx_snprintf_alloc :: "strbuf \<Rightarrow> nat \<Rightarrow> string \<Rightarrow> strbuf option" where
  "zbx_snprintf_alloc b max_len out =
     map_option (\<lambda>al. \<lparr>bytes = bytes b @ take (max_len - 1) out, alloc_len = al\<rparr>)
       (grow_alloc (length (bytes b) + max_len) (alloc_len b))"

lemma grow_alloc_returns: "0 < al \<Longrightarrow> \<exists>al'. grow_alloc need al = Some al' \<and> need < al' \<and> al \<le> al'"
proof (induction "Suc need - al" arbitrary: al rule: less_induct)
  case less
  show ?case
  proof (cases "need \<ge> al")
    case True
    then have "Suc need - al * 2 < Suc need - al" using less.prems by simp
    with less.hyps [of "al * 2"] less.prems obtain al'
      where "grow_alloc need (al * 2) = Some al'" "need < al'" "al * 2 \<le> al'" by auto
    then show ?thesis using True by (intro exI [of _ al']) (simp add: grow_alloc.simps [of need al])
  next
    case False
    then show ?thesis by (simp add: grow_alloc.simps [of need al])
  qed
qed

lemma strcpy_alloc_ok: "strbuf_ok b \<Longrightarrow> strbuf_ok (zbx_strcpy_alloc b src)"
  by (auto simp: strbuf_ok_def zbx_strcpy_alloc_def Let_def)

lemma chrcpy_alloc_ok: "strbuf_ok b \<Longrightarrow> strbuf_ok (zbx_chrcpy_alloc b c)"
  by (auto simp: strbuf_ok_def zbx_chrcpy_alloc_def Let_def)

text \<open>The three appending routines keep the text and its terminator inside the allocation
  and append exactly their argument (\<open>zbx_snprintf_alloc\<close>: its first
  \<open>max_len - 1\<close> characters); the doubling loop of the last one ends.\<close>

theorem alloc_appends_in_bounds:
  assumes "strbuf_ok b"
  shows "strbuf_ok (zbx_strcpy_alloc b s) \<and> bytes (zbx_strcpy_alloc b s) = bytes b @ s \<and>
         strbuf_ok (zbx_chrcpy_alloc b c) \<and> bytes (zbx_chrcpy_alloc b c) = bytes b @ [c] \<and>
         (\<exists>b'. zbx_snprintf_alloc b n s = Some b' \<and> strbuf_ok b' \<and> bytes b' = bytes b @ take (n - 1) s)"
proof -
  have "0 < alloc_len b" using assms by (simp add: strbuf_ok_def)
  then obtain al where "grow_alloc (length (bytes b) + n) (alloc_len b) = Some al" "length (bytes b) + n < al"
    using grow_alloc_returns by blast
  then have "\<exists>b'. zbx_snprintf_alloc b n s = Some b' \<and> strbuf_ok b' \<and> bytes b' = bytes b @ take (n - 1) s"
    by (auto simp: zbx_snprintf_alloc_def strbuf_ok_def)
  then show ?thesis
    using strcpy_alloc_ok [OF assms] chrcpy_alloc_ok [OF assms]
    by (simp add: zbx_strcpy_alloc_def zbx_chrcpy_alloc_def Let_def)
qed

theorem alloc_appends_in_bounds_witness:
  "strbuf_ok (zbx_strcpy_alloc \<lparr>bytes = ''ab'', alloc_len = 3\<rparr> ''cde'')"
proof -
  have "strbuf_ok \<lparr>bytes = ''ab'', alloc_len = 3\<rparr>" by (simp add: strbuf_ok_def)
  from alloc_appends_in_bounds [OF this, of "''cde''"] show ?thesis by blast
qed

subsection \<open>\<open>string_replace\<close>\<close>

text \<open>The counting loop and the copying loop.  Both advance by the length of the pattern, so
  an empty pattern makes them run forever: \<open>string_replace\<close> is then \<^const>\<open>None\<close>.\<close>

function count_occ :: "string \<Rightarrow> string \<Rightarrow> nat" where
  "count_occ pat s =
     (if pat = [] then 0
      else case strstr s pat of
             None \<Rightarrow> 0
           | Some i \<Rightarrow> Suc (count_occ pat (drop (i + length pat) s)))"
  by pat_completeness auto
termination
proof (relation "measure (\<lambda>(p, s). length s)")
  fix p s i
  assume "p \<noteq> []" "strstr s p = Some i"
  then show "((p, drop (i + length p) s), p, s) \<in> measure (\<lambda>(p, s). length s)"
    by (cases s) auto
qed simp

function replace_loop :: "string \<Rightarrow> string \<Rightarrow> string \<Rightarrow> string" where
  "replace_loop pat rep s =
     (if pat = [] then s
      else case strstr s pat of
             None \<Rightarrow> s
           | Some i \<Rightarrow> take i s @ rep @ replace_loop pat rep (drop (i + length pat) s))"
  by pat_completeness auto
termination
proof (relation "measure (\<lambda>(p, r, s). length s)")
  fix p r s i
  assume "p \<noteq> []" "strstr s p = Some i"
  then show "((p, r, drop (i + length p) s), p, r, s) \<in> measure (\<lambda>(p, r, s). length s)"
    by (cases s) auto
qed simp

declare count_occ.simps [simp del] replace_loop.simps [simp del]

text \<open>The new text and the size passed to \<open>zbx_malloc\<close>.\<close>

definition string_replace :: "string \<Rightarrow> string \<Rightarrow> string \<Rightarrow> (string \<times> int) option" where
  "string_replace str sub_str1 sub_str2 =
     (if sub_str1 = [] then None
      else let count = count_occ sub_str1 str
           in if count = 0 then Some (str, int (length str) + 1)
              else Some (replace_loop sub_str1 sub_str2 str,
                         int (length str) + int count * (int (length sub_str2) - int (length sub_str1)) + 1))"

lemma strstr_length:
  "strstr s p = Some i \<Longrightarrow> i + length p \<le> length s"
proof -
  assume "strstr s p = Some i"
  then obtain r where "i \<le> length s" "drop i s = p @ r" using strstr_SomeD [of s p i] by (auto simp: is_prefix_iff)
  then have "length (drop i s) = length p + length r" by simp
  then show ?thesis using \<open>i \<le> length s\<close> by simp
qed

lemma replace_loop_length:
  "int (length (replace_loop p r s)) = int (length s) + int (count_occ p s) * (int (length r) - int (length p))"
proof (induction p r s rule: replace_loop.induct)
  case (1 p r s)
  show ?case
  proof (cases "p = [] \<or> strstr s p = None")
    case True
    then show ?thesis by (auto simp: replace_loop.simps [of p r s] count_occ.simps [of p s])
  next
    case False
    then obtain i where i: "p \<noteq> []" "strstr s p = Some i" by auto
    then show ?thesis
      using "1.IH" [OF i(1) i(2)] strstr_length [OF i(2)]
      by (simp add: replace_loop.simps [of p r s] count_occ.simps [of p s] algebra_simps)
  qed
qed

text \<open>\<open>string_replace\<close> returns for every non-empty pattern, and the copying loop
  fills the block it allocated exactly, terminator included.\<close>

theorem string_replace_fills_block:
  assumes "pat \<noteq> []"
  shows "\<exists>t sz. string_replace s pat rep = Some (t, sz) \<and> int (length t) + 1 = sz"
  using assms replace_loop_length [of pat rep s] by (auto simp: string_replace_def Let_def)

theorem string_replace_fills_block_witness:
  "\<exists>t sz. string_replace ''a&b'' ''&'' ''&amp;'' = Some (t, sz) \<and> int (length t) + 1 = sz"
  by (rule string_replace_fills_block) simp

subsection \<open>Trimming\<close>

text \<open>The loop of \<open>del_zeroes\<close> over the reversed string; it has no lower bound on the
  index, so running off the front is \<^const>\<open>None\<close>.\<close>

fun del_zeroes_loop :: "string \<Rightarrow> string option" where
  "del_zeroes_loop [] = None"
| "del_zeroes_loop (c # cs) =
     (if c = CHR ''0'' then del_zeroes_loop cs
      else if c = CHR ''.'' then Some cs
      else Some (c # cs))"

definition del_zeroes :: "string \<Rightarrow> string option" where
  "del_zeroes s = (if strchr s CHR ''.'' \<noteq> None then map_option rev (del_zeroes_loop (rev s)) else Some s)"

lemma del_zeroes_loop_spec:
  "CHR ''.'' \<in> set s \<Longrightarrow>
   del_zeroes_loop s = Some (let t = dropWhile (\<lambda>c. c = CHR ''0'') s in if hd t = CHR ''.'' then tl t else t)"
  by (induction s) (auto simp: Let_def)

lemma del_zeroes_total: "\<exists>t. del_zeroes s = Some t"
  by (auto simp: del_zeroes_def strchr_None_iff del_zeroes_loop_spec)

definition delete_reol :: "string \<Rightarrow> string" where
  "delete_reol s = rev (dropWhile (\<lambda>c. c = CHR ''\<newline>'') (rev s))"

fun zbx_rtrim :: "string option \<Rightarrow> string option \<Rightarrow> string option" where
  "zbx_rtrim (Some str) (Some charlist) =
     (if str = [] \<or> charlist = [] then Some str
      else Some (rev (dropWhile (\<lambda>c. strchr charlist c \<noteq> None) (rev str))))"
| "zbx_rtrim str charlist = str"

fun zbx_ltrim :: "string option \<Rightarrow> string option \<Rightarrow> string option" where
  "zbx_ltrim (Some str) (Some charlist) =
     (if str = [] \<or> charlist = [] then Some str
      else let p = dropWhile (\<lambda>c. strchr charlist c \<noteq> None) str
           in if length p = length str then Some str else Some p)"
| "zbx_ltrim str charlist = str"

fun zbx_remove_chars :: "string option \<Rightarrow> string option \<Rightarrow> string option" where
  "zbx_remove_chars (Some str) (Some charlist) =
     (if str = [] \<or> charlist = [] then Some str
      else Some (filter (\<lambda>c. strchr charlist c = None) str))"
| "zbx_remove_chars str charlist = str"

definition rtrim_spaces :: "string \<Rightarrow> string" where
  "rtrim_spaces s = rev (dropWhile (\<lambda>c. c = CHR '' '') (rev s))"

text \<open>\<open>ltrim_spaces\<close> counts the leading blanks, shifts the rest down and cuts the
  string by that count: \<open>c[strlen(c)-spaces] = 0\<close> on the shifted bytes, whose tail still
  holds the old ones.\<close>

definition ltrim_spaces :: "string \<Rightarrow> string" where
  "ltrim_spaces c =
     (let spaces = length (takeWhile (\<lambda>x. x = CHR '' '') c);
          shifted = drop spaces c @ drop (length c - spaces) c
      in take (length shifted - spaces) shifted)"

definition lrtrim_spaces :: "string \<Rightarrow> string" where
  "lrtrim_spaces c = rtrim_spaces (ltrim_spaces c)"

lemma ltrim_spaces_eq: "ltrim_spaces c = dropWhile (\<lambda>x. x = CHR '' '') c"
proof -
  let ?n = "length (takeWhile (\<lambda>x. x = CHR '' '') c)"
  have n: "?n \<le> length c" by (rule length_takeWhile_le)
  then have "ltrim_spaces c = drop ?n c" by (simp add: ltrim_spaces_def Let_def)
  then show ?thesis by (simp add: dropWhile_eq_drop)
qed

lemma rtrim_Some: "charlist \<noteq> [] \<Longrightarrow>
  zbx_rtrim (Some s) (Some charlist) = Some (rev (dropWhile (\<lambda>c. c \<in> set charlist) (rev s)))"
  by (simp add: strchr_None_iff)

lemma ltrim_Some: "charlist \<noteq> [] \<Longrightarrow>
  zbx_ltrim (Some s) (Some charlist) = Some (dropWhile (\<lambda>c. c \<in> set charlist) s)"
proof -
  assume ne: "charlist \<noteq> []"
  let ?p = "dropWhile (\<lambda>c. c \<in> set charlist) s"
  have "?p = s" if "length ?p = length s"
    using that by (metis takeWhile_dropWhile_id append_self_conv2 length_append add_cancel_left_left length_0_conv)
  then show ?thesis using ne by (auto simp: strchr_None_iff Let_def)
qed

text \<open>Trimming as a specification: cut the longest prefix (suffix) of listed characters.\<close>

definition ends_clean :: "char set \<Rightarrow> string \<Rightarrow> bool" where
  "ends_clean C s \<longleftrightarrow> s = [] \<or> (hd s \<notin> C \<and> List.last s \<notin> C)"

lemma trim_both_clean:
  "ends_clean C (dropWhile (\<lambda>c. c \<in> C) (rev (dropWhile (\<lambda>c. c \<in> C) (rev s))))"
proof -
  let ?t = "rev (dropWhile (\<lambda>c. c \<in> C) (rev s))"
  let ?u = "dropWhile (\<lambda>c. c \<in> C) ?t"
  show ?thesis
  proof (cases "?u = []")
    case False
    then have tne: "?t \<noteq> []" by (metis dropWhile.simps(1))
    then have rne: "dropWhile (\<lambda>c. c \<in> C) (rev s) \<noteq> []" by simp
    have "List.last ?u = List.last ?t" by (metis False last_appendR takeWhile_dropWhile_id)
    also have "\<dots> = hd (dropWhile (\<lambda>c. c \<in> C) (rev s))" using rne by (simp add: last_rev)
    finally have "List.last ?u \<notin> C" using hd_dropWhile [OF rne] by simp
    moreover have "hd ?u \<notin> C" using hd_dropWhile [OF False] by simp
    ultimately show ?thesis unfolding ends_clean_def by blast
  next
    case True
    then show ?thesis unfolding ends_clean_def by (rule disjI1)
  qed
qed

text \<open>\<open>zbx_rtrim\<close> followed by \<open>zbx_ltrim\<close>, as \<open>set_result_type\<close> and
  the configuration parser use them, leave a contiguous part of the string whose two ends are not
  in the list of characters, with only listed characters cut on either side.\<close>

theorem trim_chain_correct:
  assumes "cl \<noteq> []"
  shows "\<exists>t a b. zbx_ltrim (zbx_rtrim (Some s) (Some cl)) (Some cl) = Some t \<and>
           s = a @ t @ b \<and> set a \<subseteq> set cl \<and> set b \<subseteq> set cl \<and> ends_clean (set cl) t"
proof -
  let ?P = "\<lambda>c. c \<in> set cl"
  let ?r = "rev (dropWhile ?P (rev s))"
  let ?t = "dropWhile ?P ?r"
  have "s = ?r @ rev (takeWhile ?P (rev s))"
    by (metis rev_append rev_rev_ident takeWhile_dropWhile_id)
  then have "s = takeWhile ?P ?r @ ?t @ rev (takeWhile ?P (rev s))"
    by (metis append.assoc takeWhile_dropWhile_id)
  moreover have "set (takeWhile ?P ?r) \<subseteq> set cl" "set (rev (takeWhile ?P (rev s))) \<subseteq> set cl"
    by (auto dest: set_takeWhileD)
  moreover have "ends_clean (set cl) ?t" by (rule trim_both_clean)
  ultimately show ?thesis using rtrim_Some [OF assms] ltrim_Some [OF assms] by metis
qed

theorem trim_chain_correct_witness:
  "\<exists>t. zbx_ltrim (zbx_rtrim (Some '' a b '') (Some '' '')) (Some '' '') = Some t \<and> ends_clean (set '' '') t"
  using trim_chain_correct [of "'' ''" "'' a b ''"] by auto

end
