(* ===== verification/CFields.thy ===== *)
theory CFields
  imports CString
begin

section \<open>Copying, fields and names (\<open>libs/zbxcommon/str.c\<close>, second half)\<close>

text \<open>
  The bounded copies \<open>zbx_strlcpy\<close> and \<open>zbx_strlcat\<close>, the field readers
  \<open>zbx_get_field\<close>, \<open>zbx_get_next_field\<close> and \<open>str_in_list\<close>,
  \<open>zbx_strdcat\<close>, the age printer and the names of the enumerations.
\<close>

subsection \<open>Bounded copies\<close>

text \<open>The copying loop of \<open>zbx_strlcpy\<close>: \<open>n\<close> is the room before the decrement of
  the loop condition; the flag tells whether the terminator was copied (the \<open>break\<close>).\<close>

fun strlcpy_loop :: "nat \<Rightarrow> string \<Rightarrow> string \<times> bool" where
  "strlcpy_loop 0 s = ([], False)"
| "strlcpy_loop (Suc 0) s = ([], False)"
| "strlcpy_loop (Suc (Suc n)) [] = ([], True)"
| "strlcpy_loop (Suc (Suc n)) (c # s) = (let (d, b) = strlcpy_loop (Suc n) s in (c # d, b))"

text \<open>The new destination (\<open>None\<close>: not written) and the returned length.\<close>

definition zbx_strlcpy :: "string \<Rightarrow> nat \<Rightarrow> string option \<times> nat" where
  "zbx_strlcpy src siz =
     (if siz = 0 then (None, length src) else (Some (fst (strlcpy_loop siz src)), length src))"

lemma strlcpy_loop_eq: "fst (strlcpy_loop n s) = take (n - 1) s"
  by (induction n s rule: strlcpy_loop.induct) (auto simp: case_prod_beta)

lemma zbx_strlcpy_eq [simp]: "0 < siz \<Longrightarrow> zbx_strlcpy src siz = (Some (take (siz - 1) src), length src)"
  by (simp add: zbx_strlcpy_def strlcpy_loop_eq)

text \<open>\<open>siz\<close> is the size of the whole destination.  \<open>d\<close> stops at the end of
  \<open>dst\<close> or after \<open>siz\<close> bytes; with no room left nothing is written.\<close>

fun strlcat_loop :: "nat \<Rightarrow> string \<Rightarrow> string" where
  "strlcat_loop n [] = []"
| "strlcat_loop n (c # s) = (if n \<noteq> 1 then c # strlcat_loop (n - 1) s else strlcat_loop n s)"

definition zbx_strlcat :: "string \<Rightarrow> string \<Rightarrow> nat \<Rightarrow> string \<times> nat" where
  "zbx_strlcat dst src siz =
     (let dlen = min siz (length dst); n = siz - dlen
      in if n = 0 then (dst, dlen + length src)
         else (dst @ strlcat_loop n src, dlen + length src))"

lemma strlcat_loop_eq: "0 < n \<Longrightarrow> strlcat_loop n s = take (n - 1) s"
proof (induction s arbitrary: n)
  case (Cons c s)
  then show ?case
    by (cases "n = 1") (auto simp: take_Cons')
qed simp

lemma zbx_strlcat_eq:
  "fst (zbx_strlcat dst src siz) = (if length dst < siz then dst @ take (siz - length dst - 1) src else dst)"
  by (auto simp: zbx_strlcat_def Let_def strlcat_loop_eq min_def)

lemma zbx_strlcat_fits:
  "length dst + length src < siz \<Longrightarrow> fst (zbx_strlcat dst src siz) = dst @ src"
  by (simp add: zbx_strlcat_eq)

text \<open>The bounded copies never write past the buffer of \<open>siz\<close> bytes, terminator
  included, keep a prefix of what was to be written, and return the length the whole would have, so
  that a caller can detect truncation by comparing with \<open>siz\<close>.\<close>

theorem bounded_copies:
  assumes "0 < siz" and "length dst < siz"
  shows "fst (zbx_strlcpy src siz) = Some (take (siz - 1) src) \<and> snd (zbx_strlcpy src siz) = length src \<and>
         fst (zbx_strlcat dst src siz) = take (siz - 1) (dst @ src) \<and>
         length (fst (zbx_strlcat dst src siz)) < siz \<and>
         (snd (zbx_strlcat dst src siz) < siz \<longleftrightarrow> fst (zbx_strlcat dst src siz) = dst @ src)"
proof -
  have cat: "fst (zbx_strlcat dst src siz) = take (siz - 1) (dst @ src)"
    using assms by (simp add: zbx_strlcat_eq)
  have "snd (zbx_strlcat dst src siz) = length (dst @ src)"
    using assms by (simp add: zbx_strlcat_def Let_def)
  then show ?thesis using assms cat
    by (auto simp del: take_append simp: take_all_iff)
qed

theorem bounded_copies_witness:
  "fst (zbx_strlcat ''ab'' ''cdef'' 5) = ''abcd''"
  using bounded_copies [of 5 "''ab''" "''cdef''"] by simp

subsection \<open>Fields\<close>

fun get_field_loop :: "string \<Rightarrow> int \<Rightarrow> char \<Rightarrow> int \<Rightarrow> string" where
  "get_field_loop [] num sep delim = []"
| "get_field_loop (c # cs) num sep delim =
     (if c = sep then get_field_loop cs num sep (delim + 1)
      else if delim = num then c # get_field_loop cs num sep delim
      else get_field_loop cs num sep delim)"

text \<open>\<open>result\<close> is written only when the field has a character.\<close>

definition zbx_get_field :: "string \<Rightarrow> string \<Rightarrow> int \<Rightarrow> char \<Rightarrow> zret \<times> string" where
  "zbx_get_field line result num separator =
     (let f = get_field_loop line num separator 0
      in if f = [] then (FAIL, result) else (SUCCEED, f))"

datatype mem_error = BufferOverflow nat nat \<comment> \<open>bytes needed, bytes allocated\<close>

text \<open>The returned length, the output, the rest of the line (NULL after the last field) and the
  new size of the output buffer.\<close>

definition zbx_get_next_field :: "string \<Rightarrow> nat \<Rightarrow> char \<Rightarrow> mem_error + (nat \<times> string \<times> string option \<times> nat)" where
  "zbx_get_next_field line olen separator =
     (let ret = strchr line separator;
          flen = (case ret of Some i \<Rightarrow> i | None \<Rightarrow> length line);
          rest = map_option (\<lambda>i. drop (Suc i) line) ret;
          olen' = (if olen < flen + 1 then flen * 2 else olen)
      in if olen' < flen + 1 then Inl (BufferOverflow (flen + 1) olen')
         else Inr (flen, take flen line, rest, olen'))"

text \<open>Reading all fields, as the callers do until the rest is NULL.\<close>

function all_fields :: "string \<Rightarrow> nat \<Rightarrow> char \<Rightarrow> mem_error + string list" where
  "all_fields line olen separator =
     (case zbx_get_next_field line olen separator of
        Inl e \<Rightarrow> Inl e
      | Inr (flen, out, None, olen') \<Rightarrow> Inr [out]
      | Inr (flen, out, Some rest, olen') \<Rightarrow>
          (case all_fields rest olen' separator of Inl e \<Rightarrow> Inl e | Inr fs \<Rightarrow> Inr (out # fs)))"
  by pat_completeness auto
termination
  by (relation "measure (\<lambda>(l, n, c). length l)")
     (auto simp: zbx_get_next_field_def Let_def split: option.splits if_splits dest: strchr_SomeD)

declare all_fields.simps [simp del]

lemma next_field_ok:
  "0 < olen \<Longrightarrow> \<exists>r. zbx_get_next_field line olen sep = Inr r \<and> 0 < snd (snd (snd r))"
  by (auto simp: zbx_get_next_field_def Let_def split: option.splits)

lemma next_field_last:
  assumes "sep \<notin> set f" "0 < olen"
  shows "\<exists>olen' > 0. zbx_get_next_field f olen sep = Inr (length f, f, None, olen')"
  using assms by (auto simp: zbx_get_next_field_def strchr_None_iff [THEN iffD2] Let_def)

lemma next_field_more:
  assumes "sep \<notin> set f" "0 < olen"
  shows "\<exists>olen' > 0. zbx_get_next_field (f @ sep # r) olen sep = Inr (length f, f, Some r, olen')"
  using assms by (auto simp: zbx_get_next_field_def strchr_append Let_def)

text \<open>Reading a joined line back field by field returns exactly the fields that were joined,
  empty ones included, for any buffer that has at least one byte to start with; the growth of the
  buffer always leaves room for the terminator.\<close>

theorem next_field_roundtrip:
  assumes "fs \<noteq> []" and "\<forall>f \<in> set fs. sep \<notin> set f" and "0 < olen"
  shows "all_fields (join_fields sep fs) olen sep = Inr fs"
  using assms
proof (induction sep fs arbitrary: olen rule: join_fields.induct)
  case (2 sep f)
  then obtain ol where "zbx_get_next_field f olen sep = Inr (length f, f, None, ol)"
    using next_field_last [of sep f olen] by auto
  then show ?case by (simp add: all_fields.simps [of f])
next
  case (3 sep f g fs)
  let ?r = "join_fields sep (g # fs)"
  obtain ol where "0 < ol" "zbx_get_next_field (f @ sep # ?r) olen sep = Inr (length f, f, Some ?r, ol)"
    using next_field_more [of sep f olen ?r] "3.prems" by auto
  then show ?case using "3.IH" [of ol] "3.prems" by (simp add: all_fields.simps [of "f @ sep # ?r"])
qed simp

theorem next_field_roundtrip_witness:
  "all_fields ''ab,,c'' 1 CHR '','' = Inr [''ab'', '''', ''c'']"
  using next_field_roundtrip [of "[''ab'', '''', ''c'']" "CHR '',''" 1] by simp

text \<open>A zero-sized buffer is the exception: doubling an empty field's length allocates nothing
  and the terminator is written past the end.\<close>

lemma next_field_zero_buffer: "zbx_get_next_field '''' 0 CHR '','' = Inl (BufferOverflow 1 0)"
  by (simp add: zbx_get_next_field_def)

function str_in_list :: "string \<Rightarrow> string \<Rightarrow> char \<Rightarrow> zret" where
  "str_in_list start value delimiter =
     (if start = [] then FAIL
      else case strchr start delimiter of
             None \<Rightarrow> if start = value then SUCCEED else FAIL
           | Some i \<Rightarrow> if take i start = value then SUCCEED
                      else str_in_list (drop (Suc i) start) value delimiter)"
  by pat_completeness auto
termination
  by (relation "measure (\<lambda>(s, v, d). length s)") (auto dest: strchr_SomeD)

declare str_in_list.simps [simp del]

text \<open>\<open>str_in_list\<close> finds a value exactly when it is one of the pieces between
  delimiters, where a trailing delimiter opens no last empty piece.\<close>

theorem str_in_list_pieces: "str_in_list list v d = SUCCEED \<longleftrightarrow> v \<in> set (pieces d list)"
proof (induction list v d rule: str_in_list.induct)
  case (1 start v d)
  show ?case
  proof (cases "start = []")
    case False
    then show ?thesis
      using "1.IH" [OF False]
      by (cases "strchr start d")
         (auto simp: str_in_list.simps [of start] pieces.simps [of d start])
  qed (simp add: str_in_list.simps)
qed

subsection \<open>Concatenation with NULL\<close>

definition zbx_strdcat :: "string option \<Rightarrow> string option \<Rightarrow> string option" where
  "zbx_strdcat dest src =
     (case src of None \<Rightarrow> dest
      | Some s \<Rightarrow> (case dest of None \<Rightarrow> Some s | Some d \<Rightarrow> Some (d @ s)))"

subsection \<open>Ages\<close>

text \<open>\<open>zbx_snprintf (buffer + offset, 32 - offset, ...)\<close> on a C string: what stood before
  \<open>offset\<close> stays, the new text replaces the rest.  The number of characters written is
  returned.\<close>

definition write_at :: "string \<Rightarrow> nat \<Rightarrow> string \<Rightarrow> string \<times> nat" where
  "write_at buffer offset s =
     (let w = take (32 - offset - 1) s in (take offset buffer @ w, length w))"

definition zbx_age2str :: "int \<Rightarrow> string" where
  "zbx_age2str age =
     (let days = trunc_div age 86400;
          hours = trunc_div (age - days * 86400) 3600;
          minutes = trunc_div (age - days * 86400 - hours * 3600) 60;
          (b1, o1) = (if days \<noteq> 0 then write_at [] 0 (show_int days @ ''d '') else ([], 0));
          (b2, o2) = (if days \<noteq> 0 \<or> hours \<noteq> 0 then write_at b1 o1 (show_int hours @ ''h '') else (b1, o1));
          (b3, o3) = write_at b2 o2 (show_int minutes @ ''m '')
      in b3)"

text \<open>\<open>offset\<close> is assigned the length of the last piece instead of being advanced by it,
  so from one day on the minutes overwrite what was printed before them.\<close>

lemma age2str_loses_hours: "zbx_age2str (86400 + 2 * 3600 + 3 * 60) = ''1d 3m ''"
  by code_simp

lemma age2str_tens_overwritten: "zbx_age2str (10 * 86400 + 2 * 3600 + 3 * 60) = ''10d3m ''"
  by code_simp

subsection \<open>Names of the enumerations\<close>

definition zbx_permission_string :: "int \<Rightarrow> string" where
  "zbx_permission_string perm =
     (if perm = 0 then ''dn'' else if perm = 1 then ''rl'' else if perm = 2 then ''ro''
      else if perm = 3 then ''rw'' else ''unknown'')"

datatype value_type = VT_FLOAT | VT_STR | VT_LOG | VT_UINT64 | VT_TEXT

fun zbx_item_value_type_string :: "value_type \<Rightarrow> string" where
  "zbx_item_value_type_string VT_FLOAT = ''Numeric (float)''"
| "zbx_item_value_type_string VT_STR = ''Character''"
| "zbx_item_value_type_string VT_LOG = ''Log''"
| "zbx_item_value_type_string VT_UINT64 = ''Numeric (integer 64bit)''"
| "zbx_item_value_type_string VT_TEXT = ''Text''"

fun zbx_result_string :: "zret \<Rightarrow> string" where
  "zbx_result_string SUCCEED = ''SUCCEED''"
| "zbx_result_string FAIL = ''FAIL''"
| "zbx_result_string NOTSUPPORTED = ''NOTSUPPORTED''"
| "zbx_result_string NETWORK_ERROR = ''NETWORK_ERROR''"
| "zbx_result_string TIMEOUT_ERROR = ''TIMEOUT_ERROR''"
| "zbx_result_string AGENT_ERROR = ''AGENT_ERROR''"

end
