(* ===== verification/ItemKey.thy ===== *)
theory ItemKey
  imports CFields
begin

section \<open>Item keys and their parameters\<close>

text \<open>
  An item key is \<open>command[param1,param2,...]\<close>.  \<open>num_param\<close>, \<open>get_param\<close>,
  \<open>get_key_param\<close>, \<open>num_key_param\<close> (\<open>libs/zbxcommon/str.c\<close>) and
  \<open>parse_command\<close>, \<open>replace_param\<close> (\<open>libs/zbxsysinfo/sysinfo.c\<close>) take it
  apart.  The two state machines over the parameter string are recursions over its rest with the
  state as an argument: 0 at the start of a parameter, 1 inside quotes, 2 inside an unquoted
  parameter.
\<close>

definition MAX_STRING_LEN :: nat where
  "MAX_STRING_LEN = 2048"

datatype pstate = PInit | PQuoted | PUnquoted

subsection \<open>Counting parameters\<close>

fun num_param_loop :: "pstate \<Rightarrow> string \<Rightarrow> int \<Rightarrow> int" where
  "num_param_loop st [] ret = ret"
| "num_param_loop PInit (c # cs) ret =
     (if c = CHR '','' then num_param_loop PInit cs (ret + 1)
      else if c = CHR 0x22 then num_param_loop PQuoted cs ret
      else if c = CHR 0x5C \<and> cs \<noteq> [] \<and> hd cs = CHR 0x22 then num_param_loop PUnquoted cs ret
      else if c \<noteq> CHR '' '' then num_param_loop PUnquoted cs ret
      else num_param_loop PInit cs ret)"
| "num_param_loop PQuoted (c # cs) ret =
     (if c = CHR 0x22 then num_param_loop PInit cs ret
      else if c = CHR 0x5C \<and> cs \<noteq> [] \<and> hd cs = CHR 0x22 then num_param_loop PUnquoted (tl cs) ret
      else num_param_loop PQuoted cs ret)"
| "num_param_loop PUnquoted (c # cs) ret =
     (if c = CHR '','' then num_param_loop PInit cs (ret + 1) else num_param_loop PUnquoted cs ret)"

definition num_param :: "string option \<Rightarrow> int" where
  "num_param param = (case param of None \<Rightarrow> 0 | Some p \<Rightarrow> num_param_loop PInit p 1)"

subsection \<open>Reading a parameter\<close>

text \<open>
  \<open>get_param_loop num maxlen st idx ret out param\<close>: \<open>out\<close> is what was written to
  \<open>buf\<close> so far, so \<open>buf_i\<close> is its length.  The loop stops at the end of the
  string, after parameter \<open>num\<close>, or when \<open>buf_i\<close> reaches \<open>maxlen\<close>.
\<close>

fun get_param_loop :: "int \<Rightarrow> nat \<Rightarrow> pstate \<Rightarrow> int \<Rightarrow> int \<Rightarrow> string \<Rightarrow> string \<Rightarrow> int \<times> string" where
  "get_param_loop num maxlen st idx ret out [] = (ret, out)"
| "get_param_loop num maxlen PInit idx ret out (c # cs) =
     (if \<not> (idx \<le> num \<and> length out < maxlen) then (ret, out)
      else let ret' = (if idx = num then 0 else ret)
      in if c = CHR '','' then get_param_loop num maxlen PInit (idx + 1) ret' out cs
         else if c = CHR 0x22 then get_param_loop num maxlen PQuoted idx ret' out cs
         else if idx = num then
           (if c = CHR 0x5C \<and> cs \<noteq> [] \<and> hd cs = CHR 0x22
            then get_param_loop num maxlen PUnquoted idx ret' (out @ [c, hd cs]) (tl cs)
            else if c \<noteq> CHR '' '' then get_param_loop num maxlen PUnquoted idx ret' (out @ [c]) cs
            else get_param_loop num maxlen PUnquoted idx ret' out cs)
         else get_param_loop num maxlen PInit idx ret' out cs)"
| "get_param_loop num maxlen PQuoted idx ret out (c # cs) =
     (if \<not> (idx \<le> num \<and> length out < maxlen) then (ret, out)
      else let ret' = (if idx = num then 0 else ret)
      in if c = CHR 0x22 then get_param_loop num maxlen PInit idx ret' out cs
         else if idx = num then
           (if c = CHR 0x5C \<and> cs \<noteq> [] \<and> hd cs = CHR 0x22
            then get_param_loop num maxlen PQuoted idx ret' (out @ [hd cs]) (tl cs)
            else get_param_loop num maxlen PQuoted idx ret' (out @ [c]) cs)
         else get_param_loop num maxlen PQuoted idx ret' out cs)"
| "get_param_loop num maxlen PUnquoted idx ret out (c # cs) =
     (if \<not> (idx \<le> num \<and> length out < maxlen) then (ret, out)
      else let ret' = (if idx = num then 0 else ret)
      in if c = CHR '','' then get_param_loop num maxlen PInit (idx + 1) ret' out cs
         else if idx = num then get_param_loop num maxlen PUnquoted idx ret' (out @ [c]) cs
         else get_param_loop num maxlen PUnquoted idx ret' out cs)"

text \<open>The returned code and the contents of \<open>buf\<close>; the terminator goes to position
  \<open>length\<close> of the contents.\<close>

definition get_param :: "string \<Rightarrow> int \<Rightarrow> nat \<Rightarrow> int \<times> string" where
  "get_param param num maxlen =
     (let (ret, out) = get_param_loop num maxlen PInit 1 1 [] param
      in (if num = 1 then 0 else ret, out))"

lemma get_param_loop_length:
  "length out \<le> maxlen + 1 \<Longrightarrow>
   length (snd (get_param_loop num maxlen st idx ret out p)) \<le> maxlen + 1"
proof (induction num maxlen st idx ret out p rule: get_param_loop.induct)
  case 1
  then show ?case by simp
next
  case 2
  then show ?case by (auto simp: Let_def not_less split: if_splits)
next
  case 3
  then show ?case by (auto simp: Let_def not_less split: if_splits)
next
  case 4
  then show ?case by (auto simp: Let_def not_less split: if_splits)
qed

lemma get_param_length: "length (snd (get_param p num maxlen)) \<le> maxlen + 1"
  using get_param_loop_length [of "[]" maxlen num PInit 1 1 p]
  by (simp add: get_param_def case_prod_beta)

text \<open>\<open>buf[buf_i]='\0'\<close> after the loop is outside a buffer of \<open>maxlen\<close> bytes as soon
  as the parameter has \<open>maxlen\<close> characters; the escaped quote, copied as two characters
  under one test, goes one byte further.\<close>

lemma get_param_overflow:
  "snd (get_param ''abcd'' 1 4) = ''abcd''" "length (snd (get_param ''abcd'' 1 4)) + 1 > 4"
  "length (snd (get_param [CHR 0x5C, CHR 0x22] 1 1)) + 1 = 1 + 2"
  by (simp_all add: get_param_def)

subsection \<open>Rendering and reading back\<close>

text \<open>A plain parameter: no comma, quote or backslash, no blank in front.  Any parameter free
  of quotes and backslashes can be quoted.\<close>

definition plain_param :: "string \<Rightarrow> bool" where
  "plain_param p \<longleftrightarrow> p \<noteq> [] \<and> hd p \<noteq> CHR '' '' \<and> CHR '','' \<notin> set p \<and> CHR 0x22 \<notin> set p \<and> CHR 0x5C \<notin> set p"

definition quotable :: "string \<Rightarrow> bool" where
  "quotable p \<longleftrightarrow> CHR 0x22 \<notin> set p \<and> CHR 0x5C \<notin> set p"

definition render_param :: "string \<Rightarrow> string" where
  "render_param p = (if plain_param p then p else CHR 0x22 # p @ [CHR 0x22])"

definition render_params :: "string list \<Rightarrow> string" where
  "render_params ps = join_fields CHR '','' (map render_param ps)"

lemma render_params_Cons:
  "render_params (p # q # ps) = render_param p @ CHR '','' # render_params (q # ps)"
  "render_params [p] = render_param p"
  by (simp_all add: render_params_def)

lemma read_unquoted:
  assumes "CHR '','' \<notin> set p" "length out + length p \<le> maxlen" "r = [] \<or> hd r = CHR '',''"
  shows "get_param_loop num maxlen PUnquoted num 0 out (p @ r) =
         (if r = [] \<or> length out + length p = maxlen then (0, out @ p)
          else get_param_loop num maxlen PInit (num + 1) 0 (out @ p) (tl r))"
  using assms
proof (induction p arbitrary: out)
  case Nil
  then show ?case by (cases r) (auto simp: Let_def)
next
  case (Cons c p)
  then show ?case using Cons.IH [of "out @ [c]"] by (auto simp: Let_def)
qed

lemma read_quoted:
  assumes "quotable p" "length out + length p < maxlen"
  shows "get_param_loop num maxlen PQuoted num 0 out (p @ CHR 0x22 # r) =
         get_param_loop num maxlen PInit num 0 (out @ p) r"
  using assms
proof (induction p arbitrary: out)
  case (Cons c p)
  then show ?case using Cons.IH [of "out @ [c]"] by (auto simp: Let_def quotable_def)
qed (simp add: Let_def)

lemma skip_unquoted_init:
  assumes "CHR '','' \<notin> set p" "CHR 0x22 \<notin> set p" "idx < num" "0 < maxlen"
  shows "get_param_loop num maxlen PInit idx ret [] (p @ CHR '','' # r) =
         get_param_loop num maxlen PInit (idx + 1) ret [] r"
  using assms by (induction p) (auto simp: Let_def)

lemma skip_quoted:
  assumes "quotable p" "idx < num" "0 < maxlen"
  shows "get_param_loop num maxlen PQuoted idx ret [] (p @ CHR 0x22 # r) =
         get_param_loop num maxlen PInit idx ret [] r"
  using assms by (induction p) (auto simp: Let_def quotable_def)

lemma skip_rendered:
  assumes "quotable p" "idx < num" "0 < maxlen"
  shows "get_param_loop num maxlen PInit idx ret [] (render_param p @ CHR '','' # r) =
         get_param_loop num maxlen PInit (idx + 1) ret [] r"
proof (cases "plain_param p")
  case True
  then show ?thesis using skip_unquoted_init assms by (simp add: render_param_def plain_param_def)
next
  case False
  then show ?thesis
    using assms skip_quoted [OF assms(1,2,3), of ret "CHR '','' # r"]
    by (simp add: render_param_def Let_def)
qed

lemma past_num: "get_param_loop num maxlen st (num + 1) ret out p = (ret, out)"
  by (cases p; cases st) auto

lemma read_rendered:
  assumes "quotable p" "length p < maxlen" "r = [] \<or> hd r = CHR '',''"
  shows "snd (get_param_loop num maxlen PInit num ret [] (render_param p @ r)) = p \<and>
         fst (get_param_loop num maxlen PInit num ret [] (render_param p @ r)) = 0"
proof (cases "plain_param p")
  case True
  then obtain c q where cq: "p = c # q" "c \<noteq> CHR '' ''" "c \<noteq> CHR '',''" "c \<noteq> CHR 0x22" "c \<noteq> CHR 0x5C"
    "CHR '','' \<notin> set q" by (cases p) (auto simp: plain_param_def)
  then have "get_param_loop num maxlen PInit num ret [] (render_param p @ r)
      = get_param_loop num maxlen PUnquoted num 0 [c] (q @ r)"
    using True assms(2) by (simp add: render_param_def Let_def)
  then show ?thesis
    using read_unquoted [of q "[c]" maxlen r num] assms cq by (auto simp: past_num)
next
  case False
  then have "get_param_loop num maxlen PInit num ret [] (render_param p @ r)
      = get_param_loop num maxlen PInit num 0 p r"
    using assms read_quoted [OF assms(1), of "[]" maxlen num r] by (simp add: render_param_def Let_def)
  then show ?thesis using assms(2,3) by (cases r) (auto simp: Let_def past_num)
qed

lemma get_param_loop_rendered:
  assumes "\<forall>p \<in> set ps. quotable p" "k < length ps" "length (ps ! k) < maxlen"
  shows "get_param_loop (idx + int k) maxlen PInit idx ret [] (render_params ps) = (0, ps ! k)"
  using assms
proof (induction ps arbitrary: idx k ret)
  case (Cons p ps)
  show ?case
  proof (cases k)
    case 0
    have "\<exists>r. render_params (p # ps) = render_param p @ r \<and> (r = [] \<or> hd r = CHR '','')"
      by (cases ps) (auto simp: render_params_Cons)
    then obtain r where "render_params (p # ps) = render_param p @ r" "r = [] \<or> hd r = CHR '',''" by blast
    then show ?thesis
      using read_rendered [of p maxlen r idx ret] Cons.prems 0 by (simp add: prod_eq_iff)
  next
    case (Suc j)
    then obtain q qs where ps: "ps = q # qs" using Cons.prems by (cases ps) auto
    have "get_param_loop (idx + int k) maxlen PInit idx ret [] (render_params (p # ps))
        = get_param_loop (idx + 1 + int j) maxlen PInit (idx + 1) ret [] (render_params ps)"
      using skip_rendered [of p idx "idx + int k" maxlen ret "render_params ps"] Cons.prems Suc
      by (simp add: ps render_params_Cons algebra_simps)
    then show ?thesis using Cons.IH [of j "idx + 1" ret] Cons.prems Suc by simp
  qed
qed simp

text \<open>C37: \<open>get_param\<close> returns the k-th of a list of parameters rendered plain or in quotes
  and separated by commas, with return code 0, for parameters free of quotes and backslashes that
  fit the buffer; the parameters in front of it are skipped correctly whatever commas their quoted
  text holds.\<close>

theorem get_param_roundtrip:
  assumes "\<forall>p \<in> set ps. quotable p" and "k < length ps" and "length (ps ! k) < maxlen"
  shows "get_param (render_params ps) (int k + 1) maxlen = (0, ps ! k)"
  using get_param_loop_rendered [OF assms, of 1 1] by (simp add: get_param_def add.commute)

theorem get_param_roundtrip_witness:
  "get_param (render_params [''a'', ''b,c'', ''d'']) 2 10 = (0, ''b,c'')"
  using get_param_roundtrip [of "[''a'', ''b,c'', ''d'']" 1 10] by (simp add: quotable_def)

lemma num_param_plain:
  assumes "CHR '','' \<notin> set p" "r = [] \<or> hd r = CHR '',''"
  shows "num_param_loop PUnquoted (p @ r) n =
         (if r = [] then n else num_param_loop PInit (tl r) (n + 1))"
  using assms by (induction p) (cases r, auto)

lemma num_param_quoted:
  "quotable p \<Longrightarrow> num_param_loop PQuoted (p @ CHR 0x22 # r) n = num_param_loop PInit r n"
  by (induction p) (auto simp: quotable_def)

lemma num_param_rendered1:
  assumes "quotable p" "r = [] \<or> hd r = CHR '',''"
  shows "num_param_loop PInit (render_param p @ r) n =
         (if r = [] then n else num_param_loop PInit (tl r) (n + 1))"
proof (cases "plain_param p")
  case True
  then obtain c q where "p = c # q" "c \<noteq> CHR '' ''" "c \<noteq> CHR '',''" "c \<noteq> CHR 0x22" "c \<noteq> CHR 0x5C"
    "CHR '','' \<notin> set q" by (cases p) (auto simp: plain_param_def)
  then show ?thesis using num_param_plain [of q r n] True assms by (simp add: render_param_def)
next
  case False
  then show ?thesis
    using num_param_quoted [OF assms(1), of r n] assms(2) by (cases r) (auto simp: render_param_def)
qed

lemma num_param_loop_rendered:
  "\<forall>p \<in> set ps. quotable p \<Longrightarrow> ps \<noteq> [] \<Longrightarrow>
   num_param_loop PInit (render_params ps) n = n + int (length ps) - 1"
proof (induction ps arbitrary: n rule: induct_list012)
  case (2 p)
  then show ?case using num_param_rendered1 [of p "[]" n] by (simp add: render_params_Cons)
next
  case (3 p q ps)
  then show ?case
    using num_param_rendered1 [of p "CHR '','' # render_params (q # ps)" n]
    by (simp add: render_params_Cons(1))
qed simp

text \<open>\<open>num_param\<close> counts the parameters of the same rendering, so on such keys the
  counter and the reader agree on what the parameters are.\<close>

theorem num_param_counts:
  assumes "\<forall>p \<in> set ps. quotable p" and "ps \<noteq> []"
  shows "num_param (Some (render_params ps)) = int (length ps)"
  using num_param_loop_rendered [OF assms, of 1] by (simp add: num_param_def)

theorem num_param_counts_witness: "num_param (Some (render_params [''x'', ''1,2''])) = 2"
  using num_param_counts [of "[''x'', ''1,2'']"] by (simp add: quotable_def)

text \<open>Outside that class the two machines differ.  After an escaped quote inside quotes the counter
  leaves the quoted state, the reader does not; and a blank in front of a quoted parameter makes the
  reader, but not the counter, take the quotes literally.\<close>

lemma params_disagree:
  "num_param (Some [CHR 0x22, CHR 0x5C, CHR 0x22, CHR '','', CHR 0x22]) = 2"
  "get_param [CHR 0x22, CHR 0x5C, CHR 0x22, CHR '','', CHR 0x22] 1 20 = (0, [CHR 0x22, CHR '',''])"
  "get_param ([CHR ''a'', CHR '','', CHR '' '', CHR 0x22, CHR ''b'', CHR 0x22]) 2 20
     = (0, [CHR 0x22, CHR ''b'', CHR 0x22])"
  by (simp_all add: num_param_def get_param_def)

end
