(* ===== verification/KeyParse.thy ===== *)
theory KeyParse
  imports ItemKey
begin

section \<open>Taking item keys apart\<close>

text \<open>
  The callers of the parameter machines: \<open>get_key_param\<close> and \<open>num_key_param\<close> of
  \<open>libs/zbxcommon/str.c\<close>, \<open>parse_command\<close> and \<open>replace_param\<close> of
  \<open>libs/zbxsysinfo/sysinfo.c\<close>, and \<open>item_description\<close> of
  \<open>libs/zbxserver/expression.c\<close>.  A pointer into a string is its position, the pointer
  comparison \<open>pl > pr\<close> takes NULL as the smallest.
\<close>

subsection \<open>Brackets\<close>

fun ptr_gt :: "nat option \<Rightarrow> nat option \<Rightarrow> bool" where
  "ptr_gt (Some i) (Some j) = (i > j)"
| "ptr_gt (Some i) None = True"
| "ptr_gt None q = False"

definition get_key_param :: "string \<Rightarrow> int \<Rightarrow> nat \<Rightarrow> int \<times> string option" where
  "get_key_param param num maxlen =
     (let pl = strchr param CHR ''[''; pr = strrchr param CHR '']''
      in if ptr_gt pl pr then (1, None)
         else case (pl, pr) of
           (Some i, Some j) \<Rightarrow>
             (let (ret, buf) = get_param (drop (Suc i) (take j param)) num maxlen in (ret, Some buf))
         | _ \<Rightarrow> (1, None))"

definition num_key_param :: "string option \<Rightarrow> int" where
  "num_key_param param =
     (case param of None \<Rightarrow> 0
      | Some p \<Rightarrow>
        (let pl = strchr p CHR ''[''; pr = strrchr p CHR '']''
         in if ptr_gt pl pr then 0
            else case (pl, pr) of
              (Some i, Some j) \<Rightarrow> num_param (Some (drop (Suc i) (take j p)))
            | _ \<Rightarrow> 0))"

text \<open>The return code (0 error, 1 no parameters, 2 parameters), the command and the parameters.\<close>

definition parse_command :: "string \<Rightarrow> nat \<Rightarrow> nat \<Rightarrow> int \<times> string \<times> string" where
  "parse_command command cmd_max_len param_max_len =
     (let localstr = take (MAX_STRING_LEN - 1) command;
          pl = strchr localstr CHR ''['';
          pr = strrchr localstr CHR '']''
      in if ptr_gt pl pr then (0, [], [])
         else case (pl, pr) of
           (None, Some j) \<Rightarrow> (0, [], [])
         | (Some i, None) \<Rightarrow> (0, [], [])
         | (Some i, Some j) \<Rightarrow>
             (2, take (cmd_max_len - 1) (take i localstr),
              take (param_max_len - 1) (drop (Suc i) (take j localstr)))
         | (None, None) \<Rightarrow> (1, take (cmd_max_len - 1) localstr, []))"

definition no_bracket :: "string \<Rightarrow> bool" where
  "no_bracket s \<longleftrightarrow> CHR ''['' \<notin> set s \<and> CHR '']'' \<notin> set s"

lemma key_brackets:
  assumes "CHR ''['' \<notin> set cmd" and "CHR '']'' \<notin> set tl'"
  shows "strchr (cmd @ CHR ''['' # ps @ CHR '']'' # tl') CHR ''['' = Some (length cmd)"
    and "strrchr (cmd @ CHR ''['' # ps @ CHR '']'' # tl') CHR '']'' = Some (length cmd + 1 + length ps)"
  using strchr_append [OF assms(1), of "ps @ CHR '']'' # tl'"]
    strrchr_append [OF assms(2), of "cmd @ CHR ''['' # ps"] by simp_all

text \<open>\<open>parse_command\<close> splits a key that fits its buffers into exactly the command and
  the text between the first opening and the last closing bracket (which may itself hold
  brackets), reports a key without brackets as a bare command, and refuses a lone or reversed pair.\<close>

theorem parse_command_cases:
  assumes "no_bracket cmd" and "length cmd + length ps + 2 < MAX_STRING_LEN"
  shows "parse_command (cmd @ CHR ''['' # ps @ '']'') MAX_STRING_LEN MAX_STRING_LEN = (2, cmd, ps) \<and>
         parse_command cmd MAX_STRING_LEN MAX_STRING_LEN = (1, cmd, []) \<and>
         fst (parse_command (cmd @ ''['') MAX_STRING_LEN MAX_STRING_LEN) = 0 \<and>
         fst (parse_command (cmd @ '']['') MAX_STRING_LEN MAX_STRING_LEN) = 0"
proof -
  have nb: "CHR ''['' \<notin> set cmd" "CHR '']'' \<notin> set cmd" using assms(1) by (auto simp: no_bracket_def)
  have ml: "length cmd < MAX_STRING_LEN - 1" "Suc (length cmd) < MAX_STRING_LEN - 1 \<or> length ps = 0"
    "length cmd + 2 \<le> MAX_STRING_LEN - 1" "length cmd + length ps + 2 \<le> MAX_STRING_LEN - 1"
    using assms(2) by auto
  have "take (MAX_STRING_LEN - 1) (cmd @ CHR ''['' # ps @ '']'') = cmd @ CHR ''['' # ps @ '']''"
    using ml by simp
  then have a: "parse_command (cmd @ CHR ''['' # ps @ '']'') MAX_STRING_LEN MAX_STRING_LEN = (2, cmd, ps)"
    using key_brackets [OF nb(1), of "[]" ps] ml by (simp add: parse_command_def Let_def)
  have n1: "strchr cmd CHR ''['' = None" "strrchr cmd CHR '']'' = None"
    using nb by (simp_all add: strchr_None_iff strrchr_None_iff)
  have b: "parse_command cmd MAX_STRING_LEN MAX_STRING_LEN = (1, cmd, [])"
    using n1 ml by (simp add: parse_command_def Let_def)
  have n2: "strchr (cmd @ ''['') CHR ''['' = Some (length cmd)" "strrchr (cmd @ ''['') CHR '']'' = None"
    "strchr (cmd @ '']['') CHR ''['' = Some (length cmd + 1)" "strrchr (cmd @ '']['') CHR '']'' = Some (length cmd)"
    using nb strchr_append [of "CHR ''[''" cmd "[]"] strchr_append [of "CHR ''[''" "cmd @ '']''" "[]"]
      strrchr_append [of "CHR '']''" "''[''" cmd] by (simp_all add: strrchr_None_iff)
  have c: "fst (parse_command (cmd @ ''['') MAX_STRING_LEN MAX_STRING_LEN) = 0"
    "fst (parse_command (cmd @ '']['') MAX_STRING_LEN MAX_STRING_LEN) = 0"
    using n2 ml by (simp_all add: parse_command_def Let_def)
  show ?thesis using a b c by blast
qed

theorem parse_command_cases_witness:
  "parse_command (''vfs'' @ CHR ''['' # ''a'' @ '']'') MAX_STRING_LEN MAX_STRING_LEN = (2, ''vfs'', ''a'')"
  using parse_command_cases [of "''vfs''" "''a''"] by (simp add: no_bracket_def MAX_STRING_LEN_def)

text \<open>The parameters of a whole key, read one by one, are those it was built from.\<close>

lemma get_key_param_key:
  assumes "no_bracket cmd" "\<forall>p \<in> set ps. quotable p" "k < length ps" "length (ps ! k) < maxlen"
  shows "get_key_param (cmd @ CHR ''['' # render_params ps @ '']'') (int k + 1) maxlen = (0, Some (ps ! k))"
proof -
  have nb: "CHR ''['' \<notin> set cmd" using assms(1) by (simp add: no_bracket_def)
  show ?thesis
    using key_brackets [OF nb, of "[]" "render_params ps"] get_param_loop_rendered [OF assms(2-4), of 1 1]
    by (simp add: get_key_param_def get_param_def Let_def add.commute)
qed

subsection \<open>\<open>replace_param\<close>\<close>

text \<open>The conversion of the remaining length to the \<open>size_t\<close> of \<open>zbx_strlcat\<close>.\<close>

definition to_size :: "int \<Rightarrow> nat" where
  "to_size n = nat (n mod 2 ^ 64)"

definition sub_min :: "int \<Rightarrow> string \<Rightarrow> int" where
  "sub_min outlen s = outlen - min (int (length s)) outlen"

text \<open>\<open>rest\<close> is the part of \<open>command\<close> from \<open>pl\<close> on.\<close>

function replace_param_loop :: "string \<Rightarrow> string \<Rightarrow> string \<Rightarrow> string \<Rightarrow> int \<Rightarrow> string" where
  "replace_param_loop command param rest out outlen =
     (case strchr rest CHR ''$'' of
        None \<Rightarrow> fst (zbx_strlcat out rest (to_size outlen))
      | Some i \<Rightarrow>
        if \<not> 0 < outlen then fst (zbx_strlcat out rest (to_size outlen))
        else
          let seg = take i rest;
              out1 = fst (zbx_strlcat out seg (to_size outlen));
              outlen1 = sub_min outlen seg;
              after = drop (Suc i) rest
          in if after \<noteq> [] \<and> is_digit (hd after) then
               let buf = (if hd after = CHR ''0'' then take (MAX_STRING_LEN - 1) command
                          else snd (get_param param (int (digit_val (hd after))) MAX_STRING_LEN))
               in replace_param_loop command param (tl after)
                    (fst (zbx_strlcat out1 buf (to_size outlen1))) (sub_min outlen1 buf)
             else
               replace_param_loop command param
                 (if after \<noteq> [] \<and> hd after = CHR ''$'' then tl after else after)
                 (fst (zbx_strlcat out1 ''$'' (to_size outlen1))) (outlen1 - 1))"
  by pat_completeness auto
termination
proof (relation "measure (\<lambda>(c, p, rest, out, n). length rest)", goal_cases)
  case 1 then show ?case by simp
next
  case (2 command param rest out outlen i)
  then show ?case using strchr_SomeD [of rest "CHR ''$''" i] by auto
next
  case (3 command param rest out outlen i)
  then show ?case using strchr_SomeD [of rest "CHR ''$''" i] by auto
qed

declare replace_param_loop.simps [simp del]

text \<open>Both pointers NULL leave the output empty; \<open>cmd\<close> is otherwise not NULL.\<close>

definition replace_param :: "string option \<Rightarrow> string option \<Rightarrow> int \<Rightarrow> string" where
  "replace_param cmd param outlen =
     (case (cmd, param) of
        (Some c, p) \<Rightarrow>
          (let command = take (MAX_STRING_LEN - 1) c
           in replace_param_loop command (case p of None \<Rightarrow> [] | Some x \<Rightarrow> x) command [] outlen)
      | (None, p) \<Rightarrow> [])"

text \<open>What the substitution should produce: \<open>$0\<close> is the command, \<open>$1\<close> to
  \<open>$9\<close> its parameters, \<open>$$\<close> and a lone \<open>$\<close> a dollar sign.\<close>

function expand_params :: "string \<Rightarrow> string \<Rightarrow> string \<Rightarrow> string" where
  "expand_params command param rest =
     (case strchr rest CHR ''$'' of
        None \<Rightarrow> rest
      | Some i \<Rightarrow>
        let after = drop (Suc i) rest
        in if after \<noteq> [] \<and> is_digit (hd after) then
             take i rest
             @ (if hd after = CHR ''0'' then take (MAX_STRING_LEN - 1) command
                else snd (get_param param (int (digit_val (hd after))) MAX_STRING_LEN))
             @ expand_params command param (tl after)
           else
             take i rest @ ''$''
             @ expand_params command param (if after \<noteq> [] \<and> hd after = CHR ''$'' then tl after else after))"
  by pat_completeness auto
termination
proof (relation "measure (\<lambda>(c, p, rest). length rest)", goal_cases)
  case 1 then show ?case by simp
next
  case (2 command param rest i)
  then show ?case using strchr_SomeD [of rest "CHR ''$''" i] by auto
next
  case (3 command param rest i)
  then show ?case using strchr_SomeD [of rest "CHR ''$''" i] by auto
qed

declare expand_params.simps [simp del]

lemma to_size_pos: "0 \<le> n \<Longrightarrow> n < 2 ^ 64 \<Longrightarrow> int (to_size n) = n"
  by (simp add: to_size_def)

lemma strlcat_room:
  assumes "2 * int (length out) + int (length s) < cap" "cap < 2 ^ 64"
  shows "fst (zbx_strlcat out s (to_size (cap - int (length out)))) = out @ s"
proof -
  have "int (length out + length s) < int (to_size (cap - int (length out)))"
    using assms by (subst to_size_pos) auto
  then have "length out + length s < to_size (cap - int (length out))" by linarith
  then show ?thesis by (rule zbx_strlcat_fits)
qed

lemma replace_param_loop_expand:
  assumes "2 * int (length (out @ expand_params command param rest)) < cap" "cap < 2 ^ 64"
  shows "replace_param_loop command param rest out (cap - int (length out)) = out @ expand_params command param rest"
  using assms
proof (induction command param rest arbitrary: out rule: expand_params.induct)
  case (1 command param rest)
  note ex = expand_params.simps [of command param rest]
  note rp = replace_param_loop.simps [of command param rest out "cap - int (length out)"]
  show ?case
  proof (cases "strchr rest CHR ''$''")
    case None
    then show ?thesis using "1.prems" strlcat_room [of out rest cap] by (simp add: ex rp)
  next
    case (Some i)
    let ?seg = "take i rest" and ?after = "drop (Suc i) rest"
    let ?dig = "?after \<noteq> [] \<and> is_digit (hd ?after)"
    define sub where "sub = (if ?dig then (if hd ?after = CHR ''0'' then take (MAX_STRING_LEN - 1) command
        else snd (get_param param (int (digit_val (hd ?after))) MAX_STRING_LEN)) else ''$'')"
    define next_rest where "next_rest = (if ?dig then tl ?after
        else if ?after \<noteq> [] \<and> hd ?after = CHR ''$'' then tl ?after else ?after)"
    have ex': "expand_params command param rest = ?seg @ sub @ expand_params command param next_rest"
      using Some by (simp add: ex sub_def next_rest_def Let_def)
    have room: "2 * int (length out) + int (length ?seg) < cap"
      "2 * int (length (out @ ?seg)) + int (length sub) < cap"
      "2 * int (length ((out @ ?seg @ sub) @ expand_params command param next_rest)) < cap"
      using "1.prems"(1) by (simp_all add: ex')
    have m1: "sub_min (cap - int (length out)) ?seg = cap - int (length (out @ ?seg))"
      "sub_min (cap - int (length (out @ ?seg))) sub = cap - int (length (out @ ?seg @ sub))"
      using room(1,2) by (auto simp: sub_min_def)
    have m2: "?dig \<or> cap - int (length (out @ ?seg)) - 1 = cap - int (length (out @ ?seg @ sub))"
      by (auto simp: sub_def)
    have step: "replace_param_loop command param rest out (cap - int (length out))
        = replace_param_loop command param next_rest (out @ ?seg @ sub) (cap - int (length (out @ ?seg @ sub)))"
    proof (cases ?dig)
      case True
      then show ?thesis
        using Some room strlcat_room [OF room(1) assms(2)] strlcat_room [OF room(2) assms(2)] m1
        by (simp add: rp sub_def next_rest_def Let_def)
    next
      case False
      then have sub: "sub = ''$''"
        and nr: "next_rest = (if ?after \<noteq> [] \<and> hd ?after = CHR ''$'' then tl ?after else ?after)"
        unfolding sub_def next_rest_def by (simp_all only: if_False)
      have pos: "0 < cap - int (length out)" using room(1) by linarith
      have e: "cap - int (length (out @ ?seg)) - 1 = cap - int (length (out @ ?seg @ sub))" by (simp add: sub)
      show ?thesis
        unfolding rp Let_def nr e [symmetric]
        using strlcat_room [OF room(1) assms(2)] strlcat_room [OF room(2) assms(2)]
        by (simp only: Some option.case pos not_True_eq_False if_False False m1(1) sub append_assoc)
    qed
    have IH: "replace_param_loop command param next_rest (out @ ?seg @ sub) (cap - int (length (out @ ?seg @ sub)))
        = (out @ ?seg @ sub) @ expand_params command param next_rest"
    proof (cases ?dig)
      case True
      then have "next_rest = tl ?after" unfolding next_rest_def by (rule if_P)
      then show ?thesis
        using "1.IH"(1) [OF Some refl True, of "out @ ?seg @ sub"] room(3) assms(2) by (simp only:)
    next
      case False
      then have "next_rest = (if ?after \<noteq> [] \<and> hd ?after = CHR ''$'' then tl ?after else ?after)"
        unfolding next_rest_def by (rule if_not_P)
      then show ?thesis
        using "1.IH"(2) [OF Some refl False, of "out @ ?seg @ sub"] room(3) assms(2) by (simp only:)
    qed
    show ?thesis unfolding step ex' IH by (simp only: append_assoc)
  qed
qed

text \<open>C38: \<open>replace_param\<close> produces the full substitution whenever the result takes less
  than half of the output buffer.\<close>

theorem replace_param_correct:
  assumes "length cmd < MAX_STRING_LEN" and "2 * int (length (expand_params cmd param cmd)) < outlen"
    and "outlen < 2 ^ 31"
  shows "replace_param (Some cmd) (Some param) outlen = expand_params cmd param cmd"
  using assms replace_param_loop_expand [of "[]" cmd param cmd outlen] by (simp add: replace_param_def)

theorem replace_param_correct_witness:
  "replace_param (Some ''echo $2-$$'') (Some ''a,b'') 64 = ''echo b-$''"
proof -
  have e: "expand_params ''echo $2-$$'' ''a,b'' ''echo $2-$$'' = ''echo b-$''"
    by code_simp
  show ?thesis using replace_param_correct [of "''echo $2-$$''" "''a,b''" 64]
    by (simp add: e MAX_STRING_LEN_def)
qed

text \<open>
  The half is real.  \<open>zbx_strlcat\<close> takes the size of the whole buffer and is given what
  remains of it, so once half is used nothing more is appended.  And when a segment uses up the rest,
  the dollar sign after it takes the remaining length to -1, which \<open>size_t\<close> reads as
  unbounded: the tail is then written past the end of the buffer.
\<close>

lemma replace_param_loses_tail: "replace_param (Some ''$1$2'') (Some ''abc,d'') 6 = ''abc''"
  by code_simp

lemma replace_param_overruns: "replace_param (Some ''$1ab$$xyz'') (Some ''abc'') 4 = ''abcxyz''"
proof -
  let ?c = "''$1ab$$xyz''"
  have s3: "replace_param_loop ?c ''abc'' ''xyz'' ''abc'' (- 1) = ''abcxyz''"
    using zbx_strlcat_fits [of "''abc''" "''xyz''" "to_size (- 1)"]
    by (simp add: replace_param_loop.simps to_size_def)
  have f2: "strchr ''ab$$xyz'' CHR ''$'' = Some 2" "\<not> is_digit CHR ''$''" "sub_min 1 ''ab'' = 0"
    "fst (zbx_strlcat ''abc'' ''ab'' (to_size 1)) = ''abc''" "fst (zbx_strlcat ''abc'' ''$'' (to_size 0)) = ''abc''"
    by code_simp+
  have s2: "replace_param_loop ?c ''abc'' ''ab$$xyz'' ''abc'' 1 = ''abcxyz''"
    by (subst replace_param_loop.simps) (simp add: f2 s3)
  have f1: "strchr ?c CHR ''$'' = Some 0" "is_digit CHR ''1''" "digit_val CHR ''1'' = 1" "sub_min 4 [] = 4"
    "sub_min 4 ''abc'' = 1" "snd (get_param ''abc'' 1 MAX_STRING_LEN) = ''abc''"
    "fst (zbx_strlcat [] [] (to_size 4)) = []" "fst (zbx_strlcat [] ''abc'' (to_size 4)) = ''abc''"
    by code_simp+
  have "replace_param_loop ?c ''abc'' ?c [] 4 = ''abcxyz''"
    by (subst replace_param_loop.simps) (simp add: f1 s2)
  then show ?thesis by (simp add: replace_param_def MAX_STRING_LEN_def)
qed

subsection \<open>Descriptions with positional parameters\<close>

function item_description_loop :: "string \<Rightarrow> string \<Rightarrow> string" where
  "item_description_loop params p =
     (case strchr p CHR ''$'' of
        None \<Rightarrow> p
      | Some i \<Rightarrow>
        let m = drop (Suc i) p
        in if m \<noteq> [] \<and> CHR ''1'' \<le> hd m \<and> hd m \<le> CHR ''9'' then
             let (ret, param) = get_param params (int (digit_val (hd m))) MAX_STRING_LEN
             in take i p @ (if ret \<noteq> 0 then [] else param) @ item_description_loop params (tl m)
           else take i p @ ''$'' @ item_description_loop params m)"
  by pat_completeness auto
termination
proof (relation "measure (\<lambda>(ps, p). length p)", goal_cases)
  case 1 then show ?case by simp
next
  case (2 params p i)
  then show ?case using strchr_SomeD [of p "CHR ''$''" i] by auto
next
  case (3 params p i)
  then show ?case using strchr_SomeD [of p "CHR ''$''" i] by auto
qed

declare item_description_loop.simps [simp del]

definition item_description :: "string \<Rightarrow> string \<Rightarrow> string" where
  "item_description data key =
     (let (ret, cmd, params) = parse_command key 0 MAX_STRING_LEN
      in if ret \<noteq> 2 then data else item_description_loop params data)"

lemma item_description_no_params:
  "no_bracket key \<Longrightarrow> item_description data key = data"
proof -
  assume nb: "no_bracket key"
  have "set (take (MAX_STRING_LEN - 1) key) \<subseteq> set key" by (rule set_take_subset)
  then have "strchr (take (MAX_STRING_LEN - 1) key) CHR ''['' = None"
    "strrchr (take (MAX_STRING_LEN - 1) key) CHR '']'' = None"
    using nb by (auto simp: no_bracket_def strchr_None_iff strrchr_None_iff)
  then show ?thesis by (simp add: item_description_def parse_command_def Let_def)
qed

end
