(* ===== verification/Numbers.thy ===== *)
theory Numbers
  imports Prelude
begin

section \<open>Recognising numbers\<close>

text \<open>
  The recognisers of \<open>libs/zbxcommon/misc.c\<close> that decide how a collected value is stored:
  \<open>is_uint\<close>, \<open>is_uint64\<close> (which also converts), \<open>is_double\<close>,
  \<open>is_double_prefix\<close>, and the membership tests \<open>int_in_list\<close> and
  \<open>uint64_in_list\<close> on lists of numbers and ranges.
\<close>

subsection \<open>Unsigned integers\<close>

definition skip_blanks :: "string \<Rightarrow> string" where
  "skip_blanks s = dropWhile (\<lambda>c. c = CHR '' '') s"

fun is_uint_loop :: "nat \<Rightarrow> string \<Rightarrow> nat option" where
  "is_uint_loop len [] = Some len"
| "is_uint_loop len (c # cs) =
     (if is_digit c then is_uint_loop (Suc len) cs
      else if c = CHR '' '' \<and> skip_blanks (c # cs) = [] then Some len
      else None)"

definition is_uint :: "string \<Rightarrow> zret" where
  "is_uint c =
     (case is_uint_loop 0 (skip_blanks c) of
        None \<Rightarrow> FAIL
      | Some len \<Rightarrow> if len = 0 then FAIL else SUCCEED)"

fun is_uint64_loop :: "u64 \<Rightarrow> string \<Rightarrow> u64 option" where
  "is_uint64_loop value_uint64 [] = Some value_uint64"
| "is_uint64_loop value_uint64 (x # str) =
     (if is_digit x then
        let c = of_nat (digit_val x)
        in if value_uint64 \<le> (NOT 0 - c) div 10 then is_uint64_loop (value_uint64 * 10 + c) str
           else None
      else None)"

text \<open>FAIL is \<open>None\<close>; otherwise the value stored through the pointer.\<close>

definition is_uint64 :: "string \<Rightarrow> u64 option" where
  "is_uint64 str = is_uint64_loop 0 str"

abbreviation digits :: "string \<Rightarrow> bool" where
  "digits s \<equiv> \<forall>c \<in> set s. is_digit c"

definition blanks :: "string \<Rightarrow> bool" where
  "blanks s \<longleftrightarrow> list_all (\<lambda>c. c = CHR '' '') s"

lemma blanks_simps [simp]:
  "blanks []" "blanks (c # s) \<longleftrightarrow> c = CHR '' '' \<and> blanks s" "blanks (s @ t) \<longleftrightarrow> blanks s \<and> blanks t"
  by (auto simp: blanks_def)

lemma blanks_takeWhile: "blanks (takeWhile (\<lambda>c. c = CHR '' '') s)"
  by (induction s) auto

lemma not_digit_blank [simp]: "\<not> is_digit CHR '' ''"
  by code_simp

lemma skip_blanks_Nil_iff [simp]: "skip_blanks s = [] \<longleftrightarrow> blanks s"
  by (induction s) (auto simp: skip_blanks_def)

lemma skip_blanks_append: "blanks b \<Longrightarrow> skip_blanks (b @ s) = skip_blanks s"
  by (induction b) (auto simp: skip_blanks_def)

lemma skip_blanks_split: "\<exists>b. s = b @ skip_blanks s \<and> blanks b"
  by (rule exI [of _ "takeWhile (\<lambda>c. c = CHR '' '') s"]) (simp add: skip_blanks_def blanks_takeWhile)

lemma is_uint_loop_eval:
  "is_uint_loop n s =
     (if blanks (dropWhile is_digit s) then Some (n + length (takeWhile is_digit s)) else None)"
  by (induction s arbitrary: n) auto

lemma digits_then_blanks:
  assumes "digits d" "blanks b"
  shows "takeWhile is_digit (d @ b) = d \<and> dropWhile is_digit (d @ b) = b"
  using assms by (intro takeWhile_digits_append) (auto, cases b, auto)

lemma digits_split:
  "\<exists>d. s = d @ dropWhile is_digit s \<and> digits d \<and> d = takeWhile is_digit s"
  by (auto dest: set_takeWhileD)

text \<open>\<open>is_uint\<close> accepts exactly a non-empty digit string between blanks.\<close>

theorem is_uint_iff:
  "is_uint s = SUCCEED \<longleftrightarrow>
     (\<exists>b1 d b2. s = b1 @ d @ b2 \<and> blanks b1 \<and> digits d \<and> d \<noteq> [] \<and> blanks b2)"
proof
  let ?t = "skip_blanks s"
  assume "is_uint s = SUCCEED"
  then have b: "blanks (dropWhile is_digit ?t)" and ne: "takeWhile is_digit ?t \<noteq> []"
    by (auto simp: is_uint_def is_uint_loop_eval split: if_splits)
  obtain b1 where b1: "s = b1 @ ?t" "blanks b1" using skip_blanks_split [of s] by blast
  obtain d where d: "?t = d @ dropWhile is_digit ?t" "digits d" "d = takeWhile is_digit ?t"
    using digits_split [of ?t] by blast
  have "s = b1 @ d @ dropWhile is_digit ?t"
    by (subst d(1) [symmetric]) (rule b1(1))
  then show "\<exists>b1 d b2. s = b1 @ d @ b2 \<and> blanks b1 \<and> digits d \<and> d \<noteq> [] \<and> blanks b2"
    using b1(2) d(2,3) ne b by blast
next
  assume "\<exists>b1 d b2. s = b1 @ d @ b2 \<and> blanks b1 \<and> digits d \<and> d \<noteq> [] \<and> blanks b2"
  then obtain b1 d b2 where s: "s = b1 @ d @ b2" "blanks b1" "digits d" "d \<noteq> []" "blanks b2" by blast
  obtain c d' where c: "d = c # d'" "is_digit c" using s(3,4) by (cases d) auto
  have t: "skip_blanks s = d @ b2"
    using is_digit_neq(1) [OF c(2)] by (simp add: s(1) skip_blanks_append [OF s(2)] c(1)) (simp add: skip_blanks_def)
  show "is_uint s = SUCCEED"
    using s(4,5) digits_then_blanks [OF s(3,5)] by (simp add: is_uint_def is_uint_loop_eval t)
qed

lemma uint64_step:
  assumes "d < 10"
  shows "(v :: u64) \<le> (NOT 0 - of_nat d) div 10 \<longleftrightarrow> unat v * 10 + d < 2 ^ 64"
    and "unat v * 10 + d < 2 ^ 64 \<Longrightarrow> unat (v * 10 + of_nat d) = unat v * 10 + d"
proof -
  have d: "unat (of_nat d :: u64) = d"
    using assms by (simp add: unat_of_nat take_bit_nat_eq_self)
  have m: "unat (NOT 0 - of_nat d :: u64) = 2 ^ 64 - 1 - d"
    using assms d by (subst unat_sub) (simp_all add: word_le_nat_alt unsigned_minus_1_eq_mask mask_eq_exp_minus_1)
  have "v \<le> (NOT 0 - of_nat d) div 10 \<longleftrightarrow> unat v \<le> (2 ^ 64 - 1 - d) div 10"
    by (simp add: word_le_nat_alt unat_div m [simplified])
  also have "\<dots> \<longleftrightarrow> unat v * 10 + d < 2 ^ 64"
    using assms by (simp add: less_eq_div_iff_mult_less_eq) linarith
  finally show "(v :: u64) \<le> (NOT 0 - of_nat d) div 10 \<longleftrightarrow> unat v * 10 + d < 2 ^ 64" .
  show "unat v * 10 + d < 2 ^ 64 \<Longrightarrow> unat (v * 10 + of_nat d) = unat v * 10 + d"
    by (simp add: unat_word_ariths d)
qed

definition dec_from :: "nat \<Rightarrow> string \<Rightarrow> nat" where
  "dec_from n s = foldl (\<lambda>v c. v * 10 + digit_val c) n s"

lemma dec_from_simps [simp]: "dec_from n [] = n" "dec_from n (c # s) = dec_from (n * 10 + digit_val c) s"
  by (simp_all add: dec_from_def)

lemma dec_from_ge: "n \<le> dec_from n s"
proof (induction s arbitrary: n)
  case (Cons c s)
  have "n \<le> n * 10 + digit_val c" by simp
  also have "\<dots> \<le> dec_from (n * 10 + digit_val c) s" by (rule Cons)
  finally show ?case by simp
qed simp

lemma is_uint64_loop_eq:
  "is_uint64_loop v s =
     (if digits s \<and> dec_from (unat v) s < 2 ^ 64 then Some (of_nat (dec_from (unat v) s)) else None)"
proof (induction s arbitrary: v)
  case (Cons c s)
  show ?case
  proof (cases "is_digit c")
    case True
    let ?d = "digit_val c" and ?n = "unat v * 10 + digit_val c"
    note step = uint64_step [OF is_digit_range [OF True], of v]
    have "?n \<le> dec_from ?n s" by (rule dec_from_ge)
    then show ?thesis
      using True step Cons [of "v * 10 + of_nat ?d"]
      by (cases "?n < 2 ^ 64") (simp_all add: Let_def)
  qed simp
qed (simp add: u64_bound)

lemma is_uint64_value:
  "is_uint64 s = Some v \<longleftrightarrow> digits s \<and> dec_val s < 2 ^ 64 \<and> unat v = dec_val s"
proof -
  have "dec_from 0 s = dec_val s" by (simp add: dec_from_def dec_val_def)
  then have "is_uint64 s = (if digits s \<and> dec_val s < 2 ^ 64 then Some (of_nat (dec_val s)) else None)"
    using is_uint64_loop_eq [of 0 s] by (simp add: is_uint64_def)
  moreover have "of_nat (dec_val s) = v \<longleftrightarrow> dec_val s = unat v" if "dec_val s < 2 ^ 64"
    using that by (auto simp: unat_of_nat take_bit_nat_eq_self)
  ultimately show ?thesis by auto
qed

text \<open>C39: \<open>is_uint64\<close> accepts exactly the digit strings whose value fits 64 bits and
  stores that value: the test before each step stops every overflow and nothing else.\<close>

theorem is_uint64_iff:
  "is_uint64 s = Some v \<longleftrightarrow> digits s \<and> dec_val s < 2 ^ 64 \<and> unat v = dec_val s"
  by (rule is_uint64_value)

theorem is_uint64_iff_witness:
  "is_uint64 ''18446744073709551615'' = Some (- 1) \<and> is_uint64 ''18446744073709551616'' \<noteq> Some 0"
  using is_uint64_iff [of "''18446744073709551615''" "- 1"] is_uint64_iff [of "''18446744073709551616''" 0]
  by (simp add: dec_val_def is_digit_def digit_val_def unsigned_minus_1_eq_mask mask_eq_exp_minus_1)

lemma is_uint64_empty: "is_uint64 [] = Some 0"
  by (simp add: is_uint64_def)

lemma is_uint64_show [simp]: "is_uint64 (show_u64 w) = Some w"
  unfolding show_u64_def is_uint64_value using show_nat_digits u64_bound [of w] by simp

subsection \<open>Decimal fractions\<close>

text \<open>The loop of \<open>is_double\<close>: \<open>i\<close> counts from the start of the string, trimmed
  blanks included, \<open>len\<close> from the first character after them; \<open>dot\<close> tells
  whether a dot was seen.\<close>

fun is_double_loop :: "nat \<Rightarrow> nat \<Rightarrow> bool \<Rightarrow> string \<Rightarrow> (nat \<times> bool) option" where
  "is_double_loop i len dot [] = Some (len, dot)"
| "is_double_loop i len dot (c # cs) =
     (if c = CHR ''-'' \<and> i = 0 then is_double_loop (Suc i) (Suc len) dot cs
      else if is_digit c then is_double_loop (Suc i) (Suc len) dot cs
      else if c = CHR ''.'' \<and> \<not> dot then is_double_loop (Suc i) (Suc len) True cs
      else if c = CHR '' '' \<and> skip_blanks (c # cs) = [] then Some (len, dot)
      else None)"

definition is_double :: "string \<Rightarrow> zret" where
  "is_double c =
     (let rest = skip_blanks c
      in case is_double_loop (length c - length rest) 0 False rest of
           None \<Rightarrow> FAIL
         | Some (len, dot) \<Rightarrow>
             if len = 0 then FAIL else if len = 1 \<and> dot then FAIL else SUCCEED)"

fun is_double_prefix_loop :: "nat \<Rightarrow> bool \<Rightarrow> string \<Rightarrow> zret" where
  "is_double_prefix_loop i dot [] = SUCCEED"
| "is_double_prefix_loop i dot (c # cs) =
     (if c = CHR ''-'' \<and> i = 0 then is_double_prefix_loop (Suc i) dot cs
      else if is_digit c then is_double_prefix_loop (Suc i) dot cs
      else if c = CHR ''.'' \<and> \<not> dot then is_double_prefix_loop (Suc i) True cs
      else if c \<in> {CHR ''K'', CHR ''M'', CHR ''G''} \<and> cs = [] then is_double_prefix_loop (Suc i) dot cs
      else FAIL)"

definition is_double_prefix :: "string \<Rightarrow> zret" where
  "is_double_prefix c = is_double_prefix_loop 0 False c"

text \<open>The grammar behind both: digits with at most one dot among them, and none when the
  flag tells that one was seen.\<close>

fun one_dot :: "bool \<Rightarrow> string \<Rightarrow> bool" where
  "one_dot dot [] = True"
| "one_dot dot (c # s) = (if is_digit c then one_dot dot s else c = CHR ''.'' \<and> \<not> dot \<and> digits s)"

lemma dot_not_digit [simp]: "\<not> is_digit CHR ''.''" "\<not> is_digit CHR ''-''"
  by code_simp+

lemma one_dot_True [simp]: "one_dot True s \<longleftrightarrow> digits s"
  by (induction s) auto

lemma one_dot_digits [simp]: "digits d \<Longrightarrow> one_dot dot d"
  by (induction d) auto

lemma one_dot_fraction: "digits d \<Longrightarrow> digits e \<Longrightarrow> one_dot False (d @ CHR ''.'' # e)"
  by (induction d) auto

abbreviation num_char :: "char \<Rightarrow> bool" where
  "num_char c \<equiv> is_digit c \<or> c = CHR ''.''"

lemma is_double_loop_eval:
  "is_double_loop (Suc i) len dot s =
     (let t = takeWhile num_char s
      in if one_dot dot t \<and> blanks (dropWhile num_char s)
         then Some (len + length t, dot \<or> CHR ''.'' \<in> set t) else None)"
proof (induction s arbitrary: i len dot)
  case (Cons c s)
  consider (digit) "is_digit c" | (dot) "c = CHR ''.''" | (other) "\<not> num_char c" by blast
  then show ?case
  proof cases
    case digit
    then show ?thesis using is_digit_neq [OF digit] by (simp add: Cons Let_def)
  next
    case dot
    then show ?thesis by (simp add: Cons Let_def) 
  next
    case other
    then show ?thesis by simp
  qed
qed simp

lemma one_dot_num_chars: "one_dot dot t \<Longrightarrow> \<forall>c \<in> set t. num_char c"
  by (induction t) (auto split: if_splits)

lemma takeWhile_num_blanks:
  assumes "\<forall>c \<in> set t. num_char c" "blanks b"
  shows "takeWhile num_char (t @ b) = t" "dropWhile num_char (t @ b) = b"
  using assms by (cases b; auto)+

lemma is_double_loop_Some_iff:
  "is_double_loop (Suc i) len dot s = Some r \<longleftrightarrow>
     (\<exists>t b. s = t @ b \<and> one_dot dot t \<and> blanks b \<and> r = (len + length t, dot \<or> CHR ''.'' \<in> set t))"
  (is "?l \<longleftrightarrow> ?r")
proof
  assume ?l
  then have "s = takeWhile num_char s @ dropWhile num_char s \<and> one_dot dot (takeWhile num_char s)
      \<and> blanks (dropWhile num_char s)
      \<and> r = (len + length (takeWhile num_char s), dot \<or> CHR ''.'' \<in> set (takeWhile num_char s))"
    by (auto simp: is_double_loop_eval Let_def split: if_splits)
  then show ?r by blast
next
  assume ?r
  then obtain t b where tb: "s = t @ b" "one_dot dot t" "blanks b" "r = (len + length t, dot \<or> CHR ''.'' \<in> set t)"
    by blast
  then show ?l
    using takeWhile_num_blanks [OF one_dot_num_chars [OF tb(2)] tb(3)] by (simp add: is_double_loop_eval Let_def)
qed

lemma is_double_loop_index: "is_double_loop (Suc i) len dot s = is_double_loop (Suc 0) len dot s"
  by (simp only: is_double_loop_eval)

lemma is_double_loop_start:
  "is_double_loop 0 len dot s =
     (if s \<noteq> [] \<and> hd s = CHR ''-'' then is_double_loop (Suc 0) (Suc len) dot (tl s)
      else is_double_loop (Suc 0) len dot s)"
  using is_double_loop_index [of "Suc 0"] by (cases s) auto

lemma is_double_loop_plain:
  assumes "0 < i \<or> s = [] \<or> hd s \<noteq> CHR ''-''"
  shows "is_double_loop i len dot s = is_double_loop (Suc 0) len dot s"
proof (cases i)
  case 0
  then show ?thesis using assms by (auto simp: is_double_loop_start)
next
  case (Suc j)
  then show ?thesis by (simp only: is_double_loop_index [of j])
qed

definition proper_number :: "string \<Rightarrow> bool" where
  "proper_number s \<longleftrightarrow> s \<noteq> [] \<and> s \<noteq> ''.''"

text \<open>A sign is read only at the very start of the string.\<close>

definition double_result :: "(nat \<times> bool) option \<Rightarrow> zret" where
  "double_result r =
     (case r of None \<Rightarrow> FAIL
      | Some (len, dot) \<Rightarrow> if len = 0 then FAIL else if len = 1 \<and> dot then FAIL else SUCCEED)"

lemma double_result_iff:
  "double_result (is_double_loop (Suc 0) (length sg) False s) = SUCCEED \<longleftrightarrow>
     (\<exists>t b. s = t @ b \<and> one_dot False t \<and> blanks b \<and> proper_number (sg @ t))"
  if "sg = [] \<or> sg = ''-''"
proof -
  have len: "double_result (Some (length sg + length t, CHR ''.'' \<in> set t)) = SUCCEED \<longleftrightarrow> proper_number (sg @ t)" for t
    using that by (auto simp: double_result_def proper_number_def length_Suc_conv)
  have "double_result (is_double_loop (Suc 0) (length sg) False s) = SUCCEED \<longleftrightarrow>
      (\<exists>r. is_double_loop (Suc 0) (length sg) False s = Some r \<and> double_result (Some r) = SUCCEED)"
    by (cases "is_double_loop (Suc 0) (length sg) False s") (simp_all add: double_result_def)
  also have "\<dots> \<longleftrightarrow> (\<exists>t b. s = t @ b \<and> one_dot False t \<and> blanks b \<and> proper_number (sg @ t))"
    unfolding is_double_loop_Some_iff using len by auto
  finally show ?thesis .
qed

lemma is_double_unfold:
  "is_double s = double_result (is_double_loop (length s - length (skip_blanks s)) 0 False (skip_blanks s))"
  by (simp add: is_double_def double_result_def Let_def)

definition double_form :: "string \<Rightarrow> string \<Rightarrow> string \<Rightarrow> string \<Rightarrow> string \<Rightarrow> bool" where
  "double_form s b1 sg t b2 \<longleftrightarrow>
     s = b1 @ sg @ t @ b2 \<and> blanks b1 \<and> blanks b2 \<and> one_dot False t
     \<and> (sg = [] \<or> sg = ''-'' \<and> b1 = []) \<and> proper_number (sg @ t)"

text \<open>\<open>is_double\<close> accepts digits with at most one dot between blanks, except the lone
  dot; a minus sign is read only when no blank precedes it, and it needs no digits after it.\<close>

theorem is_double_iff:
  "is_double s = SUCCEED \<longleftrightarrow>
     (\<exists>b1 sg t b2. double_form s b1 sg t b2)"
proof
  let ?r = "skip_blanks s"
  assume suc: "is_double s = SUCCEED"
  obtain b1 where b1: "s = b1 @ ?r" "blanks b1" using skip_blanks_split [of s] by blast
  then have i: "length s - length ?r = length b1" by (metis length_append diff_add_inverse2)
  show "\<exists>b1 sg t b2. double_form s b1 sg t b2"
  proof (cases "b1 = [] \<and> ?r \<noteq> [] \<and> hd ?r = CHR ''-''")
    case True
    then have "double_result (is_double_loop (Suc 0) (length ''-'') False (tl ?r)) = SUCCEED"
      using suc by (simp add: is_double_unfold i is_double_loop_start)
    then obtain t b where "tl ?r = t @ b" "one_dot False t" "blanks b"
      using double_result_iff [of "''-''" "tl ?r"] by blast
    note tb = this
    have "s = ?r" using b1(1) True by simp
    also have "?r = ''-'' @ tl ?r" using True by (cases ?r) simp_all
    finally have "s = [] @ ''-'' @ t @ b" by (simp only: tb(1) append_Nil)
    then have "double_form s [] ''-'' t b" using tb(2,3) by (simp add: double_form_def proper_number_def)
    then show ?thesis by blast
  next
    case False
    then have "double_result (is_double_loop (Suc 0) (length []) False ?r) = SUCCEED"
      using suc is_double_loop_plain [of "length b1" ?r 0 False] by (auto simp: is_double_unfold i)
    then obtain t b where "?r = t @ b" "one_dot False t" "blanks b" "proper_number t"
      using double_result_iff [of "[]" ?r] unfolding append_Nil by blast
    note tb = this
    have "s = b1 @ [] @ t @ b" unfolding append_Nil tb(1) [symmetric] by (rule b1(1))
    then have "double_form s b1 [] t b" using b1(2) tb(2,3,4) by (simp add: double_form_def)
    then show ?thesis by blast
  qed
next
  assume "\<exists>b1 sg t b2. double_form s b1 sg t b2"
  then obtain b1 sg t b2 where s: "s = b1 @ sg @ t @ b2" "blanks b1" "blanks b2" "one_dot False t"
    "sg = [] \<or> sg = ''-'' \<and> b1 = []" "proper_number (sg @ t)" unfolding double_form_def by blast
  then have sg: "sg = [] \<or> sg = ''-''" by blast
  obtain c u where c: "sg @ t = c # u" using s(6) by (cases "sg @ t") (auto simp: proper_number_def)
  then have nb: "c \<noteq> CHR '' ''" using s(4) sg is_digit_neq(1) by (cases t) (auto split: if_splits)
  have cu: "sg @ t @ b2 = c # u @ b2" using c by (metis append_assoc append_Cons)
  have r: "skip_blanks s = sg @ t @ b2"
    unfolding s(1) skip_blanks_append [OF s(2)] cu using nb by (simp add: skip_blanks_def)
  have ok: "double_result (is_double_loop (Suc 0) (length sg) False (t @ b2)) = SUCCEED"
    unfolding double_result_iff [OF sg] using s(3,4,6) by blast
  have i: "length s - length (skip_blanks s) = length b1" unfolding r by (simp add: s(1))
  show "is_double s = SUCCEED"
  proof (cases "sg = ''-''")
    case True
    then show ?thesis using ok s(5) unfolding is_double_unfold unfolding i unfolding r by (simp add: is_double_loop_start)
  next
    case False
    then have e: "sg = []" using sg by blast
    then have "hd (t @ b2) = c" "is_digit c \<or> c = CHR ''.''" using c s(4) by (simp_all split: if_splits)
    then have "hd (t @ b2) \<noteq> CHR ''-''" using is_digit_neq(2) [of c] by auto
    then show ?thesis
      using ok e is_double_loop_plain [of "length b1" "t @ b2" 0 False]
      unfolding is_double_unfold unfolding i unfolding r by simp
  qed
qed

lemma is_double_lone_minus: "is_double ''-'' = SUCCEED" "is_double '' -5'' = FAIL"
  by code_simp+

definition unit_suffix :: "string \<Rightarrow> bool" where
  "unit_suffix s \<longleftrightarrow> s \<in> {[], ''K'', ''M'', ''G''}"

lemma is_double_prefix_loop_eval:
  "is_double_prefix_loop (Suc i) dot s =
     (if one_dot dot (takeWhile num_char s) \<and> unit_suffix (dropWhile num_char s) then SUCCEED else FAIL)"
proof (induction s arbitrary: i dot)
  case (Cons c s)
  consider (digit) "is_digit c" | (dot) "c = CHR ''.''" | (other) "\<not> num_char c" by blast
  then show ?case
  proof cases
    case digit
    then show ?thesis using is_digit_neq [OF digit] by (simp add: Cons)
  next
    case dot
    then show ?thesis by (simp add: Cons unit_suffix_def)
  next
    case other
    then show ?thesis by (auto simp: unit_suffix_def)
  qed
qed (simp add: unit_suffix_def)

text \<open>\<open>is_double_prefix\<close> accepts an optional minus sign, digits with at most one dot
  and an optional final K, M or G; it does not ask for any digit.\<close>

theorem is_double_prefix_eval:
  "is_double_prefix s =
     (let r = (if s \<noteq> [] \<and> hd s = CHR ''-'' then tl s else s)
      in if one_dot False (takeWhile num_char r) \<and> unit_suffix (dropWhile num_char r) then SUCCEED else FAIL)"
proof (cases "s \<noteq> [] \<and> hd s = CHR ''-''")
  case True
  then show ?thesis by (cases s) (simp_all add: is_double_prefix_def is_double_prefix_loop_eval Let_def)
next
  case False
  then have "is_double_prefix_loop 0 False s = is_double_prefix_loop (Suc 0) False s"
    by (cases s) (auto simp: is_double_prefix_loop_eval)
  then show ?thesis using False by (auto simp: is_double_prefix_def is_double_prefix_loop_eval Let_def)
qed

subsection \<open>Lists of numbers and ranges\<close>

definition int_piece_matches :: "int \<Rightarrow> string \<Rightarrow> bool" where
  "int_piece_matches value piece =
     (case sscanf [ScanInt, ScanLit CHR ''-'', ScanInt] piece of
        [IntV i1, IntV i2] \<Rightarrow> i1 \<le> value \<and> value \<le> i2
      | _ \<Rightarrow> atoi piece = value)"

function int_in_list :: "string \<Rightarrow> int \<Rightarrow> zret" where
  "int_in_list start value =
     (if start = [] then FAIL
      else
        let piece = (case strchr start CHR '','' of None \<Rightarrow> start | Some e \<Rightarrow> take e start);
            hit = int_piece_matches value piece
        in if hit then SUCCEED
           else case strchr start CHR '','' of
                  None \<Rightarrow> FAIL
                | Some e \<Rightarrow> int_in_list (drop (Suc e) start) value)"
  by pat_completeness auto
termination
  by (relation "measure (\<lambda>(s, v). length s)") (auto dest: strchr_SomeD)

declare int_in_list.simps [simp del]

text \<open>\<open>ZBX_STR2UINT64\<close> leaves the temporary as it was when the piece holds no number; on
  the first piece that is an uninitialised value, here \<open>tmp_uint64\<close>.\<close>

function uint64_in_list :: "u64 \<Rightarrow> string \<Rightarrow> u64 \<Rightarrow> zret" where
  "uint64_in_list tmp_uint64 start value =
     (if start = [] then FAIL
      else
        let piece = (case strchr start CHR '','' of None \<Rightarrow> start | Some e \<Rightarrow> take e start);
            (hit, tmp) = (case sscanf [ScanInt, ScanLit CHR ''-'', ScanInt] piece of
                            [IntV i1, IntV i2] \<Rightarrow> (word_of_int i1 \<le> value \<and> value \<le> word_of_int i2, tmp_uint64)
                          | _ \<Rightarrow>
                            let t = (case sscanf [ScanInt] piece of [IntV v] \<Rightarrow> word_of_int v | _ \<Rightarrow> tmp_uint64)
                            in (t = value, t))
        in if hit then SUCCEED
           else case strchr start CHR '','' of
                  None \<Rightarrow> FAIL
                | Some e \<Rightarrow> uint64_in_list tmp (drop (Suc e) start) value)"
  by pat_completeness auto
termination
  by (relation "measure (\<lambda>(t, s, v). length s)") (auto dest: strchr_SomeD)

declare uint64_in_list.simps [simp del]

text \<open>The loop of \<open>int_in_list\<close> keeps the contract of the list searches.\<close>

lemma int_in_list_unfold:
  "int_in_list s v = SUCCEED \<longleftrightarrow> s \<noteq> [] \<and>
     (case strchr s CHR '','' of None \<Rightarrow> int_piece_matches v s
      | Some e \<Rightarrow> int_piece_matches v (take e s) \<or> int_in_list (drop (Suc e) s) v = SUCCEED)"
  by (subst int_in_list.simps)
     (simp add: Let_def split: option.split)

interpretation int_list: piece_search "CHR '',''" "int_piece_matches v" "\<lambda>s. int_in_list s v = SUCCEED" for v
  by unfold_locales (auto simp: int_in_list_unfold [of "_ :: string"])

text \<open>A list as it is written: numbers and ranges.\<close>

datatype num_range = One nat | Range nat nat

fun render_range :: "num_range \<Rightarrow> string" where
  "render_range (One n) = show_nat n"
| "render_range (Range a b) = show_nat a @ CHR ''-'' # show_nat b"

fun in_range :: "int \<Rightarrow> num_range \<Rightarrow> bool" where
  "in_range v (One n) \<longleftrightarrow> v = int n"
| "in_range v (Range a b) \<longleftrightarrow> int a \<le> v \<and> v \<le> int b"

lemma render_range_plain: "CHR '','' \<notin> set (render_range r) \<and> render_range r \<noteq> []"
  using show_nat_digits is_digit_neq by (cases r) fastforce+

lemma int_piece_range [simp]: "int_piece_matches v (render_range r) = in_range v r"
  by (cases r) (auto simp: int_piece_matches_def scan_simps)

text \<open>On a list of numbers and ranges \<open>int_in_list\<close> succeeds exactly for the members.\<close>

theorem int_in_list_ranges:
  "int_in_list (join_fields CHR '','' (map render_range rs)) v = SUCCEED \<longleftrightarrow> (\<exists>r \<in> set rs. in_range v r)"
  using int_list.search_join [of "map render_range rs" v] render_range_plain by simp

end
