(* ===== verification/SortedArrays.thy ===== *)
theory SortedArrays
  imports Prelude
begin

section \<open>Arrays kept sorted by a 64-bit key\<close>

text \<open>
  Three components keep an array sorted by an identifier and find a position in it by the
  same binary search: the id lists of \<open>libs/zbxcommon/misc.c\<close>
  (\<open>get_nearestindex\<close>, \<open>uint64_array_add\<close>, \<open>uint64_array_exists\<close>,
  \<open>uint64_array_rm\<close>), the pending next checks of \<open>libs/zbxdbcache/nextchecks.c\<close>
  and the trends of \<open>libs/zbxdbcache/dbcache.c\<close>.  The search loop is written here
  once over the key function of the element type.  The contract the clients rely on is the locale
  \<open>keyed_array\<close>: the position returned splits the array into smaller keys and the
  rest.  Each of the three copies interprets it, and the clients' facts (membership test,
  insertion at the position, removal at the position) are proved once inside it.
\<close>

subsection \<open>The search\<close>

text \<open>
  The body of \<open>while (1)\<close>.  The code tests \<open>last_index == first_index\<close>; every
  call reached from the entry points has \<open>first_i \<le> last_i\<close> (the recursive calls keep it,
  see \<open>nearest_loop_split\<close>), where that test and the one below agree.
\<close>

function nearest_loop :: "('e \<Rightarrow> u64) \<Rightarrow> 'e list \<Rightarrow> u64 \<Rightarrow> nat \<Rightarrow> nat \<Rightarrow> nat" where
  "nearest_loop key xs v first_i last_i =
     (let index = first_i + (last_i - first_i) div 2
      in if key (xs ! index) = v then index
         else if last_i \<le> first_i then (if key (xs ! index) < v then Suc index else index)
         else if key (xs ! index) < v then nearest_loop key xs v (Suc index) last_i
         else nearest_loop key xs v first_i index)"
  by pat_completeness auto
termination
  by (relation "measure (\<lambda>(key, xs, v, first_i, last_i). last_i - first_i)") auto

declare nearest_loop.simps [simp del]

abbreviation key_sorted :: "('e \<Rightarrow> u64) \<Rightarrow> 'e list \<Rightarrow> bool" where
  "key_sorted key xs \<equiv> sorted_wrt (<) (map key xs)"

lemma key_sorted_nth:
  "key_sorted key xs \<Longrightarrow> i < j \<Longrightarrow> j < length xs \<Longrightarrow> key (xs ! i) < key (xs ! j)"
  using sorted_wrt_nth_less [of "(<)" "map key xs" i j] by simp

lemma key_sorted_nth_le:
  assumes "key_sorted key xs" "i \<le> j" "j < length xs"
  shows "key (xs ! i) \<le> key (xs ! j)"
  using assms by (cases "i = j") (auto dest: key_sorted_nth [of key xs i j])

lemma nearest_loop_split:
  assumes "key_sorted key xs" "first_i \<le> last_i" "last_i < length xs"
    and "\<forall>i < first_i. key (xs ! i) < v"
    and "\<forall>i. last_i < i \<longrightarrow> i < length xs \<longrightarrow> v \<le> key (xs ! i)"
  shows "nearest_loop key xs v first_i last_i \<le> length xs \<and>
         (\<forall>i < nearest_loop key xs v first_i last_i. key (xs ! i) < v) \<and>
         (\<forall>i. nearest_loop key xs v first_i last_i \<le> i \<longrightarrow> i < length xs \<longrightarrow> v \<le> key (xs ! i))"
  using assms
proof (induction key xs v first_i last_i rule: nearest_loop.induct)
  case (1 key xs v first_i last_i)
  define m where "m = first_i + (last_i - first_i) div 2"
  have m: "first_i \<le> m" "m \<le> last_i" "m < length xs" and lt: "first_i < last_i \<Longrightarrow> m < last_i"
    using "1.prems"(2,3) unfolding m_def by auto
  have below: "\<forall>i < m. key (xs ! i) < key (xs ! m)"
    using "1.prems"(1) m(3) by (auto intro: key_sorted_nth)
  have above: "\<forall>i. m \<le> i \<longrightarrow> i < length xs \<longrightarrow> key (xs ! m) \<le> key (xs ! i)"
    using "1.prems"(1) by (auto intro: key_sorted_nth_le)
  note unf = nearest_loop.simps [of key xs v first_i last_i, folded m_def, unfolded Let_def]
  consider (hit) "key (xs ! m) = v" | (stop) "key (xs ! m) \<noteq> v" "last_i \<le> first_i"
    | (right) "key (xs ! m) < v" "first_i < last_i" | (left) "v < key (xs ! m)" "first_i < last_i"
    by force
  then show ?case
  proof cases
    case hit
    then show ?thesis using m below above by (auto simp: unf)
  next
    case stop
    then have "m = first_i" "m = last_i" using "1.prems"(2) m by auto
    moreover have "nearest_loop key xs v first_i last_i = (if key (xs ! m) < v then Suc m else m)"
      using stop by (simp add: unf)
    ultimately show ?thesis using stop m(3) "1.prems"(4,5) below above
      by (auto simp: less_Suc_eq Suc_le_eq not_less dest: less_imp_le order.trans)
  next
    case right
    then have ne: "key (xs ! m) \<noteq> v" and go: "\<not> last_i \<le> first_i" and sm: "Suc m \<le> last_i"
      using lt by auto
    have lo: "\<forall>i < Suc m. key (xs ! i) < v"
      using below right(1) by (auto simp: less_Suc_eq intro: less_trans)
    have eq: "nearest_loop key xs v first_i last_i = nearest_loop key xs v (Suc m) last_i"
      using ne go right(1) by (simp add: unf)
    show ?thesis
      unfolding eq
      by (rule "1.IH"(1) [OF m_def ne go right(1) "1.prems"(1) sm "1.prems"(3) lo "1.prems"(5)])
  next
    case left
    then have ne: "key (xs ! m) \<noteq> v" and go: "\<not> last_i \<le> first_i" and nl: "\<not> key (xs ! m) < v"
      by auto
    have hi: "\<forall>i. m < i \<longrightarrow> i < length xs \<longrightarrow> v \<le> key (xs ! i)"
      using above left(1) by (auto intro: order.trans [of v "key (xs ! m)"] less_imp_le)
    have eq: "nearest_loop key xs v first_i last_i = nearest_loop key xs v first_i m"
      using ne go nl by (simp add: unf)
    show ?thesis
      unfolding eq
      by (rule "1.IH"(2) [OF m_def ne go nl "1.prems"(1) m(1) m(3) "1.prems"(4) hi])
  qed
qed

subsection \<open>The contract and what follows from it\<close>

definition tab :: "('e \<Rightarrow> u64) \<Rightarrow> 'e list \<Rightarrow> u64 \<Rightarrow> 'e option" where
  "tab key xs = map_of (map (\<lambda>e. (key e, e)) xs)"

lemma dom_tab [simp]: "dom (tab key xs) = key ` set xs"
  by (force simp: tab_def dom_map_of_conv_image_fst)

lemma tab_SomeD: "tab key xs k = Some e \<Longrightarrow> e \<in> set xs \<and> key e = k"
  by (auto simp: tab_def dest!: map_of_SomeD)

lemma tab_append: "tab key (xs @ ys) = tab key xs ++ tab key ys" if "key ` set xs \<inter> key ` set ys = {}"
proof -
  have "tab key (xs @ ys) = tab key ys ++ tab key xs" by (simp add: tab_def)
  also have "\<dots> = tab key xs ++ tab key ys"
    by (rule map_add_comm) (use that in auto)
  finally show ?thesis .
qed

lemma tab_insert_mid:
  assumes "key e \<notin> key ` set xs"
  shows "tab key (xs @ e # ys) = (tab key (xs @ ys))(key e \<mapsto> e)"
proof -
  have "map_of (map (\<lambda>e. (key e, e)) xs) (key e) = None"
    using assms by (metis dom_tab tab_def domIff)
  then show ?thesis by (auto simp: tab_def map_add_def fun_eq_iff split: option.splits)
qed

lemma key_sorted_distinct: "key_sorted key xs \<Longrightarrow> distinct (map key xs)"
  by (simp add: strict_sorted_iff)

locale keyed_array =
  fixes key :: "'e \<Rightarrow> u64" and nearest :: "'e list \<Rightarrow> u64 \<Rightarrow> nat"
  assumes nearest_le: "key_sorted key xs \<Longrightarrow> nearest xs k \<le> length xs"
    and nearest_below: "key_sorted key xs \<Longrightarrow> i < nearest xs k \<Longrightarrow> key (xs ! i) < k"
    and nearest_above: "key_sorted key xs \<Longrightarrow> nearest xs k \<le> i \<Longrightarrow> i < length xs \<Longrightarrow> k \<le> key (xs ! i)"
begin

definition found :: "'e list \<Rightarrow> u64 \<Rightarrow> bool" where
  "found xs k \<longleftrightarrow> nearest xs k < length xs \<and> key (xs ! nearest xs k) = k"

lemma found_iff:
  assumes s: "key_sorted key xs"
  shows "found xs k \<longleftrightarrow> k \<in> key ` set xs"
proof
  assume "k \<in> key ` set xs"
  then obtain i where i: "i < length xs" "key (xs ! i) = k" by (auto simp: in_set_conv_nth)
  then have ge: "nearest xs k \<le> i" using nearest_below [OF s, of i k] by force
  with i have lt: "nearest xs k < length xs" by simp
  have "key (xs ! nearest xs k) = k"
    using nearest_above [OF s, of k "nearest xs k"] lt i ge key_sorted_nth_le [OF s ge] by force
  with lt show "found xs k" by (simp add: found_def)
qed (metis found_def imageI nth_mem)

lemma take_below: "key_sorted key xs \<Longrightarrow> e \<in> set (take (nearest xs k) xs) \<Longrightarrow> key e < k"
  using nearest_le [of xs k] by (auto simp: in_set_conv_nth nearest_below)

lemma drop_above: "key_sorted key xs \<Longrightarrow> e \<in> set (drop (nearest xs k) xs) \<Longrightarrow> k \<le> key e"
  by (auto simp: in_set_conv_nth nearest_above)

lemma insert_sorted:
  assumes s: "key_sorted key xs" and nf: "\<not> found xs (key e)"
  shows "key_sorted key (take (nearest xs (key e)) xs @ e # drop (nearest xs (key e)) xs)"
proof -
  let ?n = "nearest xs (key e)"
  have parts: "sorted_wrt (<) (map key (take ?n xs))" "sorted_wrt (<) (map key (drop ?n xs))"
    using s by (metis sorted_wrt_append append_take_drop_id map_append)+
  have "\<forall>d \<in> set (drop ?n xs). key e < key d"
    using drop_above [OF s] found_iff [OF s] nf by (force dest: in_set_dropD simp: le_less)
  moreover have "\<forall>d \<in> set (take ?n xs). key d < key e" using take_below [OF s] by blast
  ultimately show ?thesis
    using parts by (force simp: sorted_wrt_append intro: less_trans)
qed

lemma insert_tab:
  assumes s: "key_sorted key xs" and nf: "\<not> found xs (key e)"
  shows "tab key (take (nearest xs (key e)) xs @ e # drop (nearest xs (key e)) xs)
         = (tab key xs)(key e \<mapsto> e)"
proof -
  let ?n = "nearest xs (key e)"
  have "key e \<notin> key ` set (take ?n xs)" using take_below [OF s, of _ "key e"] by force
  then show ?thesis using tab_insert_mid [of key e "take ?n xs" "drop ?n xs"] by simp
qed

lemma remove_sorted: "key_sorted key xs \<Longrightarrow> key_sorted key (take i xs @ drop (Suc i) xs)"
proof -
  assume "key_sorted key xs"
  then have "sorted_wrt (<) (take i (map key xs) @ drop i (map key xs))" by simp
  moreover have "set (drop (Suc i) (map key xs)) \<subseteq> set (drop i (map key xs))"
    by (simp add: set_drop_subset_set_drop)
  moreover have "sorted_wrt (<) (drop (Suc i) (map key xs))"
    using \<open>key_sorted key xs\<close> by (rule sorted_wrt_drop)
  ultimately show ?thesis
    by (auto simp: sorted_wrt_append take_map drop_map simp del: append_take_drop_id)
qed

lemma remove_tab:
  assumes s: "key_sorted key xs" and f: "found xs k"
  shows "tab key (take (nearest xs k) xs @ drop (Suc (nearest xs k)) xs) = (tab key xs)(k := None)"
proof -
  let ?n = "nearest xs k"
  from f have n: "?n < length xs" "key (xs ! ?n) = k" by (auto simp: found_def)
  have split: "xs = take ?n xs @ xs ! ?n # drop (Suc ?n) xs" using n(1) by (rule id_take_nth_drop)
  have d: "distinct (map key (take ?n xs @ xs ! ?n # drop (Suc ?n) xs))"
    using key_sorted_distinct [OF s] split by simp
  then have "k \<notin> key ` set (take ?n xs)" "k \<notin> key ` set (drop (Suc ?n) xs)" using n(2) by auto
  then have no: "tab key (take ?n xs) k = None" "tab key (drop (Suc ?n) xs) k = None"
    by (metis dom_tab domIff)+
  have "tab key xs = tab key (take ?n xs @ xs ! ?n # drop (Suc ?n) xs)" using split by simp
  then show ?thesis
    using no n(2) by (auto simp: tab_def map_add_def fun_eq_iff split: option.splits)
qed

lemma nearest_insert:
  assumes s: "key_sorted key xs" and nf: "\<not> found xs k"
  shows "k \<notin> key ` set xs" using assms found_iff by blast

lemma found_tab: "key_sorted key xs \<Longrightarrow> found xs k \<Longrightarrow> tab key xs k = Some (xs ! nearest xs k)"
  unfolding tab_def found_def
  by (rule map_of_is_SomeI) (auto simp: comp_def key_sorted_distinct image_iff intro: bexI [of _ "xs ! nearest xs k"])

lemma not_found_tab: "key_sorted key xs \<Longrightarrow> \<not> found xs k \<Longrightarrow> tab key xs k = None"
  by (metis dom_tab domIff found_iff)

lemma update_sorted: "key_sorted key xs \<Longrightarrow> key e = key (xs ! i) \<Longrightarrow> key_sorted key (xs[i := e])"
  by (metis list_update_id map_update)

lemma update_tab:
  assumes s: "key_sorted key xs" and f: "found xs k" and e: "key e = k"
  shows "tab key (xs[nearest xs k := e]) = (tab key xs)(k \<mapsto> e)"
proof -
  let ?n = "nearest xs k"
  from f have n: "?n < length xs" "key (xs ! ?n) = k" by (auto simp: found_def)
  have s': "key_sorted key (xs[?n := e])" using update_sorted [OF s] e n by simp
  have "tab key (take ?n xs @ drop (Suc ?n) xs) = (tab key xs)(k := None)" by (rule remove_tab [OF s f])
  moreover have "xs[?n := e] = take ?n xs @ e # drop (Suc ?n) xs" using n by (simp add: upd_conv_take_nth_drop)
  moreover have "key e \<notin> key ` set (take ?n xs)" using take_below [OF s, of _ k] e by force
  ultimately show ?thesis using e by (simp add: tab_insert_mid)
qed

lemmas keyed_facts = found_iff insert_sorted insert_tab remove_sorted remove_tab found_tab not_found_tab
  update_sorted update_tab

end

text \<open>Any entry point of the shape the three copies have satisfies the contract.\<close>

lemma nearest_entry_contract:
  assumes "\<And>xs k. near xs k = (if xs = [] then 0 else nearest_loop key xs k 0 (length xs - 1))"
  shows "keyed_array key near"
proof
  fix xs k i
  assume s: "key_sorted key xs"
  have split: "near xs k \<le> length xs \<and> (\<forall>i < near xs k. key (xs ! i) < k) \<and>
      (\<forall>i. near xs k \<le> i \<longrightarrow> i < length xs \<longrightarrow> k \<le> key (xs ! i))"
    using nearest_loop_split [OF s, of 0 "length xs - 1" k] by (auto simp: assms)
  show "near xs k \<le> length xs" using split by blast
  show "key (xs ! i) < k" if "i < near xs k" using split that by blast
  show "k \<le> key (xs ! i)" if "near xs k \<le> i" "i < length xs" using split that by blast
qed

subsection \<open>Dynamic arrays of 64-bit ids\<close>

text \<open>The pair of \<open>values\<close> (its first_i \<open>num\<close> cells) and the allocated capacity.\<close>

record uint64_array =
  vals :: "u64 list"
  alloc :: nat

definition get_nearestindex :: "u64 list \<Rightarrow> u64 \<Rightarrow> nat" where
  "get_nearestindex xs v = (if xs = [] then 0 else nearest_loop id xs v 0 (length xs - 1))"

interpretation ids: keyed_array "id :: u64 \<Rightarrow> u64" get_nearestindex
  by (rule nearest_entry_contract) (simp add: get_nearestindex_def)

definition uint64_array_add :: "uint64_array \<Rightarrow> u64 \<Rightarrow> nat \<times> uint64_array" where
  "uint64_array_add a v =
     (let index = get_nearestindex (vals a) v; num = length (vals a)
      in if index < num \<and> vals a ! index = v then (index, a)
         else (index, \<lparr>vals = take index (vals a) @ v # drop index (vals a),
                       alloc = (if alloc a = num then alloc a + 100 else alloc a)\<rparr>))"

definition uint64_array_exists :: "u64 list \<Rightarrow> u64 \<Rightarrow> zret" where
  "uint64_array_exists xs v =
     (let index = get_nearestindex xs v
      in if index < length xs \<and> xs ! index = v then SUCCEED else FAIL)"

definition uint64_array_rm1 :: "u64 list \<Rightarrow> u64 \<Rightarrow> u64 list" where
  "uint64_array_rm1 xs v =
     (let index = get_nearestindex xs v
      in if index = length xs \<or> xs ! index \<noteq> v then xs
         else take index xs @ drop (Suc index) xs)"

definition uint64_array_rm :: "u64 list \<Rightarrow> u64 list \<Rightarrow> u64 list" where
  "uint64_array_rm xs rms = fold (\<lambda>v xs. uint64_array_rm1 xs v) rms xs"

definition array_wf :: "uint64_array \<Rightarrow> bool" where
  "array_wf a \<longleftrightarrow> sorted_wrt (<) (vals a) \<and> length (vals a) \<le> alloc a"

lemma uint64_array_rm1_set:
  assumes s: "sorted_wrt (<) xs"
  shows "sorted_wrt (<) (uint64_array_rm1 xs v) \<and> set (uint64_array_rm1 xs v) = set xs - {v}"
proof (cases "ids.found xs v")
  case True
  have s': "key_sorted id xs" using s by simp
  have eq: "uint64_array_rm1 xs v
      = take (get_nearestindex xs v) xs @ drop (Suc (get_nearestindex xs v)) xs"
    using True by (auto simp: uint64_array_rm1_def ids.found_def Let_def)
  have "dom (tab id (uint64_array_rm1 xs v)) = dom (tab id xs) - {v}"
    unfolding eq ids.remove_tab [OF s' True] by auto
  then show ?thesis using ids.remove_sorted [OF s'] unfolding eq by simp
next
  case False
  have "v \<notin> set xs" using ids.found_iff [of xs v] False s by simp
  moreover have "uint64_array_rm1 xs v = xs"
    using False ids.nearest_le [of xs v] s by (auto simp: uint64_array_rm1_def ids.found_def Let_def)
  ultimately show ?thesis using s by simp
qed

lemma uint64_array_add_spec:
  assumes "array_wf a"
  shows "array_wf (snd (uint64_array_add a v)) \<and>
         set (vals (snd (uint64_array_add a v))) = insert v (set (vals a)) \<and>
         vals (snd (uint64_array_add a v)) ! fst (uint64_array_add a v) = v"
proof (cases "ids.found (vals a) v")
  case True
  have s: "key_sorted id (vals a)" using assms by (simp add: array_wf_def)
  have "uint64_array_add a v = (get_nearestindex (vals a) v, a)"
    using True by (simp add: uint64_array_add_def ids.found_def Let_def)
  then show ?thesis using True assms ids.found_iff [OF s, of v] by (auto simp: ids.found_def)
next
  case False
  have s: "key_sorted id (vals a)" using assms by (simp add: array_wf_def)
  let ?n = "get_nearestindex (vals a) v"
  have eq: "uint64_array_add a v = (?n, \<lparr>vals = take ?n (vals a) @ v # drop ?n (vals a),
      alloc = (if alloc a = length (vals a) then alloc a + 100 else alloc a)\<rparr>)"
    using False by (auto simp: uint64_array_add_def ids.found_def Let_def)
  have le: "?n \<le> length (vals a)" using ids.nearest_le [OF s] .
  have "set (take ?n (vals a)) \<union> set (drop ?n (vals a)) = set (vals a)"
    by (metis append_take_drop_id set_append)
  then show ?thesis
    using ids.insert_sorted [OF s, of v] False assms le
    by (auto simp: eq array_wf_def nth_append)
qed

text \<open>Adding an id to a dynamic id array keeps the array strictly sorted (so without
  duplicates) and within its allocation, makes exactly that id a member, and returns the position
  where the id now stands.\<close>

theorem uint64_array_add_correct:
  assumes "array_wf a"
  shows "array_wf (snd (uint64_array_add a v)) \<and>
         set (vals (snd (uint64_array_add a v))) = insert v (set (vals a)) \<and>
         vals (snd (uint64_array_add a v)) ! fst (uint64_array_add a v) = v"
  using assms by (rule uint64_array_add_spec)

theorem uint64_array_add_correct_witness:
  "array_wf (snd (uint64_array_add \<lparr>vals = [3, 7], alloc = 2\<rparr> 5))"
  using uint64_array_add_correct [of "\<lparr>vals = [3, 7], alloc = 2\<rparr>" 5] by (simp add: array_wf_def)

text \<open>The membership test and the removal of a list of ids agree with the set the
  sorted array stands for: the test succeeds exactly on members, removal leaves the array sorted
  and is set difference.\<close>

theorem uint64_array_exists_rm:
  assumes "sorted_wrt (<) xs"
  shows "(uint64_array_exists xs v = SUCCEED \<longleftrightarrow> v \<in> set xs) \<and>
         sorted_wrt (<) (uint64_array_rm xs rms) \<and> set (uint64_array_rm xs rms) = set xs - set rms"
proof -
  have "uint64_array_exists xs v = SUCCEED \<longleftrightarrow> v \<in> set xs"
    using ids.found_iff [of xs v] assms by (simp add: uint64_array_exists_def ids.found_def Let_def)
  moreover have "sorted_wrt (<) (uint64_array_rm xs rms) \<and> set (uint64_array_rm xs rms) = set xs - set rms"
    using assms unfolding uint64_array_rm_def
    by (induction rms arbitrary: xs) (auto simp: uint64_array_rm1_set)
  ultimately show ?thesis by blast
qed

theorem uint64_array_exists_rm_witness:
  "uint64_array_exists [2, 4] 4 = SUCCEED \<and> 4 \<notin> set (uint64_array_rm [2, 4] [4, 9])"
proof -
  have s: "sorted_wrt (<) [2, 4 :: u64]" by simp
  show ?thesis using uint64_array_exists_rm [OF s, of 4 "[4, 9]"] by simp
qed

end
