(* ===== verification/IpList.thy ===== *)
theory IpList
  imports Prelude
begin

section \<open>Addresses and lists of address ranges\<close>

text \<open>
  \<open>is_ip4\<close>, \<open>is_ip6\<close>, \<open>is_ip\<close>, \<open>expand_ipv6\<close>,
  \<open>ip_in_list_ipv6\<close> and \<open>ip_in_list\<close> of \<open>libs/zbxcommon/misc.c\<close>: they
  decide which hosts a discovery rule scans and whether an agent accepts a connection.  The
  compile-time switch \<open>HAVE_IPV6\<close> is an argument.
\<close>

subsection \<open>IPv4 addresses\<close>

text \<open>The loop carries \<open>nums\<close> and \<open>dots\<close>; \<open>break\<close> returns them.\<close>

fun is_ip4_loop :: "nat \<Rightarrow> nat \<Rightarrow> string \<Rightarrow> nat \<times> nat" where
  "is_ip4_loop nums dots [] = (nums, dots)"
| "is_ip4_loop nums dots (p # ps) =
     (if is_digit p then is_ip4_loop (Suc nums) dots ps
      else if p = CHR ''.'' then
        (if nums = 0 \<or> 3 < nums then (nums, dots) else is_ip4_loop 0 (Suc dots) ps)
      else (0, dots))"

definition is_ip4 :: "string \<Rightarrow> zret" where
  "is_ip4 ip = (let (nums, dots) = is_ip4_loop 0 0 ip
                in if dots = 3 \<and> 1 \<le> nums \<and> nums \<le> 3 then SUCCEED else FAIL)"

definition octet :: "string \<Rightarrow> bool" where
  "octet s \<longleftrightarrow> (\<forall>c \<in> set s. is_digit c) \<and> 1 \<le> length s \<and> length s \<le> 3"

text \<open>Whether the loop ends well when \<open>n\<close> more dots are expected.\<close>

definition ip4_ok :: "nat \<Rightarrow> nat \<Rightarrow> string \<Rightarrow> bool" where
  "ip4_ok nums dots s \<longleftrightarrow>
     (let (k, d) = is_ip4_loop nums dots s in d = 3 \<and> 1 \<le> k \<and> k \<le> 3)"

lemma ip4_ok_simps [simp]:
  "ip4_ok nums dots [] \<longleftrightarrow> dots = 3 \<and> 1 \<le> nums \<and> nums \<le> 3"
  "is_digit c \<Longrightarrow> ip4_ok nums dots (c # s) = ip4_ok (Suc nums) dots s"
  "ip4_ok nums dots (CHR ''.'' # s) \<longleftrightarrow> 1 \<le> nums \<and> nums \<le> 3 \<and> ip4_ok 0 (Suc dots) s"
  "\<not> is_digit c \<Longrightarrow> c \<noteq> CHR ''.'' \<Longrightarrow> \<not> ip4_ok nums dots (c # s)"
  by (auto simp: ip4_ok_def Let_def scan_simps)

lemma ip4_ok_dots: "ip4_ok nums dots s \<Longrightarrow> dots \<le> 3"
proof (induction s arbitrary: nums dots)
  case (Cons c s)
  consider "is_digit c" | "c = CHR ''.''" | "\<not> is_digit c" "c \<noteq> CHR ''.''" by blast
  then show ?case using Cons by cases (auto dest: Suc_leD)
qed simp

lemma ip4_ok_run: "\<forall>c \<in> set d. is_digit c \<Longrightarrow> ip4_ok nums dots (d @ s) = ip4_ok (nums + length d) dots s"
  by (induction d arbitrary: nums) auto

lemma ip4_ok_group:
  "ip4_ok nums dots s \<longleftrightarrow>
     (let d = takeWhile is_digit s; r = dropWhile is_digit s; k = nums + length d
      in 1 \<le> k \<and> k \<le> 3 \<and> (if r = [] then dots = 3 else hd r = CHR ''.'' \<and> ip4_ok 0 (Suc dots) (tl r)))"
proof -
  let ?d = "takeWhile is_digit s" and ?r = "dropWhile is_digit s"
  have "ip4_ok nums dots s = ip4_ok (nums + length ?d) dots ?r"
    using ip4_ok_run [OF takeWhile_digits, of nums dots s ?r] by simp
  also have "\<dots> \<longleftrightarrow> 1 \<le> nums + length ?d \<and> nums + length ?d \<le> 3
      \<and> (if ?r = [] then dots = 3 else hd ?r = CHR ''.'' \<and> ip4_ok 0 (Suc dots) (tl ?r))"
  proof (cases ?r)
    case (Cons c r)
    then have "\<not> is_digit c" using hd_dropWhile [of is_digit s] by simp
    then show ?thesis using Cons by (cases "c = CHR ''.''") simp_all
  next
    case Nil
    show ?thesis unfolding Nil by auto
  qed
  finally show ?thesis by (simp only: Let_def)
qed

lemma ip4_ok_None: "dots = 3 \<Longrightarrow> \<not> ip4_ok 0 (Suc dots) s"
  using ip4_ok_dots [of 0 4 s] by auto

lemma octet_dot:
  assumes "octet a"
  shows "ip4_ok 0 dots a \<longleftrightarrow> dots = 3"
    and "ip4_ok 0 dots (a @ CHR ''.'' # s) \<longleftrightarrow> ip4_ok 0 (Suc dots) s"
  using assms ip4_ok_run [of a 0 dots "[]"] ip4_ok_run [of a 0 dots "CHR ''.'' # s"] by (auto simp: octet_def)

lemma ip4_ok_0_split:
  assumes "ip4_ok 0 dots s"
  obtains (last) "octet s" "dots = 3" | (more) a r where "octet a" "s = a @ CHR ''.'' # r" "ip4_ok 0 (Suc dots) r"
proof -
  let ?d = "takeWhile is_digit s" and ?r = "dropWhile is_digit s"
  have d: "octet ?d" and r: "if ?r = [] then dots = 3 else hd ?r = CHR ''.'' \<and> ip4_ok 0 (Suc dots) (tl ?r)"
    using assms takeWhile_digits [of s] unfolding ip4_ok_group [of 0 dots s] octet_def Let_def by auto
  show thesis
  proof (cases ?r)
    case Nil
    have "?d = s" using takeWhile_dropWhile_id [of is_digit s] unfolding Nil append_Nil2 .
    then have "octet s" using d by (simp only:)
    then show thesis using last r Nil by simp
  next
    case (Cons c r')
    then have "c = CHR ''.''" using r by simp
    then have "s = ?d @ CHR ''.'' # r'" using takeWhile_dropWhile_id [of is_digit s] Cons by simp
    then show thesis using more [OF d] r Cons by simp
  qed
qed

text \<open>\<open>is_ip4\<close> accepts exactly four groups of one to three digits with dots between
  them; the groups are not compared with 255.\<close>

theorem is_ip4_iff:
  "is_ip4 ip = SUCCEED \<longleftrightarrow>
     (\<exists>a b c d. ip = a @ ''.'' @ b @ ''.'' @ c @ ''.'' @ d \<and> octet a \<and> octet b \<and> octet c \<and> octet d)"
  (is "_ \<longleftrightarrow> ?quad")
proof -
  have "is_ip4 ip = SUCCEED \<longleftrightarrow> ip4_ok 0 0 ip"
    by (simp add: is_ip4_def ip4_ok_def Let_def split: prod.split)
  also have "\<dots> \<longleftrightarrow> ?quad"
  proof
    assume "ip4_ok 0 0 ip"
    then obtain a r1 where a: "octet a" "ip = a @ CHR ''.'' # r1" "ip4_ok 0 1 r1"
      by (cases rule: ip4_ok_0_split) auto
    from a(3) obtain b r2 where b: "octet b" "r1 = b @ CHR ''.'' # r2" "ip4_ok 0 2 r2"
      by (cases rule: ip4_ok_0_split) (auto simp: numeral_2_eq_2)
    from b(3) obtain c r3 where c: "octet c" "r2 = c @ CHR ''.'' # r3" "ip4_ok 0 3 r3"
      by (cases rule: ip4_ok_0_split) (auto simp: numeral_3_eq_3 numeral_2_eq_2)
    from c(3) have "octet r3"
      by (cases rule: ip4_ok_0_split) (use ip4_ok_None [OF refl] in auto)
    then show ?quad using a b c by fastforce
  next
    assume ?quad
    then show "ip4_ok 0 0 ip" by (auto simp: octet_dot)
  qed
  finally show ?thesis .
qed

subsection \<open>IPv6 addresses\<close>

text \<open>The counters are \<open>nums\<close>, \<open>is_nums\<close>, \<open>colons\<close> and
  \<open>dcolons\<close>.\<close>

fun is_ip6_loop :: "nat \<Rightarrow> bool \<Rightarrow> nat \<Rightarrow> nat \<Rightarrow> string \<Rightarrow> nat \<times> bool \<times> nat" where
  "is_ip6_loop nums is_nums colons dcolons [] = (nums, is_nums, colons)"
| "is_ip6_loop nums is_nums colons dcolons (p # ps) =
     (if is_xdigit p then is_ip6_loop (Suc nums) True colons dcolons ps
      else if p = CHR '':'' then
        (let dcolons' = (if nums = 0 \<and> 0 < colons then Suc dcolons else dcolons)
         in if 4 < nums \<or> 1 < dcolons' then (nums, is_nums, colons)
            else is_ip6_loop 0 is_nums (Suc colons) dcolons' ps)
      else (nums, False, colons))"

definition is_ip6 :: "string \<Rightarrow> zret" where
  "is_ip6 ip =
     (let (nums, is_nums, colons) = is_ip6_loop 0 False 0 0 ip
      in if 2 \<le> colons \<and> colons \<le> 7 \<and> nums \<le> 4 \<and> is_nums then SUCCEED else FAIL)"

definition is_ip :: "bool \<Rightarrow> string \<Rightarrow> zret" where
  "is_ip have_ipv6 ip =
     (if is_ip4 ip = SUCCEED then SUCCEED
      else if have_ipv6 \<and> is_ip6 ip = SUCCEED then SUCCEED
      else FAIL)"

text \<open>
  The \<open>break\<close> at a second double colon leaves \<open>nums\<close> zero and \<open>is_nums\<close>
  set, so the test after the loop still accepts, whatever follows.
\<close>

lemma is_ip6_accepts_garbage: "is_ip6 ''1::2::anything at all'' = SUCCEED" "is_ip6 ''1::2::3'' = SUCCEED"
  by code_simp+

text \<open>The value of the group buffer, as \<open>sscanf (buf, "%x")\<close> stores it, and its
  printing with \<open>%04x\<close>.\<close>

definition hex_digit :: "nat \<Rightarrow> char" where
  "hex_digit n = (if n < 10 then char_of (48 + n) else char_of (87 + n))"

fun show_hex :: "nat \<Rightarrow> string" where
  "show_hex n = (if n < 16 then [hex_digit n] else show_hex (n div 16) @ [hex_digit (n mod 16)])"

declare show_hex.simps [simp del]

definition show_hex4 :: "nat \<Rightarrow> string" where
  "show_hex4 n = replicate (4 - length (show_hex n)) CHR ''0'' @ show_hex n"

text \<open>What the loop of \<open>expand_ipv6\<close> can end with: the eight groups, a rejected
  address, or a write behind \<open>i[7]\<close>, which C would not notice.\<close>

datatype expansion = Groups "nat list" | Rejected | WritesPast

text \<open>\<open>buf\<close> holds the digits of the current group (its length is \<open>len\<close>),
  \<open>dc\<close> the double colon flag, \<open>first\<close> tells that \<open>j\<close> is zero.\<close>

fun expand_loop :: "nat \<Rightarrow> bool \<Rightarrow> bool \<Rightarrow> string \<Rightarrow> nat \<Rightarrow> nat list \<Rightarrow> string \<Rightarrow> expansion" where
  "expand_loop c first dc buf pos i [] = Groups i"
| "expand_loop c first dc buf pos i (x # xs) =
     (if is_xdigit x \<and> 3 < length buf then Rejected
      else if \<not> is_xdigit x \<and> x \<noteq> CHR '':'' then Rejected
      else
        let buf1 = (if is_xdigit x then buf @ [x] else buf)
        in if x = CHR '':'' \<or> xs = [] then
             if buf1 \<noteq> [] \<and> \<not> pos < 8 then WritesPast
             else
               let i1 = (if buf1 \<noteq> [] then i[pos := hex_val buf1] else i);
                   pos1 = (if buf1 \<noteq> [] then Suc pos else pos)
               in if xs \<noteq> [] \<and> hd xs = CHR '':'' then
                    if \<not> dc then expand_loop c False True [] ((8 - c) + pos1 + (if first then 1 else 0)) i1 xs
                    else Rejected
                  else expand_loop c False dc [] pos1 i1 xs
           else expand_loop c False dc buf1 pos i xs)"

definition colon_count :: "string \<Rightarrow> nat" where
  "colon_count s = length (filter (\<lambda>c. c = CHR '':'') s)"

definition expand_groups :: "string \<Rightarrow> expansion" where
  "expand_groups ip =
     (let c = colon_count ip; ip_len = length ip
      in if c < 2 \<or> 7 < c then Rejected
         else if (ip ! 0 = CHR '':'' \<and> ip ! 1 \<noteq> CHR '':'')
                 \<or> (ip ! (ip_len - 1) = CHR '':'' \<and> ip ! (ip_len - 2) \<noteq> CHR '':'') then Rejected
         else expand_loop c True False [] 0 (replicate 8 0) ip)"

definition expand_ipv6 :: "string \<Rightarrow> nat \<Rightarrow> string option" where
  "expand_ipv6 ip str_len =
     (case expand_groups ip of
        Groups i \<Rightarrow> Some (take (str_len - 1) (join_fields CHR '':'' (map show_hex4 i)))
      | _ \<Rightarrow> None)"



lemma expand_groups_examples:
  "expand_groups ''fc::2'' = Groups [252, 0, 0, 0, 0, 0, 0, 2]"
  "expand_groups ''::'' = Groups [0, 0, 0, 0, 0, 0, 0, 0]"
  "expand_groups ''1::2::3'' = Rejected" "expand_groups ''12345::1'' = Rejected"
  "show_hex4 252 = ''00fc''"
  by code_simp+

text \<open>An address with fewer than eight groups and no double colon is completed with zeros.\<close>

lemma expand_groups_short: "expand_groups ''1:2:3'' = Groups [1, 2, 3, 0, 0, 0, 0, 0]"
  by code_simp

text \<open>
  Why no write falls behind the array.  Once the double colon was seen, what is left to write
  fits behind \<open>pos\<close>: one group per colon left, plus one, less the empty group right after
  the double colon.  Before that, \<open>pos\<close> is at most the number of colons passed.
\<close>

definition room_left :: "nat \<Rightarrow> bool \<Rightarrow> bool \<Rightarrow> string \<Rightarrow> nat \<Rightarrow> string \<Rightarrow> bool" where
  "room_left c first dc buf pos s \<longleftrightarrow>
     (if dc then (if buf = [] \<and> s \<noteq> [] \<and> hd s = CHR '':'' then pos + colon_count s \<le> 8
                  else pos + colon_count s + 1 \<le> 8)
      else pos + colon_count s \<le> c \<and> (first \<longrightarrow> pos = 0 \<and> buf = []))"

lemma colon_count_simps [simp]:
  "colon_count [] = 0" "colon_count (x # s) = (if x = CHR '':'' then Suc (colon_count s) else colon_count s)"
  by (simp_all add: colon_count_def)

lemma colon_count_hd: "s \<noteq> [] \<Longrightarrow> hd s = CHR '':'' \<Longrightarrow> 0 < colon_count s"
  by (cases s) auto

lemma xdigit_not_colon [simp]: "\<not> is_xdigit CHR '':''"
  by code_simp

lemma expand_loop_in_bounds:
  assumes "room_left c first dc buf pos s" "c \<le> 7"
  shows "expand_loop c first dc buf pos i s \<noteq> WritesPast"
  using assms
proof (induction s arbitrary: first dc buf pos i)
  case (Cons x xs)
  consider (hex) "is_xdigit x" "x \<noteq> CHR '':''" | (colon) "x = CHR '':''" | (other) "\<not> is_xdigit x" "x \<noteq> CHR '':''"
    by blast
  then show ?case
  proof cases
    case hex
    then show ?thesis using Cons.prems by (auto simp: Let_def room_left_def Cons.IH split: if_splits)
  next
    case colon
    then show ?thesis
      using Cons.prems colon_count_hd [of xs] by (auto simp: Let_def room_left_def Cons.IH split: if_splits)
  next
    case other
    then show ?thesis by simp
  qed
qed simp

text \<open>Whatever the address, \<open>expand_ipv6\<close> writes only inside its array of eight
  groups.\<close>

theorem expand_ipv6_in_bounds: "expand_groups ip \<noteq> WritesPast"
  using expand_loop_in_bounds [of "colon_count ip" True False "[]" 0 ip "replicate 8 0"]
  by (auto simp: expand_groups_def Let_def room_left_def)


subsection \<open>Membership in a list of ranges\<close>

definition quad_format :: "scan_dir list" where
  "quad_format = [ScanInt, ScanLit CHR ''.'', ScanInt, ScanLit CHR ''.'', ScanInt, ScanLit CHR ''.'', ScanInt]"

text \<open>The result is the part of an entry before the dash and the bound after it; \<open>None\<close>
  when what follows the dash is no number (\<open>goto next\<close>).\<close>

definition split_dash :: "scan_dir \<Rightarrow> string \<Rightarrow> (string \<times> int option) option" where
  "split_dash conv start =
     (case strchr start CHR ''-'' of
        None \<Rightarrow> Some (start, None)
      | Some dash \<Rightarrow>
        (case sscanf [conv] (drop (Suc dash) start) of
           [IntV j] \<Rightarrow> Some (take dash start, Some j)
         | _ \<Rightarrow> None))"

definition ip4_piece_matches :: "scan_val list \<Rightarrow> string \<Rightarrow> bool" where
  "ip4_piece_matches i start =
     (case split_dash ScanInt start of
        None \<Rightarrow> False
      | Some (addr, j4) \<Rightarrow>
        (case (i, sscanf quad_format addr) of
           ([IntV i0, IntV i1, IntV i2, IntV i3], [IntV j0, IntV j1, IntV j2, IntV j3]) \<Rightarrow>
             i0 = j0 \<and> i1 = j1 \<and> i2 = j2 \<and> j3 \<le> i3 \<and> i3 \<le> (case j4 of None \<Rightarrow> j3 | Some e \<Rightarrow> e)
         | _ \<Rightarrow> False))"

definition oct_format :: "scan_dir list" where
  "oct_format = ScanHex # concat (replicate 7 [ScanLit CHR '':'', ScanHex])"

text \<open>The buffers of the IPv6 code hold \<open>MAX_STRING_LEN\<close> bytes, far more than the 39
  of an expanded address.\<close>

definition ip6_piece_matches :: "scan_val list \<Rightarrow> string \<Rightarrow> bool" where
  "ip6_piece_matches i start =
     (case split_dash ScanHex start of
        None \<Rightarrow> False
      | Some (addr, j8) \<Rightarrow>
        (case expand_ipv6 addr 2048 of
           None \<Rightarrow> False
         | Some buffer \<Rightarrow>
           let j = sscanf oct_format buffer
           in length j = 8 \<and> take 7 i = take 7 j
              \<and> (case (i ! 7, j ! 7) of
                   (IntV i7, IntV j7) \<Rightarrow> j7 \<le> i7 \<and> i7 \<le> (case j8 of None \<Rightarrow> j7 | Some e \<Rightarrow> e)
                 | _ \<Rightarrow> False)))"

text \<open>The loop over the entries, common to both functions.\<close>

function ranges_loop :: "(string \<Rightarrow> bool) \<Rightarrow> string \<Rightarrow> zret" where
  "ranges_loop matches start =
     (if start = [] then FAIL
      else case strchr start CHR '','' of
             None \<Rightarrow> if matches start then SUCCEED else FAIL
           | Some comma \<Rightarrow>
             if matches (take comma start) then SUCCEED
             else ranges_loop matches (drop (Suc comma) start))"
  by pat_completeness auto
termination
  by (relation "measure (\<lambda>(m, s). length s)") (auto dest: strchr_SomeD)

declare ranges_loop.simps [simp del]

definition ip_in_list_ipv6 :: "string \<Rightarrow> string \<Rightarrow> zret" where
  "ip_in_list_ipv6 list ip =
     (case expand_ipv6 ip 2048 of
        None \<Rightarrow> FAIL
      | Some buffer \<Rightarrow>
        let i = sscanf oct_format buffer
        in if length i \<noteq> 8 then FAIL else ranges_loop (ip6_piece_matches i) list)"

definition ip_in_list :: "bool \<Rightarrow> string \<Rightarrow> string \<Rightarrow> zret" where
  "ip_in_list have_ipv6 list ip =
     (let i = sscanf quad_format ip
      in if length i \<noteq> 4 then (if have_ipv6 then ip_in_list_ipv6 list ip else FAIL)
         else ranges_loop (ip4_piece_matches i) list)"

interpretation ranges: piece_search "CHR '',''" matches "\<lambda>s. ranges_loop matches s = SUCCEED" for matches
  by unfold_locales (auto simp: ranges_loop.simps [of matches s for s])

text \<open>Entries as they are written: an address, or an address with a bound for its last group.\<close>

type_synonym quad = "nat \<times> nat \<times> nat \<times> nat"

fun render_quad :: "quad \<Rightarrow> string" where
  "render_quad (a, b, c, d) = show_nat a @ CHR ''.'' # show_nat b @ CHR ''.'' # show_nat c @ CHR ''.'' # show_nat d"

fun render_entry :: "quad \<times> nat option \<Rightarrow> string" where
  "render_entry (q, None) = render_quad q"
| "render_entry (q, Some e) = render_quad q @ CHR ''-'' # show_nat e"

fun in_entry :: "quad \<Rightarrow> quad \<times> nat option \<Rightarrow> bool" where
  "in_entry (a, b, c, d) ((a', b', c', d'), e) \<longleftrightarrow>
     a = a' \<and> b = b' \<and> c = c' \<and> d' \<le> d \<and> d \<le> (case e of None \<Rightarrow> d' | Some m \<Rightarrow> m)"

lemma sscanf_quad [scan_simps]:
  "sscanf quad_format (render_quad (a, b, c, d)) = [IntV (int a), IntV (int b), IntV (int c), IntV (int d)]"
  by (simp add: quad_format_def scan_simps)

lemma render_quad_plain [scan_simps]:
  "CHR ''-'' \<notin> set (render_quad q)" "CHR '','' \<notin> set (render_quad q)" "render_quad q \<noteq> []"
  by (cases q; simp add: scan_simps)+

lemma split_dash_render:
  "split_dash ScanInt (render_entry (q, e)) = Some (render_quad q, map_option int e)"
  by (cases e) (simp_all add: split_dash_def strchr_append strchr_None_iff [THEN iffD2] scan_simps
      del: render_quad.simps)

lemma ip4_piece_render:
  "ip4_piece_matches [IntV (int a), IntV (int b), IntV (int c), IntV (int d)] (render_entry (q, e))
     = in_entry (a, b, c, d) (q, e)"
  by (cases q; cases e) (simp_all add: ip4_piece_matches_def split_dash_render scan_simps
      del: render_quad.simps render_entry.simps)

text \<open>An IPv4 address is in a list of addresses and ranges exactly when one entry has its
  first three groups and spans its last.\<close>

theorem ip_in_list_entries:
  "ip_in_list v6 (join_fields CHR '','' (map render_entry es)) (render_quad q) = SUCCEED
     \<longleftrightarrow> (\<exists>e \<in> set es. in_entry q e)"
proof -
  obtain a b c d where q: "q = (a, b, c, d)" by (metis prod_cases4)
  have plain: "CHR '','' \<notin> set (render_entry x) \<and> render_entry x \<noteq> []" for x
    by (cases x rule: render_entry.cases) (simp_all add: scan_simps del: render_quad.simps)
  have "ip4_piece_matches [IntV (int a), IntV (int b), IntV (int c), IntV (int d)] (render_entry x) = in_entry q x" for x
    using ip4_piece_render [of a b c d "fst x" "snd x"] by (simp add: q)
  then show ?thesis
    using ranges.search_join [of "map render_entry es" "ip4_piece_matches (sscanf quad_format (render_quad q))"] plain
    by (simp add: ip_in_list_def scan_simps q del: render_quad.simps)
qed

lemma ip_in_list_ipv6_example: "ip_in_list True ''fe::1-5,fe::9'' ''fe::3'' = SUCCEED"
  by code_simp

end
