(* ===== verification/TimePeriod.thy ===== *)
theory TimePeriod
  imports Prelude
begin

section \<open>Time periods and the next check of an item\<close>

text \<open>
  \<open>check_time_period\<close>, \<open>get_flexible_interval\<close>,
  \<open>get_next_flexible_interval\<close> and \<open>calculate_item_nextcheck\<close> of
  \<open>libs/zbxcommon/misc.c\<close>.  They decide when an item is polled, when a user may be
  notified and when a host counts as working.  The C library's \<open>localtime\<close> depends on the
  time zone database, so it is an argument; \<open>clock\<close> is the value of \<open>time (NULL)\<close>.
\<close>

text \<open>The fields of \<open>struct tm\<close> that are read.\<close>

record tm =
  tm_wday :: int
  tm_hour :: int
  tm_min :: int
  tm_sec :: int

text \<open>Sunday is day 7.\<close>

definition tm_day :: "tm \<Rightarrow> int" where
  "tm_day tm = (if tm_wday tm = 0 then 7 else tm_wday tm)"

definition day_second :: "tm \<Rightarrow> int" where
  "day_second tm = 3600 * tm_hour tm + 60 * tm_min tm + tm_sec tm"

definition period_format :: "scan_dir list" where
  "period_format =
     [ScanInt, ScanLit CHR ''-'', ScanInt, ScanLit CHR '','', ScanInt, ScanLit CHR '':'', ScanInt,
      ScanLit CHR ''-'', ScanInt, ScanLit CHR '':'', ScanInt]"

definition period_matches :: "tm \<Rightarrow> string \<Rightarrow> bool" where
  "period_matches tm s =
     (case sscanf period_format s of
        [IntV d1, IntV d2, IntV h1, IntV m1, IntV h2, IntV m2] \<Rightarrow>
          d1 \<le> tm_day tm \<and> tm_day tm \<le> d2
          \<and> 3600 * h1 + 60 * m1 \<le> day_second tm \<and> day_second tm \<le> 3600 * h2 + 60 * m2
      | _ \<Rightarrow> False)"

function check_period_loop :: "tm \<Rightarrow> string \<Rightarrow> bool" where
  "check_period_loop tm s =
     (if s = [] then False
      else case strchr s CHR '';'' of
             None \<Rightarrow> period_matches tm s
           | Some c \<Rightarrow> if period_matches tm (take c s) then True else check_period_loop tm (drop (Suc c) s))"
  by pat_completeness auto
termination
  by (relation "measure (\<lambda>(tm, s). length s)") (auto dest: strchr_SomeD)

declare check_period_loop.simps [simp del]

definition check_time_period :: "(int \<Rightarrow> tm) \<Rightarrow> int \<Rightarrow> string \<Rightarrow> int \<Rightarrow> bool" where
  "check_time_period localtime clock period now =
     check_period_loop (localtime (if now = 0 then clock else now)) period"

interpretation periods: piece_search "CHR '';''" "period_matches tm" "check_period_loop tm" for tm
  by unfold_locales (auto simp: check_period_loop.simps [of tm s for s])

subsection \<open>Flexible intervals\<close>

function flexible_interval_loop :: "(int \<Rightarrow> tm) \<Rightarrow> int \<Rightarrow> int \<Rightarrow> string \<Rightarrow> int option" where
  "flexible_interval_loop localtime clock now s =
     (if s = [] then None
      else
        let c = strchr s CHR '';'';
            piece = (case c of None \<Rightarrow> s | Some k \<Rightarrow> take k s);
            hit = (case sscanf [ScanInt, ScanLit CHR ''/'', ScanStr 29] piece of
                     [IntV delay, StrV delay_period] \<Rightarrow>
                       if check_time_period localtime clock delay_period now then Some delay else None
                   | _ \<Rightarrow> None)
        in case hit of
             Some delay \<Rightarrow> Some delay
           | None \<Rightarrow>
             (case c of None \<Rightarrow> None
              | Some k \<Rightarrow> flexible_interval_loop localtime clock now (drop (Suc k) s)))"
  by pat_completeness auto
termination
  by (relation "measure (\<lambda>(l, k, n, s). length s)") (auto dest: strchr_SomeD)

declare flexible_interval_loop.simps [simp del]

text \<open>\<open>None\<close> is FAIL; otherwise the delay stored.\<close>

definition get_flexible_interval :: "(int \<Rightarrow> tm) \<Rightarrow> int \<Rightarrow> string option \<Rightarrow> int \<Rightarrow> int option" where
  "get_flexible_interval localtime clock delay_flex now =
     (case delay_flex of None \<Rightarrow> None | Some s \<Rightarrow> flexible_interval_loop localtime clock now s)"

definition flex_format :: "scan_dir list" where
  "flex_format = ScanInt # ScanLit CHR ''/'' # period_format"

text \<open>One entry: the new \<open>next\<close> and whether the loop breaks.\<close>

definition next_flexible_step :: "tm \<Rightarrow> int \<Rightarrow> string \<Rightarrow> int \<Rightarrow> int \<times> bool" where
  "next_flexible_step tm now piece next_time =
     (let day = tm_day tm; sec = day_second tm
      in case sscanf flex_format piece of
           [IntV delay, IntV d1, IntV d2, IntV h1, IntV m1, IntV h2, IntV m2] \<Rightarrow>
             (let sec1 = 3600 * h1 + 60 * m1; sec2 = 3600 * h2 + 60 * m2
              in if d1 \<le> day \<and> day \<le> d2 \<and> sec1 \<le> sec \<and> sec \<le> sec2 then
                   (if next_time = 0 \<or> now - sec + sec2 < next_time then now - sec + sec2 else next_time, True)
                 else if d1 \<le> day \<and> day \<le> d2 \<and> sec < sec1 then
                   (if next_time = 0 \<or> now - sec + sec1 < next_time then now - sec + sec1 else next_time, False)
                 else if d1 \<le> day + 1 \<and> day + 1 \<le> d2 \<and> sec < sec1 then
                   (if next_time = 0 \<or> now - sec + sec1 < next_time then now - sec + 86400 + sec1 else next_time, False)
                 else (next_time, False))
         | _ \<Rightarrow> (next_time, False))"

function next_flexible_loop :: "tm \<Rightarrow> int \<Rightarrow> string \<Rightarrow> int \<Rightarrow> int" where
  "next_flexible_loop tm now s next_time =
     (if s = [] then next_time
      else
        let c = strchr s CHR '';'';
            (next', brk) = next_flexible_step tm now (case c of None \<Rightarrow> s | Some k \<Rightarrow> take k s) next_time
        in if brk then next'
           else case c of None \<Rightarrow> next' | Some k \<Rightarrow> next_flexible_loop tm now (drop (Suc k) s) next')"
  by pat_completeness auto
termination
  by (relation "measure (\<lambda>(tm, n, s, x). length s)") (auto dest: strchr_SomeD)

declare next_flexible_loop.simps [simp del]

text \<open>FAIL is -1 here, a value the caller tells from a time.\<close>

definition get_next_flexible_interval :: "(int \<Rightarrow> tm) \<Rightarrow> string option \<Rightarrow> int \<Rightarrow> int" where
  "get_next_flexible_interval localtime delay_flex now =
     (case delay_flex of
        None \<Rightarrow> -1
      | Some s \<Rightarrow>
        if s = [] then -1
        else
          let next_time = next_flexible_loop (localtime now) now s 0
          in if next_time \<noteq> 0 then next_time else -1)"

subsection \<open>The next check\<close>

text \<open>\<open>while (i <= now) i += delay\<close>; with a negative step it does not end.\<close>

partial_function (option) advance :: "int \<Rightarrow> int \<Rightarrow> int \<Rightarrow> int option" where
  "advance i now delay = (if i \<le> now then advance (i + delay) now delay else Some i)"

declare advance.simps [code]

text \<open>\<open>(int) (itemid % (zbx_uint64_t) delay)\<close>.\<close>

definition item_phase :: "u64 \<Rightarrow> int \<Rightarrow> int" where
  "item_phase itemid delay = sint (word_of_int (uint (itemid mod word_of_int delay)) :: 32 word)"

definition calculate_item_nextcheck ::
    "(int \<Rightarrow> tm) \<Rightarrow> int \<Rightarrow> u64 \<Rightarrow> item_type \<Rightarrow> int \<Rightarrow> string option \<Rightarrow> int \<Rightarrow> int option" where
  "calculate_item_nextcheck localtime clock itemid item_type delay delay_flex now =
     (if item_type = ITEM_TYPE_ZABBIX_ACTIVE then Some (now + (if delay = 0 then 30 else delay))
      else
        let flex_delay = (case get_flexible_interval localtime clock delay_flex now of None \<Rightarrow> delay | Some d \<Rightarrow> d);
            next_time = get_next_flexible_interval localtime delay_flex now;
            (now', flex) =
              (if next_time \<noteq> -1 \<and> next_time < now + flex_delay then
                 (next_time,
                  min flex_delay
                    (case get_flexible_interval localtime clock delay_flex (next_time + 1) of None \<Rightarrow> delay | Some d \<Rightarrow> d))
               else (now, flex_delay));
            step = (if flex = 0 then 30 else flex)
        in advance (step * trunc_div now' step + item_phase itemid step) now' step)"

lemma advance_start:
  assumes "0 < delay"
  shows "\<exists>k \<ge> 0. advance i now delay = Some (i + k * delay)
           \<and> now < i + k * delay \<and> (i \<le> now \<longrightarrow> i + k * delay \<le> now + delay) \<and> (now < i \<longrightarrow> k = 0)"
proof (induction "nat (now - i)" arbitrary: i rule: less_induct)
  case less
  show ?case
  proof (cases "i \<le> now")
    case True
    have one: "advance i now delay = advance (i + delay) now delay"
      using True by (subst advance.simps) simp
    show ?thesis
    proof (cases "i + delay \<le> now")
      case le: True
      then have "nat (now - (i + delay)) < nat (now - i)" using assms by simp
      from less [OF this] le obtain k where k: "0 \<le> k" "advance (i + delay) now delay = Some (i + delay + k * delay)"
        "now < i + delay + k * delay" "i + delay + k * delay \<le> now + delay" by auto
      then show ?thesis using one True by (intro exI [of _ "k + 1"]) (simp add: algebra_simps)
    next
      case False
      then have "advance (i + delay) now delay = Some (i + delay)" by (subst advance.simps) simp
      then show ?thesis using one True False by (intro exI [of _ 1]) simp
    qed
  next
    case False
    then show ?thesis by (intro exI [of _ 0]) (simp add: advance.simps [of i])
  qed
qed

lemma next_flexible_step_ge:
  "next_flexible_step tm now piece t = (t', brk) \<Longrightarrow> t = 0 \<or> now \<le> t \<Longrightarrow> t' = 0 \<or> now \<le> t'"
  by (auto simp: next_flexible_step_def Let_def day_second_def split: list.splits scan_val.splits if_splits)

lemma next_flexible_loop_ge:
  "t = 0 \<or> now \<le> t \<Longrightarrow> next_flexible_loop tm now s t = 0 \<or> now \<le> next_flexible_loop tm now s t"
proof (induction tm now s t rule: next_flexible_loop.induct)
  case (1 tm now s t)
  obtain c where c: "c = strchr s CHR '';''" by blast
  obtain t' brk where step: "(t', brk) = next_flexible_step tm now (case c of None \<Rightarrow> s | Some k \<Rightarrow> take k s) t"
    by (metis surj_pair)
  then have t': "t' = 0 \<or> now \<le> t'" using next_flexible_step_ge [OF step [symmetric]] "1.prems" by blast
  note eq = next_flexible_loop.simps [of tm now s t]
  show ?case
  proof (cases "s = [] \<or> brk \<or> c = None")
    case True
    then show ?thesis using "1.prems" t' eq step [symmetric] by (auto simp: Let_def c)
  next
    case False
    then obtain k where k: "c = Some k" by auto
    have "next_flexible_loop tm now s t = next_flexible_loop tm now (drop (Suc k) s) t'"
      using eq False step [symmetric] k c by (simp add: Let_def)
    then show ?thesis using "1.IH" [OF _ c step refl _ k t'] False by auto
  qed
qed

lemma get_next_flexible_ge:
  "get_next_flexible_interval localtime delay_flex now \<noteq> -1 \<Longrightarrow>
     now \<le> get_next_flexible_interval localtime delay_flex now"
  using next_flexible_loop_ge [of 0 now "localtime now"]
  by (auto simp: get_next_flexible_interval_def Let_def split: option.splits if_splits)

text \<open>C34: with intervals that are not negative the computation ends, and the next check lies
  after the present, flexible intervals included.\<close>

theorem nextcheck_in_future:
  assumes "0 \<le> delay"
    and "\<forall>t d. get_flexible_interval localtime clock delay_flex t = Some d \<longrightarrow> 0 \<le> d"
  shows "\<exists>t. calculate_item_nextcheck localtime clock itemid item_type delay delay_flex now = Some t \<and> now < t"
proof (cases "item_type = ITEM_TYPE_ZABBIX_ACTIVE")
  case True
  then show ?thesis using assms(1) by (simp add: calculate_item_nextcheck_def)
next
  case False
  let ?flex = "\<lambda>t. case get_flexible_interval localtime clock delay_flex t of None \<Rightarrow> delay | Some d \<Rightarrow> d"
  have nonneg: "0 \<le> ?flex t" for t using assms(1,2) by (auto split: option.split)
  have adv: "\<exists>t. advance i n (if f = 0 then 30 else f) = Some t \<and> n < t" if "0 \<le> f" for i n f
    using advance_start [of "if f = 0 then 30 else f" i n] that by auto
  let ?next = "get_next_flexible_interval localtime delay_flex now"
  show ?thesis
  proof (cases "?next \<noteq> -1 \<and> ?next < now + ?flex now")
    case True
    let ?f = "min (?flex now) (?flex (?next + 1))"
    have "0 \<le> ?f" using nonneg by (simp only: min_def split: if_splits) auto
    from adv [OF this] show ?thesis
      using True False get_next_flexible_ge [of localtime delay_flex now]
      by (fastforce simp: calculate_item_nextcheck_def Let_def)
  next
    case no: False
    then show ?thesis
      using adv [OF nonneg] False by (auto simp: calculate_item_nextcheck_def Let_def)
  qed
qed

theorem nextcheck_in_future_witness:
  "\<exists>t. calculate_item_nextcheck (\<lambda>n. \<lparr>tm_wday = 1, tm_hour = 9, tm_min = 0, tm_sec = 0\<rparr>) 0 7
     ITEM_TYPE_ZABBIX 60 None 1000 = Some t \<and> 1000 < t"
  by (rule nextcheck_in_future) (simp_all add: get_flexible_interval_def)

lemma item_phase_small:
  assumes "0 < delay" "delay < 2 ^ 31"
  shows "item_phase itemid delay = uint itemid mod delay"
proof -
  have d: "uint (word_of_int delay :: u64) = delay"
    using assms by (simp add: uint_word_of_int take_bit_int_eq_self)
  have m: "uint (itemid mod word_of_int delay) = uint itemid mod delay"
    by (simp add: uint_mod d)
  have "0 \<le> uint itemid mod delay" "uint itemid mod delay < 2 ^ 31"
    using assms pos_mod_bound [of delay "uint itemid"] by (simp, linarith)
  then show ?thesis
    unfolding item_phase_def m
    by (simp add: signed_of_int signed_take_bit_int_eq_self)
qed

text \<open>Without flexible intervals the next check of a passive item is the first time after
  now that is congruent to the item's id modulo the interval: checks keep their phase and the items
  are spread over the interval.\<close>

theorem nextcheck_phase:
  assumes "item_type \<noteq> ITEM_TYPE_ZABBIX_ACTIVE" "0 < delay" "delay < 2 ^ 31" "0 \<le> now"
  shows "\<exists>t. calculate_item_nextcheck localtime clock itemid item_type delay None now = Some t
           \<and> now < t \<and> t \<le> now + delay \<and> t mod delay = uint itemid mod delay"
proof -
  let ?p = "uint itemid mod delay" and ?i = "delay * (now div delay) + uint itemid mod delay"
  have p: "?p < delay" using assms(2) by simp
  have le: "delay * (now div delay) \<le> now"
    using assms(2) by (simp add: mult.commute minus_mod_eq_mult_div [symmetric])
  obtain k where k: "advance ?i now delay = Some (?i + k * delay)" "now < ?i + k * delay"
    "?i \<le> now \<longrightarrow> ?i + k * delay \<le> now + delay" "now < ?i \<longrightarrow> k = 0"
    using advance_start [OF assms(2), of ?i now] by blast
  have "?i + k * delay \<le> now + delay"
  proof (cases "?i \<le> now")
    case False
    then show ?thesis using k(4) p le by simp
  qed (use k(3) in simp)
  moreover have "(?i + k * delay) mod delay = ?p"
    by (simp add: mod_add_eq [symmetric])
  moreover have "calculate_item_nextcheck localtime clock itemid item_type delay None now = Some (?i + k * delay)"
    using assms k(1) item_phase_small [OF assms(2,3)]
    by (simp add: calculate_item_nextcheck_def get_flexible_interval_def get_next_flexible_interval_def
        trunc_div_nonneg)
  ultimately show ?thesis using k(2) by blast
qed

theorem nextcheck_phase_witness:
  "\<exists>t. calculate_item_nextcheck (\<lambda>n. \<lparr>tm_wday = 1, tm_hour = 9, tm_min = 0, tm_sec = 0\<rparr>) 0 7
     ITEM_TYPE_TRAPPER 60 None 1000 = Some t \<and> 1000 < t \<and> t \<le> 1000 + 60 \<and> t mod 60 = uint (7 :: u64) mod 60"
  by (rule nextcheck_phase) simp_all

text \<open>A period as it is written: days \<open>d1-d2\<close>, then two times of day.\<close>

datatype period = Period nat nat nat nat nat nat

fun render_period :: "period \<Rightarrow> string" where
  "render_period (Period d1 d2 h1 m1 h2 m2) =
     show_nat d1 @ CHR ''-'' # show_nat d2 @ CHR '','' # show_nat h1 @ CHR '':'' # show_nat m1
     @ CHR ''-'' # show_nat h2 @ CHR '':'' # show_nat m2"

fun in_period :: "tm \<Rightarrow> period \<Rightarrow> bool" where
  "in_period tm (Period d1 d2 h1 m1 h2 m2) \<longleftrightarrow>
     int d1 \<le> tm_day tm \<and> tm_day tm \<le> int d2
     \<and> 3600 * int h1 + 60 * int m1 \<le> day_second tm \<and> day_second tm \<le> 3600 * int h2 + 60 * int m2"

lemma period_matches_render [simp]: "period_matches tm (render_period p) = in_period tm p"
  by (cases p) (simp add: period_matches_def period_format_def scan_simps)

lemma render_period_plain: "CHR '';'' \<notin> set (render_period p) \<and> render_period p \<noteq> []"
  by (cases p) (simp add: scan_simps)

text \<open>A time is within a list of periods exactly when one of them contains its day of the
  week and its second of the day, both ends included.\<close>

theorem check_time_period_render:
  "check_time_period localtime clock (join_fields CHR '';'' (map render_period ps)) now
     \<longleftrightarrow> (\<exists>p \<in> set ps. in_period (localtime (if now = 0 then clock else now)) p)"
  using periods.search_join [of "map render_period ps"] render_period_plain
  by (simp add: check_time_period_def)

text \<open>
  \<open>get_next_flexible_interval\<close> asks for \<open>sec < sec1\<close> in its test for the next day too,
  where any start of day would do: on Sunday evening an interval that opens on Monday morning is
  not seen.
\<close>

lemma next_day_interval_missed:
  "get_next_flexible_interval (\<lambda>n. \<lparr>tm_wday = 1, tm_hour = 20, tm_min = 0, tm_sec = 0\<rparr>)
     (Some ''60/2-2,9:00-18:00'') 100000 = -1"
  by code_simp

end
