(* ===== verification/HistoryCache.thy ===== *)
theory HistoryCache
  imports CFields "HOL-Library.Sublist"
begin

section \<open>The history cache\<close>

text \<open>
  The shared-memory queue of collected values of \<open>libs/zbxdbcache/dbcache.c\<close> and
  \<open>include/dbcache.h\<close>.  Pollers and trappers append values (\<open>DCadd_history*\<close>,
  \<open>DCget_history_ptr\<close>), the syncer takes batches out of it (\<open>DCsync_history\<close>),
  both under the cache lock, so each operation is one step on the shared state.  The array is a
  ring: the entry \<open>i\<close> of the queue is the slot \<open>(history_first + i) % ZBX_HISTORY_SIZE\<close>.
  Strings live in a text buffer that is only appended to and compacted by
  \<open>DCvacuum_text\<close> when it is full.
\<close>

definition ZBX_HISTORY_SIZE :: nat where "ZBX_HISTORY_SIZE = 100000"
definition ZBX_SYNC_MAX :: nat where "ZBX_SYNC_MAX = 1000"
definition ZBX_TEXTBUFFER_SIZE :: nat where "ZBX_TEXTBUFFER_SIZE = 16384 * 1024"

subsection \<open>Data\<close>

text \<open>The union \<open>history_value_t\<close>; \<open>'f\<close> is the type of doubles and \<open>'p\<close> that
  of string pointers, a position of the text buffer in the cache and the string itself in the
  syncer's copy.\<close>

datatype ('f, 'p) hvalue = HFloat 'f | HUint u64 | HStr 'p

record ('f, 'p) dc_history =
  itemid :: u64
  clock :: int
  value_type :: value_type
  value_orig :: "('f, 'p) hvalue"
  hvalue :: "('f, nat) hvalue"
  value_null :: bool
  timestamp :: int
  source :: "'p option"
  severity :: int
  lastlogsize :: int
  keep_history :: int
  keep_trends :: int
  has_functions :: bool

text \<open>The part of \<open>ZBX_DC_CACHE\<close> about history; \<open>last_text\<close> counts from the start
  of \<open>text\<close>.\<close>

record 'f dc_cache =
  history_first :: nat
  history_num :: nat
  history :: "nat \<Rightarrow> ('f, nat) dc_history"
  cache_text :: "nat \<Rightarrow> char"
  last_text :: nat

definition slot :: "'f dc_cache \<Rightarrow> nat \<Rightarrow> nat" where
  "slot c i = (history_first c + i) mod ZBX_HISTORY_SIZE"

definition queue :: "'f dc_cache \<Rightarrow> ('f, nat) dc_history list" where
  "queue c = map (\<lambda>i. history c (slot c i)) [0..<history_num c]"

definition is_text :: "('f, 'p) dc_history \<Rightarrow> bool" where
  "is_text h \<longleftrightarrow> value_type h = VT_STR \<or> value_type h = VT_TEXT \<or> value_type h = VT_LOG"

definition str_ptr :: "('f, nat) dc_history \<Rightarrow> nat" where
  "str_ptr h = (case value_orig h of HStr p \<Rightarrow> p | _ \<Rightarrow> 0)"

subsection \<open>Strings in the text buffer\<close>

definition load_str :: "(nat \<Rightarrow> char) \<Rightarrow> nat \<Rightarrow> string" where
  "load_str m p = takeWhile (\<lambda>c. c \<noteq> CHR 0x00) (map m [p..<ZBX_TEXTBUFFER_SIZE])"

text \<open>\<open>zbx_strlcpy (p, s, siz)\<close> with \<open>siz\<close> positive.\<close>

definition store_str :: "(nat \<Rightarrow> char) \<Rightarrow> nat \<Rightarrow> string \<Rightarrow> (nat \<Rightarrow> char)" where
  "store_str m p s = (\<lambda>i. if p \<le> i \<and> i < p + length s then s ! (i - p)
                          else if i = p + length s then CHR 0x00 else m i)"

definition strlcpy_at :: "(nat \<Rightarrow> char) \<Rightarrow> nat \<Rightarrow> string \<Rightarrow> nat \<Rightarrow> (nat \<Rightarrow> char)" where
  "strlcpy_at m p s siz = (case fst (zbx_strlcpy s siz) of None \<Rightarrow> m | Some t \<Rightarrow> store_str m p t)"

subsection \<open>Compacting the text buffer\<close>

definition move_entry :: "nat \<Rightarrow> ('f, nat) dc_history \<Rightarrow> ('f, nat) dc_history" where
  "move_entry off h =
     (if is_text h then
        h\<lparr>value_orig := HStr (str_ptr h - off),
          source := (if value_type h = VT_LOG then map_option (\<lambda>p. p - off) (source h) else source h)\<rparr>
      else h)"

definition DCvacuum_text :: "'f dc_cache \<Rightarrow> 'f dc_cache" where
  "DCvacuum_text c =
     (case find is_text (queue c) of
        None \<Rightarrow> c\<lparr>last_text := 0\<rparr>
      | Some h \<Rightarrow>
        let offset = str_ptr h
        in if offset = 0 then c
           else c\<lparr>cache_text := (\<lambda>i. if i < ZBX_TEXTBUFFER_SIZE - offset then cache_text c (i + offset) else cache_text c i),
                  history := foldl (\<lambda>hist i. hist(slot c i := move_entry offset (hist (slot c i))))
                               (history c) [0..<history_num c],
                  last_text := last_text c - offset\<rparr>)"

subsection \<open>Appending\<close>

text \<open>\<open>Sleeping\<close>: the lock is given up for a second and the request is tried again from
  the start on what the other processes leave; \<open>Exited\<close>: the process ends.\<close>

datatype ('a, 'c) alloc = Done 'a | Sleeping 'c | Exited

definition take_slot :: "'f dc_cache \<Rightarrow> (nat \<times> 'f dc_cache, 'f dc_cache) alloc" where
  "take_slot c = Done ((history_first c + history_num c) mod ZBX_HISTORY_SIZE, c\<lparr>history_num := history_num c + 1\<rparr>)"

definition DCget_history_ptr :: "'f dc_cache \<Rightarrow> nat \<Rightarrow> (nat \<times> 'f dc_cache, 'f dc_cache) alloc" where
  "DCget_history_ptr c text_len =
     (if ZBX_HISTORY_SIZE \<le> history_num c then Sleeping c
      else if text_len = 0 then take_slot c
      else if ZBX_TEXTBUFFER_SIZE < text_len then Exited
      else if ZBX_TEXTBUFFER_SIZE - last_text c < text_len then
        (let c1 = DCvacuum_text c
         in if ZBX_TEXTBUFFER_SIZE - last_text c1 < text_len then Sleeping c1 else take_slot c1)
      else take_slot c)"

definition set_entry :: "'f dc_cache \<Rightarrow> nat \<Rightarrow> (('f, nat) dc_history \<Rightarrow> ('f, nat) dc_history) \<Rightarrow> 'f dc_cache" where
  "set_entry c i f = c\<lparr>history := (history c)(i := f (history c i))\<rparr>"

text \<open>Fields the code does not assign keep what the slot held before.\<close>

definition DCadd_history :: "'f dc_cache \<Rightarrow> u64 \<Rightarrow> 'f::zero \<Rightarrow> int \<Rightarrow> ('f dc_cache, 'f dc_cache) alloc" where
  "DCadd_history c item orig clk =
     (case DCget_history_ptr c 0 of
        Done (i, c1) \<Rightarrow>
          Done (set_entry c1 i (\<lambda>h. h\<lparr>itemid := item, clock := clk, value_type := VT_FLOAT, value_orig := HFloat orig,
                                     hvalue := HFloat 0, value_null := False, keep_history := 0, keep_trends := 0\<rparr>))
      | Sleeping c1 \<Rightarrow> Sleeping c1
      | Exited \<Rightarrow> Exited)"

definition DCadd_history_uint :: "'f dc_cache \<Rightarrow> u64 \<Rightarrow> u64 \<Rightarrow> int \<Rightarrow> ('f dc_cache, 'f dc_cache) alloc" where
  "DCadd_history_uint c item orig clk =
     (case DCget_history_ptr c 0 of
        Done (i, c1) \<Rightarrow>
          Done (set_entry c1 i (\<lambda>h. h\<lparr>itemid := item, clock := clk, value_type := VT_UINT64, value_orig := HUint orig,
                                     hvalue := HUint 0, value_null := False, keep_history := 0, keep_trends := 0\<rparr>))
      | Sleeping c1 \<Rightarrow> Sleeping c1
      | Exited \<Rightarrow> Exited)"

definition HISTORY_STR_VALUE_LEN_MAX :: nat where "HISTORY_STR_VALUE_LEN_MAX = 255 + 1"
definition HISTORY_TEXT_VALUE_LEN_MAX :: nat where "HISTORY_TEXT_VALUE_LEN_MAX = 65535 + 1"
definition HISTORY_LOG_VALUE_LEN_MAX :: nat where "HISTORY_LOG_VALUE_LEN_MAX = 65535 + 1"
definition HISTORY_LOG_SOURCE_LEN_MAX :: nat where "HISTORY_LOG_SOURCE_LEN_MAX = 64 + 1"

definition DCadd_history_str :: "'f dc_cache \<Rightarrow> u64 \<Rightarrow> string \<Rightarrow> int \<Rightarrow> ('f dc_cache, 'f dc_cache) alloc" where
  "DCadd_history_str c item orig clk =
     (let len = min HISTORY_STR_VALUE_LEN_MAX (length orig + 1)
      in case DCget_history_ptr c len of
           Done (i, c1) \<Rightarrow>
             Done ((set_entry c1 i (\<lambda>h. h\<lparr>itemid := item, clock := clk, value_type := VT_STR,
                     value_orig := HStr (last_text c1), hvalue := HStr (last_text c1),
                     value_null := False, keep_history := 0, keep_trends := 0\<rparr>))
                   \<lparr>cache_text := strlcpy_at (cache_text c1) (last_text c1) orig len, last_text := last_text c1 + len\<rparr>)
         | Sleeping c1 \<Rightarrow> Sleeping c1
         | Exited \<Rightarrow> Exited)"

definition DCadd_history_text :: "'f dc_cache \<Rightarrow> u64 \<Rightarrow> string \<Rightarrow> int \<Rightarrow> ('f dc_cache, 'f dc_cache) alloc" where
  "DCadd_history_text c item orig clk =
     (let len = min HISTORY_TEXT_VALUE_LEN_MAX (length orig + 1)
      in case DCget_history_ptr c len of
           Done (i, c1) \<Rightarrow>
             Done ((set_entry c1 i (\<lambda>h. h\<lparr>itemid := item, clock := clk, value_type := VT_TEXT,
                     value_orig := HStr (last_text c1), hvalue := HStr (last_text c1),
                     value_null := False, keep_history := 0, keep_trends := 0\<rparr>))
                   \<lparr>cache_text := strlcpy_at (cache_text c1) (last_text c1) orig len, last_text := last_text c1 + len\<rparr>)
         | Sleeping c1 \<Rightarrow> Sleeping c1
         | Exited \<Rightarrow> Exited)"

definition DCadd_history_log ::
    "'f dc_cache \<Rightarrow> u64 \<Rightarrow> string \<Rightarrow> int \<Rightarrow> int \<Rightarrow> string option \<Rightarrow> int \<Rightarrow> int \<Rightarrow> ('f dc_cache, 'f dc_cache) alloc" where
  "DCadd_history_log c item orig clk ts src sev logsize =
     (let len1 = min HISTORY_LOG_VALUE_LEN_MAX (length orig + 1);
          len2 = min HISTORY_LOG_SOURCE_LEN_MAX
                   (case src of Some s \<Rightarrow> if s \<noteq> [] then length s + 1 else 0 | None \<Rightarrow> 0)
      in case DCget_history_ptr c (len1 + len2) of
           Done (i, c1) \<Rightarrow>
             let p = last_text c1; t1 = strlcpy_at (cache_text c1) p orig len1
             in Done ((set_entry c1 i (\<lambda>h. h\<lparr>itemid := item, clock := clk, value_type := VT_LOG,
                        value_orig := HStr p, hvalue := HStr p, value_null := False, timestamp := ts,
                        source := (if len2 \<noteq> 0 then Some (p + len1) else None),
                        severity := sev, lastlogsize := logsize, keep_history := 0, keep_trends := 0\<rparr>))
                      \<lparr>cache_text := (case src of Some s \<Rightarrow> if len2 \<noteq> 0 then strlcpy_at t1 (p + len1) s len2 else t1
                                     | None \<Rightarrow> t1),
                       last_text := p + len1 + len2\<rparr>)
         | Sleeping c1 \<Rightarrow> Sleeping c1
         | Exited \<Rightarrow> Exited)"

subsection \<open>Taking a batch\<close>

text \<open>The \<open>for j\<close> loop moves the entries before position \<open>f\<close> up by one, from
  \<open>f\<close> down to \<open>history_first\<close>; the last argument is the number of entries
  between.\<close>

primrec shift_up :: "(nat \<Rightarrow> 'a) \<Rightarrow> nat \<Rightarrow> nat \<Rightarrow> (nat \<Rightarrow> 'a)" where
  "shift_up hist j 0 = hist"
| "shift_up hist j (Suc k) =
     (let i = (if j = 0 then ZBX_HISTORY_SIZE else j) - 1
      in shift_up (hist(j := hist i)) i k)"

definition ring_distance :: "nat \<Rightarrow> nat \<Rightarrow> nat" where
  "ring_distance first f = (f + ZBX_HISTORY_SIZE - first) mod ZBX_HISTORY_SIZE"

definition remove_entry :: "'f dc_cache \<Rightarrow> nat \<Rightarrow> 'f dc_cache" where
  "remove_entry c f =
     c\<lparr>history := shift_up (history c) f (ring_distance (history_first c) f),
       history_num := history_num c - 1,
       history_first := (history_first c + 1) mod ZBX_HISTORY_SIZE\<rparr>"

text \<open>The copy made for the syncer: the strings of \<open>value_orig\<close> and, for log entries,
  \<open>source\<close> are duplicated out of the text buffer.  The pointer in \<open>value\<close> is copied
  as it is and the \<open>source\<close> of other entries is never read.\<close>

definition copy_value :: "(nat \<Rightarrow> char) \<Rightarrow> ('f, nat) hvalue \<Rightarrow> ('f, string) hvalue" where
  "copy_value m v =
     (case v of HFloat x \<Rightarrow> HFloat x | HUint w \<Rightarrow> HUint w | HStr p \<Rightarrow> HStr (load_str m p))"

definition copy_entry :: "(nat \<Rightarrow> char) \<Rightarrow> ('f, nat) dc_history \<Rightarrow> ('f, string) dc_history" where
  "copy_entry m h =
     \<lparr>itemid = itemid h, clock = clock h, value_type = value_type h,
      value_orig = copy_value m (value_orig h),
      hvalue = hvalue h,
      value_null = value_null h, timestamp = timestamp h,
      source = (if value_type h = VT_LOG then map_option (load_str m) (source h) else None),
      severity = severity h, lastlogsize = lastlogsize h,
      keep_history = keep_history h, keep_trends = keep_trends h, has_functions = has_functions h\<rparr>"

definition DCitem_already_exists :: "('f, 'p) dc_history list \<Rightarrow> u64 \<Rightarrow> bool" where
  "DCitem_already_exists hs item \<longleftrightarrow> list_ex (\<lambda>h. itemid h = item) hs"

text \<open>The inner loop of \<open>DCsync_history\<close> under the lock: \<open>n\<close> entries are still to
  be seen, \<open>f\<close> is the slot of the next one.\<close>

fun sync_collect :: "bool \<Rightarrow> 'f dc_cache \<Rightarrow> ('f, string) dc_history list \<Rightarrow> nat \<Rightarrow> nat \<Rightarrow> int
    \<Rightarrow> 'f dc_cache \<times> ('f, string) dc_history list \<times> int" where
  "sync_collect proxy c hs 0 f skipped_clock = (c, hs, skipped_clock)"
| "sync_collect proxy c hs (Suc n) f skipped_clock =
     (if length hs < ZBX_SYNC_MAX then
        if proxy \<or> \<not> DCitem_already_exists hs (itemid (history c f)) then
          sync_collect proxy (remove_entry c f) (hs @ [copy_entry (cache_text c) (history c f)]) n
            (Suc f mod ZBX_HISTORY_SIZE) skipped_clock
        else
          sync_collect proxy c hs n (Suc f mod ZBX_HISTORY_SIZE)
            (if skipped_clock = 0 then clock (history c f) else skipped_clock)
      else (c, hs, skipped_clock))"

definition sync_batch :: "bool \<Rightarrow> 'f dc_cache \<Rightarrow> 'f dc_cache \<times> ('f, string) dc_history list \<times> int" where
  "sync_batch proxy c = sync_collect proxy c [] (history_num c) (history_first c) 0"

definition DCget_item_lastclock :: "'f dc_cache \<Rightarrow> u64 \<Rightarrow> int" where
  "DCget_item_lastclock c item =
     (case find (\<lambda>i. itemid (history c (slot c i)) = item) [0..<history_num c] of
        Some i \<Rightarrow> clock (history c (slot c i))
      | None \<Rightarrow> -1)"

definition init_database_cache :: "'f dc_cache \<Rightarrow> 'f dc_cache" where
  "init_database_cache shared = shared\<lparr>history_first := 0, history_num := 0, last_text := 0\<rparr>"

subsection \<open>The ring as a queue\<close>

lemma history_size_pos [simp]: "0 < ZBX_HISTORY_SIZE"
  by (simp add: ZBX_HISTORY_SIZE_def)

lemma length_queue [simp]: "length (queue c) = history_num c"
  by (simp add: queue_def)

lemma queue_nth: "i < history_num c \<Longrightarrow> queue c ! i = history c (slot c i)"
  by (simp add: queue_def)

lemma slot_less [simp]: "slot c i < ZBX_HISTORY_SIZE"
  by (simp add: slot_def)

lemma mod_add_inject:
  assumes "((a::nat) + i) mod n = (a + j) mod n" "i < n" "j < n"
  shows "i = j"
proof -
  have "(int a + int i) mod int n = (int a + int j) mod int n"
    using assms(1) by (metis of_nat_add of_nat_mod)
  then have "int i mod int n = int j mod int n"
    by (simp add: mod_eq_dvd_iff)
  then show ?thesis using assms(2,3) by simp
qed

lemma slot_inject: "i < ZBX_HISTORY_SIZE \<Longrightarrow> j < ZBX_HISTORY_SIZE \<Longrightarrow> slot c i = slot c j \<longleftrightarrow> i = j"
  unfolding slot_def using mod_add_inject by blast

lemma slot_0: "history_first c < ZBX_HISTORY_SIZE \<Longrightarrow> slot c 0 = history_first c"
  by (simp add: slot_def)

lemma Suc_slot: "Suc (slot c i) mod ZBX_HISTORY_SIZE = slot c (Suc i)"
  by (simp add: slot_def mod_Suc_eq)

text \<open>The well-formed cache: indices in range, and every string of a queued entry ends before
  \<open>last_text\<close>, in the order of the queue.\<close>

definition str_at :: "(nat \<Rightarrow> char) \<Rightarrow> nat \<Rightarrow> nat \<Rightarrow> bool" where
  "str_at m lim p \<longleftrightarrow> (\<exists>q \<ge> p. q < lim \<and> m q = CHR 0x00)"

definition ring_ok :: "'f dc_cache \<Rightarrow> bool" where
  "ring_ok c \<longleftrightarrow> history_first c < ZBX_HISTORY_SIZE \<and> history_num c \<le> ZBX_HISTORY_SIZE"

definition entry_ok :: "(nat \<Rightarrow> char) \<Rightarrow> nat \<Rightarrow> ('f, nat) dc_history \<Rightarrow> bool" where
  "entry_ok m lim h \<longleftrightarrow>
     (\<exists>p. value_orig h = HStr p \<and> str_at m lim p
          \<and> (value_type h = VT_LOG \<longrightarrow> (\<forall>q. source h = Some q \<longrightarrow> p \<le> q \<and> str_at m lim q)))"

definition cache_ok :: "'f dc_cache \<Rightarrow> bool" where
  "cache_ok c \<longleftrightarrow> ring_ok c \<and> last_text c \<le> ZBX_TEXTBUFFER_SIZE
     \<and> (\<forall>h \<in> set (queue c). is_text h \<longrightarrow> entry_ok (cache_text c) (last_text c) h)
     \<and> (\<forall>h \<in> set (queue c). \<not> is_text h \<longrightarrow> (\<forall>p. value_orig h \<noteq> HStr p))
     \<and> sorted (map str_ptr (filter is_text (queue c)))
     \<and> (\<forall>h \<in> set (queue c). is_text h \<longrightarrow> str_ptr h \<le> last_text c)"

definition queue_view :: "'f dc_cache \<Rightarrow> ('f, string) dc_history list" where
  "queue_view c = map (copy_entry (cache_text c)) (queue c)"

subsection \<open>Lemmas on the ring\<close>

lemma queue_cong:
  "history_first c = history_first d \<Longrightarrow> history_num c = history_num d \<Longrightarrow>
     (\<forall>i < history_num d. history c (slot c i) = history d (slot d i)) \<Longrightarrow> queue c = queue d"
  by (simp add: queue_def)

lemma queue_append:
  assumes "ring_ok c" "history_num c < ZBX_HISTORY_SIZE"
  shows "queue (c\<lparr>history_num := history_num c + 1, history := (history c)(slot c (history_num c) := e)\<rparr>)
           = queue c @ [e]"
  using assms by (auto simp: queue_def slot_def [symmetric] slot_def [of "c\<lparr>history_num := k, history := h\<rparr>" for k h]
      ring_ok_def slot_inject)

lemma slot_pred:
  "(if slot c (Suc k) = 0 then ZBX_HISTORY_SIZE else slot c (Suc k)) - 1 = slot c k"
  using slot_less [of c k] by (auto simp: slot_def mod_Suc)

lemma shift_up_eq:
  assumes "k < ZBX_HISTORY_SIZE" "i < ZBX_HISTORY_SIZE"
  shows "shift_up hist (slot c k) k (slot c i) = (if 1 \<le> i \<and> i \<le> k then hist (slot c (i - 1)) else hist (slot c i))"
  using assms
proof (induction k arbitrary: hist)
  case (Suc k)
  let ?h = "hist(slot c (Suc k) := hist (slot c k))"
  have h: "?h (slot c j) = (if j = Suc k then hist (slot c k) else hist (slot c j))" if "j < ZBX_HISTORY_SIZE" for j
    using Suc.prems that slot_inject [of j "Suc k" c] by simp
  have "shift_up hist (slot c (Suc k)) (Suc k) (slot c i) = shift_up ?h (slot c k) k (slot c i)"
    by (simp only: shift_up.simps Let_def slot_pred)
  also have "\<dots> = (if 1 \<le> i \<and> i \<le> k then ?h (slot c (i - 1)) else ?h (slot c i))"
    using Suc by simp
  also have "\<dots> = (if 1 \<le> i \<and> i \<le> Suc k then hist (slot c (i - 1)) else hist (slot c i))"
    using Suc.prems h [of i] h [of "i - 1"] by (auto simp: le_Suc_eq)
  finally show ?case .
qed simp

lemma ring_distance_slot:
  assumes "history_first c < ZBX_HISTORY_SIZE" "i < ZBX_HISTORY_SIZE"
  shows "ring_distance (history_first c) (slot c i) = i"
proof (cases "history_first c + i < ZBX_HISTORY_SIZE")
  case True
  then show ?thesis using assms by (simp add: ring_distance_def slot_def)
next
  case False
  then have "(history_first c + i) mod ZBX_HISTORY_SIZE = history_first c + i - ZBX_HISTORY_SIZE"
    using assms by (subst mod_if) simp
  then show ?thesis using assms False by (simp add: ring_distance_def slot_def)
qed

lemma remove_entry_frame [simp]:
  "history_num (remove_entry c f) = history_num c - 1" "cache_text (remove_entry c f) = cache_text c"
  "last_text (remove_entry c f) = last_text c"
  by (simp_all add: remove_entry_def)

lemma remove_entry_slot [simp]: "slot (remove_entry c f) i = slot c (Suc i)"
  by (simp add: slot_def remove_entry_def mod_add_left_eq)

lemma remove_entry_queue:
  assumes "ring_ok c" "i < history_num c"
  shows "queue (remove_entry c (slot c i)) = take i (queue c) @ drop (Suc i) (queue c)" (is "?l = ?r")
proof (rule nth_equalityI)
  show "length ?l = length ?r" using assms(2) by simp
  fix j assume "j < length ?l"
  then have j: "Suc j < history_num c" by simp
  have lim: "i < ZBX_HISTORY_SIZE" "Suc j < ZBX_HISTORY_SIZE" using assms j by (auto simp: ring_ok_def)
  have "history (remove_entry c (slot c i)) = shift_up (history c) (slot c i) i"
    using assms(1) lim(1) by (simp add: remove_entry_def ring_ok_def ring_distance_slot)
  then have "?l ! j = shift_up (history c) (slot c i) i (slot c (Suc j))"
    using j by (simp add: queue_nth)
  also have "\<dots> = (if j < i then queue c ! j else queue c ! Suc j)"
    using j assms lim by (subst shift_up_eq) (auto simp: queue_nth)
  also have "\<dots> = ?r ! j"
    using j assms(2) by (simp add: nth_append)
  finally show "?l ! j = ?r ! j" .
qed

lemma remove_entry_ring: "ring_ok c \<Longrightarrow> ring_ok (remove_entry c f)"
  by (auto simp: ring_ok_def remove_entry_def)

subsection \<open>What a batch takes\<close>

text \<open>The selection on the queue as a list: on a server one value per item, the others keep
  their places.\<close>

fun pick :: "bool \<Rightarrow> ('f, 'p) dc_history list \<Rightarrow> ('f, 'p) dc_history list
    \<Rightarrow> ('f, 'p) dc_history list \<times> ('f, 'p) dc_history list" where
  "pick proxy hs [] = (hs, [])"
| "pick proxy hs (x # xs) =
     (if length hs < ZBX_SYNC_MAX then
        if proxy \<or> itemid x \<notin> itemid ` set hs then pick proxy (hs @ [x]) xs
        else (let (b, r) = pick proxy hs xs in (b, x # r))
      else (hs, x # xs))"

lemma copy_entry_itemid [simp]: "itemid (copy_entry m h) = itemid h" "clock (copy_entry m h) = clock h"
  by (simp_all add: copy_entry_def)

lemma DCitem_already_exists_iff [simp]: "DCitem_already_exists hs item \<longleftrightarrow> item \<in> itemid ` set hs"
  by (auto simp: DCitem_already_exists_def list_ex_iff)

text \<open>Inductively, with \<open>kept\<close> entries already passed over at the front of the queue.\<close>

lemma sync_collect_pick:
  assumes "ring_ok c" "kept + n = history_num c"
    and "sync_collect proxy c hs n (slot c kept) sk = (c', hs', sk')"
  shows "ring_ok c' \<and> cache_text c' = cache_text c \<and> last_text c' = last_text c
     \<and> pick proxy hs (map (copy_entry (cache_text c)) (drop kept (queue c)))
         = (hs', drop kept (queue_view c'))
     \<and> take kept (queue c') = take kept (queue c) \<and> kept \<le> history_num c'"
  using assms
proof (induction proxy c hs n "slot c kept" sk arbitrary: kept c' hs' sk' rule: sync_collect.induct)
  case (1 proxy c hs sk)
  then show ?case by (simp add: queue_view_def)
next
  case (2 proxy c hs n sk)
  let ?f = "slot c kept" and ?m = "cache_text c"
  have lt: "kept < history_num c" and ring: "ring_ok c" using "2.prems" by auto
  then have d: "drop kept (queue c) = history c ?f # drop (Suc kept) (queue c)"
    by (simp add: Cons_nth_drop_Suc [symmetric] queue_nth)
  consider (full) "\<not> length hs < ZBX_SYNC_MAX"
    | (take_it) "length hs < ZBX_SYNC_MAX" "proxy \<or> \<not> DCitem_already_exists hs (itemid (history c ?f))"
    | (keep) "length hs < ZBX_SYNC_MAX" "\<not> (proxy \<or> \<not> DCitem_already_exists hs (itemid (history c ?f)))"
    by blast
  then show ?case
  proof cases
    case full
    then have "c' = c" "hs' = hs" using "2.prems"(3) by simp_all
    then show ?thesis using full ring lt by (simp add: d queue_view_def drop_map)
  next
    case take_it
    let ?c = "remove_entry c ?f" and ?hs = "hs @ [copy_entry ?m (history c ?f)]"
    have q: "queue ?c = take kept (queue c) @ drop (Suc kept) (queue c)" by (rule remove_entry_queue [OF ring lt])
    have dk: "drop kept (queue ?c) = drop (Suc kept) (queue c)" using lt by (simp add: q)
    have f': "Suc ?f mod ZBX_HISTORY_SIZE = slot ?c kept" by (simp add: Suc_slot)
    have run: "sync_collect proxy ?c ?hs n (slot ?c kept) sk = (c', hs', sk')"
      using "2.prems"(3) take_it unfolding f' [symmetric] by simp
    have n: "kept + n = history_num ?c" using "2.prems"(2) by simp
    note IH = "2.hyps"(1) [OF take_it f' remove_entry_ring [OF ring] n run]
    show ?thesis using IH take_it lt by (simp add: dk d) (simp add: q)
  next
    case keep
    have run: "sync_collect proxy c hs n (slot c (Suc kept))
        (if sk = 0 then clock (history c ?f) else sk) = (c', hs', sk')"
      using "2.prems"(3) keep unfolding Suc_slot [symmetric] by simp
    have n: "Suc kept + n = history_num c" using "2.prems"(2) by simp
    note IH = "2.hyps"(2) [OF keep Suc_slot ring n run]
    have q': "drop kept (queue_view c') = copy_entry ?m (history c ?f) # drop (Suc kept) (queue_view c')"
    proof -
      have "kept < length (queue_view c')" using IH by (simp add: queue_view_def)
      moreover have "queue c' ! kept = queue c ! kept"
        using IH nth_take [of kept "Suc kept" "queue c'"] nth_take [of kept "Suc kept" "queue c"] by simp
      then have "queue_view c' ! kept = copy_entry ?m (history c ?f)"
        using IH lt by (simp add: queue_view_def queue_nth [OF lt, symmetric])
      ultimately show ?thesis by (simp add: Cons_nth_drop_Suc [symmetric])
    qed
    have t: "take kept q = take kept (take (Suc kept) q)" for q :: "('a, nat) dc_history list"
      by (simp add: min_absorb1)
    have "take kept (queue c') = take kept (queue c)"
      unfolding t [of "queue c'"] t [of "queue c"] using IH by simp
    then show ?thesis using IH keep by (simp add: d q')
  qed
qed

lemma sync_batch_pick:
  assumes "ring_ok c" "sync_batch proxy c = (c', hs', sk')"
  shows "ring_ok c' \<and> cache_text c' = cache_text c \<and> last_text c' = last_text c
     \<and> pick proxy [] (queue_view c) = (hs', queue_view c')"
proof -
  have "sync_collect proxy c [] (history_num c) (slot c 0) 0 = (c', hs', sk')"
    using assms by (simp add: sync_batch_def slot_0 ring_ok_def)
  from sync_collect_pick [OF assms(1) _ this] show ?thesis by (simp add: queue_view_def)
qed

definition of_item :: "u64 \<Rightarrow> ('f, 'p) dc_history list \<Rightarrow> ('f, 'p) dc_history list" where
  "of_item item = filter (\<lambda>h. itemid h = item)"

lemma of_item_simps [simp]:
  "of_item item [] = []"
  "of_item item (x # xs) = (if itemid x = item then x # of_item item xs else of_item item xs)"
  "of_item item (xs @ ys) = of_item item xs @ of_item item ys"
  by (simp_all add: of_item_def)

lemma of_item_Nil_iff: "of_item item hs = [] \<longleftrightarrow> item \<notin> itemid ` set hs"
  by (auto simp: of_item_def filter_empty_conv)

text \<open>Once a value of an item is in the batch, no other value of that item joins it.\<close>

lemma pick_cases:
  assumes "pick proxy hs (x # xs) = (b, r)"
  obtains (full) "\<not> length hs < ZBX_SYNC_MAX" "b = hs" "r = x # xs"
    | (took) "length hs < ZBX_SYNC_MAX" "proxy \<or> itemid x \<notin> itemid ` set hs" "pick proxy (hs @ [x]) xs = (b, r)"
    | (kept) r' where "length hs < ZBX_SYNC_MAX" "\<not> proxy" "itemid x \<in> itemid ` set hs"
        "pick proxy hs xs = (b, r')" "r = x # r'"
proof -
  consider "\<not> length hs < ZBX_SYNC_MAX" | "length hs < ZBX_SYNC_MAX" "proxy \<or> itemid x \<notin> itemid ` set hs"
    | "length hs < ZBX_SYNC_MAX" "\<not> (proxy \<or> itemid x \<notin> itemid ` set hs)" by blast
  then show thesis
  proof cases
    case 1
    show thesis by (rule full) (use 1 assms in simp_all)
  next
    case 2
    show thesis by (rule took) (use 2 assms in simp_all)
  next
    case 3
    obtain b' r' where "pick proxy hs xs = (b', r')" by (cases "pick proxy hs xs")
    with 3 assms have "b' = b" "pick proxy hs xs = (b, r')" "r = x # r'" by simp_all
    with 3 show thesis by (intro kept) simp_all
  qed
qed

lemma pick_keeps_prefix: "pick proxy hs xs = (b, r) \<Longrightarrow> \<exists>t. b = hs @ t"
proof (induction xs arbitrary: hs b r)
  case (Cons x xs)
  from Cons.prems show ?case
  proof (cases rule: pick_cases)
    case took
    then show ?thesis using Cons.IH by fastforce
  next
    case kept
    then show ?thesis using Cons.IH by blast
  qed simp
qed simp

lemma pick_skips_known:
  "pick False hs xs = (b, r) \<Longrightarrow> item \<in> itemid ` set hs \<Longrightarrow>
     of_item item b = of_item item hs \<and> of_item item r = of_item item xs"
proof (induction xs arbitrary: hs b r)
  case (Cons x xs)
  from Cons.prems(1) show ?case
  proof (cases rule: pick_cases)
    case took
    then have ne: "itemid x \<noteq> item" using Cons.prems(2) by blast
    have "item \<in> itemid ` set (hs @ [x])" using Cons.prems(2) by simp
    from Cons.IH [OF took(3) this] show ?thesis using ne by simp
  next
    case (kept r')
    then show ?thesis using Cons.IH [OF kept(4) Cons.prems(2)] by simp
  qed simp
qed simp

lemma pick_order: "pick proxy hs xs = (b, r) \<Longrightarrow> of_item item b @ of_item item r = of_item item hs @ of_item item xs"
proof (induction xs arbitrary: hs b r)
  case (Cons x xs)
  from Cons.prems show ?case
  proof (cases rule: pick_cases)
    case took
    then show ?thesis using Cons.IH [OF took(3)] by simp
  next
    case (kept r')
    show ?thesis
    proof (cases "itemid x = item")
      case True
      then have "of_item item b = of_item item hs \<and> of_item item r' = of_item item xs"
        using pick_skips_known [of hs xs b r' item] kept by simp
      then show ?thesis using kept(5) True by simp
    next
      case False
      then show ?thesis using Cons.IH [OF kept(4)] kept(5) by simp
    qed
  qed simp
qed simp

lemma pick_distinct:
  "pick False hs xs = (b, r) \<Longrightarrow> distinct (map itemid hs) \<Longrightarrow> distinct (map itemid b)"
  by (induction False hs xs arbitrary: b r rule: pick.induct) (auto split: if_splits prod.splits)

lemma pick_length: "pick proxy hs xs = (b, r) \<Longrightarrow> length b + length r = length hs + length xs"
  by (induction proxy hs xs arbitrary: b r rule: pick.induct) (auto split: if_splits prod.splits)

lemma pick_bound: "pick proxy hs xs = (b, r) \<Longrightarrow> length hs \<le> ZBX_SYNC_MAX \<Longrightarrow> length b \<le> ZBX_SYNC_MAX"
  by (induction proxy hs xs arbitrary: b r rule: pick.induct) (auto split: if_splits prod.splits)

lemma sync_max_pos [simp]: "0 < ZBX_SYNC_MAX"
  by (simp add: ZBX_SYNC_MAX_def)

lemma pick_progress: "pick proxy [] xs = (b, r) \<Longrightarrow> xs \<noteq> [] \<Longrightarrow> b \<noteq> []"
  using pick_keeps_prefix by (cases xs) fastforce+

lemma pick_proxy: "pick True hs xs = (hs @ take (ZBX_SYNC_MAX - length hs) xs, drop (ZBX_SYNC_MAX - length hs) xs)"
proof (induction True hs xs rule: pick.induct)
  case (2 hs x xs)
  then show ?case
    by (cases "length hs < ZBX_SYNC_MAX") (auto simp: Suc_diff_Suc [symmetric] take_Cons' drop_Cons')
qed simp

lemma sync_batch_splits:
  assumes "ring_ok c" and "sync_batch proxy c = (c', batch, skipped)"
  shows "of_item item batch @ of_item item (queue_view c') = of_item item (queue_view c)
    \<and> (\<not> proxy \<longrightarrow> distinct (map itemid batch)) \<and> length batch \<le> ZBX_SYNC_MAX
    \<and> length batch + history_num c' = history_num c \<and> (history_num c \<noteq> 0 \<longrightarrow> batch \<noteq> [])"
proof -
  have p: "pick proxy [] (queue_view c) = (batch, queue_view c')"
    using sync_batch_pick [OF assms] by simp
  have l: "length (queue_view d) = history_num d" for d :: "'a dc_cache" by (simp add: queue_view_def)
  have "queue_view c \<noteq> []" if "history_num c \<noteq> 0" using l [of c] that by force
  then show ?thesis
    using pick_order [OF p, of item] pick_distinct [of "[]" "queue_view c" batch] pick_bound [OF p]
      pick_length [OF p] pick_progress [OF p] p by (cases proxy) (auto simp: l)
qed

text \<open>C3: taking a batch loses and duplicates nothing and keeps the order of the values of every
  item: what was queued for an item is what the batch holds for it followed by what stays queued.  On
  a server a batch has at most one value per item; it never has more than \<open>ZBX_SYNC_MAX\<close>.\<close>

theorem sync_batch_order:
  assumes "ring_ok c" and "sync_batch proxy c = (c', batch, skipped)"
  shows "of_item item batch @ of_item item (queue_view c') = of_item item (queue_view c)
    \<and> (\<not> proxy \<longrightarrow> distinct (map itemid batch)) \<and> length batch \<le> ZBX_SYNC_MAX
    \<and> length batch + history_num c' = history_num c \<and> (history_num c \<noteq> 0 \<longrightarrow> batch \<noteq> [])"
  using assms by (rule sync_batch_splits)

theorem sync_batch_order_witness:
  "let e = (\<lambda>i. \<lparr>itemid = (if i = (1::nat) then 7 else 5), clock = 10, value_type = VT_UINT64, value_orig = HUint (of_nat i),
              hvalue = HUint 0, value_null = False, timestamp = 0, source = None, severity = 0, lastlogsize = 0,
              keep_history = 0, keep_trends = 0, has_functions = False\<rparr>);
       c = \<lparr>history_first = 0, history_num = 3, history = e, cache_text = (\<lambda>i. CHR 0x00), last_text = 0\<rparr> :: int dc_cache;
       (c', batch, skipped) = sync_batch False c
   in of_item 5 batch @ of_item 5 (queue_view c') = of_item 5 (queue_view c) \<and> distinct (map itemid batch)"
  by (clarsimp simp: Let_def split: prod.split, frule sync_batch_order [rotated, where item = 5])
     (simp_all add: ring_ok_def ZBX_HISTORY_SIZE_def)

subsection \<open>A whole synchronisation\<close>

lemma sync_collect_num:
  "sync_collect proxy c hs n f sk = (c', hs', sk') \<Longrightarrow>
     \<exists>t. hs' = hs @ t \<and> history_num c' = history_num c - length t \<and> length t \<le> n"
proof (induction proxy c hs n f sk arbitrary: c' hs' sk' rule: sync_collect.induct)
  case (2 proxy c hs n f sk)
  show ?case
  proof (cases "length hs < ZBX_SYNC_MAX")
    case True
    show ?thesis
    proof (cases "proxy \<or> \<not> DCitem_already_exists hs (itemid (history c f))")
      case take_it: True
      then show ?thesis using "2.IH"(1) [OF True take_it] "2.prems" True by fastforce
    next
      case keep: False
      then show ?thesis using "2.IH"(2) [OF True keep] "2.prems" True by fastforce
    qed
  qed (use 2 in simp)
qed simp

lemma sync_batch_num:
  "sync_batch proxy c = (c', hs, sk) \<Longrightarrow> hs \<noteq> [] \<Longrightarrow> history_num c' < history_num c"
  using sync_collect_num [of proxy c "[]" "history_num c" "history_first c" 0 c' hs sk]
  by (cases hs) (auto simp: sync_batch_def)

text \<open>The outer loop: the batches in the order they are written to the database, and the cache
  left.  \<open>full\<close> is \<open>ZBX_SYNC_FULL\<close>; \<open>max_delay\<close> is the present less
  \<open>CONFIG_DBSYNCER_FREQUENCY\<close>.  What other processes append between two batches is the
  business of the step relation below.\<close>

function sync_history_loop :: "bool \<Rightarrow> bool \<Rightarrow> int \<Rightarrow> int \<Rightarrow> 'f dc_cache
    \<Rightarrow> ('f, string) dc_history list list \<times> 'f dc_cache" where
  "sync_history_loop full proxy max_delay syncs c =
     (case sync_batch proxy c of
        (c1, batch, skipped_clock) \<Rightarrow>
          if batch = [] then ([], c1)
          else if 0 < syncs - 1 \<or> full \<or> (skipped_clock \<noteq> 0 \<and> skipped_clock < max_delay) then
            (let (bs, c2) = sync_history_loop full proxy max_delay (syncs - 1) c1 in (batch # bs, c2))
          else ([batch], c1))"
  by pat_completeness auto
termination
  by (relation "measure (\<lambda>(full, proxy, m, s, c). history_num c)") (auto dest: sync_batch_num [OF sym])

declare sync_history_loop.simps [simp del]

definition DCsync_history :: "bool \<Rightarrow> bool \<Rightarrow> int \<Rightarrow> 'f dc_cache \<Rightarrow> ('f, string) dc_history list list \<times> 'f dc_cache" where
  "DCsync_history full proxy max_delay c =
     (if history_num c = 0 then ([], c)
      else sync_history_loop full proxy max_delay (int (history_num c div ZBX_SYNC_MAX)) c)"

lemma sync_history_loop_order:
  assumes "ring_ok c" "sync_history_loop full proxy max_delay syncs c = (bs, c')"
  shows "ring_ok c' \<and> of_item item (concat bs) @ of_item item (queue_view c') = of_item item (queue_view c)
    \<and> (full \<longrightarrow> history_num c' = 0)"
  using assms
proof (induction full proxy max_delay syncs c arbitrary: bs c' rule: sync_history_loop.induct)
  case (1 full proxy max_delay syncs c)
  obtain c1 batch sk where b: "sync_batch proxy c = (c1, batch, sk)" by (metis prod_cases3)
  note ord = sync_batch_splits [OF "1.prems"(1) b, of item]
  have ring: "ring_ok c1" using sync_batch_pick [OF "1.prems"(1) b] by simp
  note unf = sync_history_loop.simps [of full proxy max_delay syncs c, unfolded b, simplified]
  show ?case
  proof (cases "batch \<noteq> [] \<and> (0 < syncs - 1 \<or> full \<or> (sk \<noteq> 0 \<and> sk < max_delay))")
    case True
    obtain bs2 c2 where r: "sync_history_loop full proxy max_delay (syncs - 1) c1 = (bs2, c2)" by (metis surj_pair)
    have "bs = batch # bs2" "c' = c2" using "1.prems"(2) True r by (auto simp: unf)
    moreover have "ring_ok c2 \<and> of_item item (concat bs2) @ of_item item (queue_view c2) = of_item item (queue_view c1)
        \<and> (full \<longrightarrow> history_num c2 = 0)"
      using "1.IH" [OF b [symmetric] refl _ _ ring r] True by blast
    ultimately show ?thesis using ord by simp
  next
    case False
    then show ?thesis using "1.prems"(2) ord ring by (auto simp: unf split: if_splits)
  qed
qed

text \<open>C2: a full synchronisation terminates with an empty cache and has written every queued
  value exactly once, those of one item in the order they were added; a partial one leaves the rest
  queued in order.\<close>

theorem DCsync_history_complete:
  assumes "ring_ok c" and "DCsync_history full proxy max_delay c = (bs, c')"
  shows "of_item item (concat bs) @ of_item item (queue_view c') = of_item item (queue_view c)
    \<and> (full \<longrightarrow> queue_view c' = [])"
proof -
  have e: "queue_view c' = [] \<longleftrightarrow> history_num c' = 0" by (simp add: queue_view_def queue_def)
  show ?thesis
    using sync_history_loop_order [OF assms(1), of full proxy max_delay _ bs c' item] assms(2) e
    by (auto simp: DCsync_history_def queue_view_def queue_def split: if_splits)
qed

theorem DCsync_history_complete_witness:
  "let e = (\<lambda>i. \<lparr>itemid = (if i = (1::nat) then 7 else 5), clock = 10, value_type = VT_UINT64, value_orig = HUint (of_nat i),
              hvalue = HUint 0, value_null = False, timestamp = 0, source = None, severity = 0, lastlogsize = 0,
              keep_history = 0, keep_trends = 0, has_functions = False\<rparr>);
       c = \<lparr>history_first = 99999, history_num = 3, history = e, cache_text = (\<lambda>i. CHR 0x00), last_text = 0\<rparr> :: int dc_cache;
       (bs, c') = DCsync_history True False 0 c
   in of_item 5 (concat bs) @ of_item 5 (queue_view c') = of_item 5 (queue_view c) \<and> (True \<longrightarrow> queue_view c' = [])"
  by (clarsimp simp: Let_def split: prod.split, frule DCsync_history_complete [rotated, where item = 5])
     (auto simp: ring_ok_def ZBX_HISTORY_SIZE_def)

subsection \<open>The text buffer\<close>

lemma load_str_to:
  assumes "p \<le> q" "q < ZBX_TEXTBUFFER_SIZE" "m q = CHR 0x00"
  shows "load_str m p = takeWhile (\<lambda>c. c \<noteq> CHR 0x00) (map m [p..<q])"
proof -
  have "[p..<ZBX_TEXTBUFFER_SIZE] = [p..<q] @ q # [Suc q..<ZBX_TEXTBUFFER_SIZE]"
    using assms(1,2) by (metis less_imp_le_nat upt_conv_Cons upt_add_eq_append le_Suc_ex)
  then show ?thesis using assms(3) by (simp add: load_str_def takeWhile_tail)
qed

lemma load_str_cong:
  assumes "str_at m lim p" "lim \<le> ZBX_TEXTBUFFER_SIZE" "\<forall>i < lim. m' i = m i"
  shows "load_str m' p = load_str m p"
proof -
  obtain q where q: "p \<le> q" "q < lim" "m q = CHR 0x00" using assms(1) by (auto simp: str_at_def)
  then have e: "map m' [p..<q] = map m [p..<q]" and lt: "q < ZBX_TEXTBUFFER_SIZE" and z: "m' q = CHR 0x00"
    using assms(2,3) by simp_all
  show ?thesis by (simp only: load_str_to [of p q m, OF q(1) lt q(3)] load_str_to [of p q m', OF q(1) lt z] e)
qed

lemma load_str_shift:
  assumes "str_at m lim p" "lim \<le> ZBX_TEXTBUFFER_SIZE" "off \<le> p"
    and "\<forall>i < lim - off. m' i = m (i + off)"
  shows "load_str m' (p - off) = load_str m p \<and> str_at m' (lim - off) (p - off)"
proof -
  obtain q where q: "p \<le> q" "q < lim" "m q = CHR 0x00" using assms(1) by (auto simp: str_at_def)
  have z: "m' (q - off) = CHR 0x00" using q assms(3,4) by simp
  have "map m' [p - off..<q - off] = map m [p..<q]"
    by (rule nth_equalityI) (use q assms(3,4) in \<open>auto simp: add.commute\<close>)
  then have "load_str m' (p - off) = load_str m p"
    using q z assms(2,3) load_str_to [of p q m] load_str_to [of "p - off" "q - off" m'] by simp
  moreover have "str_at m' (lim - off) (p - off)"
    unfolding str_at_def by (rule exI [of _ "q - off"]) (use q z assms(3) in auto)
  ultimately show ?thesis by blast
qed

lemma store_str_eval:
  "i < p \<Longrightarrow> store_str m p s i = m i"
  "i < length s \<Longrightarrow> store_str m p s (p + i) = s ! i"
  "store_str m p s (p + length s) = CHR 0x00"
  by (simp_all add: store_str_def)

lemma load_store_str:
  assumes "CHR 0x00 \<notin> set s" "p + length s < ZBX_TEXTBUFFER_SIZE"
  shows "load_str (store_str m p s) p = s"
proof -
  have "map (store_str m p s) [p..<p + length s] = s"
    by (rule nth_equalityI) (simp_all add: store_str_eval)
  then show ?thesis
    using assms load_str_to [of p "p + length s" "store_str m p s"]
    by (auto simp: store_str_eval(3) takeWhile_eq_all_conv)
qed

lemma foldl_update:
  "distinct (map g xs) \<Longrightarrow>
     foldl (\<lambda>h i. h(g i := F (h (g i)))) h0 xs j = (if j \<in> g ` set xs then F (h0 j) else h0 j)"
  by (induction xs arbitrary: h0) auto

lemma distinct_slots: "ring_ok c \<Longrightarrow> distinct (map (slot c) [0..<history_num c])"
  by (auto simp: distinct_map ring_ok_def inj_on_def slot_inject)

lemma vacuum_queue:
  assumes "ring_ok c" "find is_text (queue c) = Some h" "str_ptr h \<noteq> 0"
  shows "queue (DCvacuum_text c) = map (move_entry (str_ptr h)) (queue c)"
proof (rule nth_equalityI)
  fix i assume "i < length (queue (DCvacuum_text c))"
  then have i: "i < history_num c" using assms by (simp add: DCvacuum_text_def Let_def)
  have "slot c i \<in> slot c ` set [0..<history_num c]" using i by simp
  then show "queue (DCvacuum_text c) ! i = map (move_entry (str_ptr h)) (queue c) ! i"
    using assms i foldl_update [OF distinct_slots [OF assms(1)], of "move_entry (str_ptr h)" "history c" "slot c i"]
    by (simp add: queue_nth DCvacuum_text_def Let_def slot_def)
qed (use assms in \<open>simp add: DCvacuum_text_def Let_def\<close>)

lemma find_filter: "find P xs = Some h \<Longrightarrow> \<exists>fs. filter P xs = h # fs"
  by (induction xs) (auto split: if_splits)

lemma find_text_first:
  assumes "find is_text (queue c) = Some h" "sorted (map str_ptr (filter is_text (queue c)))"
    and "e \<in> set (queue c)" "is_text e"
  shows "h \<in> set (queue c)" "is_text h" "str_ptr h \<le> str_ptr e"
proof -
  obtain fs where f: "filter is_text (queue c) = h # fs" using find_filter [OF assms(1)] by blast
  then have "h \<in> set (filter is_text (queue c))" by simp
  then show "h \<in> set (queue c)" "is_text h" by simp_all
  have "e \<in> set (filter is_text (queue c))" using assms(3,4) by simp
  then have "e \<in> set (h # fs)" unfolding f .
  then show "str_ptr h \<le> str_ptr e" using assms(2) f by auto
qed

lemma move_entry_simps [simp]:
  "is_text (move_entry off h) = is_text h" "itemid (move_entry off h) = itemid h"
  "is_text h \<Longrightarrow> str_ptr (move_entry off h) = str_ptr h - off" "\<not> is_text h \<Longrightarrow> move_entry off h = h"
  by (simp_all add: move_entry_def is_text_def str_ptr_def)

lemma move_entry_ok:
  assumes "entry_ok m lim e" "is_text e" "off \<le> str_ptr e" "lim \<le> ZBX_TEXTBUFFER_SIZE"
    and "\<forall>i < lim - off. m' i = m (i + off)"
  shows "entry_ok m' (lim - off) (move_entry off e) \<and> copy_entry m' (move_entry off e) = copy_entry m e"
proof -
  obtain p where p: "value_orig e = HStr p" "str_at m lim p"
    and src: "\<And>q. value_type e = VT_LOG \<Longrightarrow> source e = Some q \<Longrightarrow> p \<le> q \<and> str_at m lim q"
    using assms(1) by (auto simp: entry_ok_def)
  have off: "off \<le> p" using assms(3) p(1) by (simp add: str_ptr_def)
  note sh = load_str_shift [OF _ assms(4) _ assms(5)]
  show ?thesis
    using sh [OF p(2) off] sh [of "the (source e)"] src [of "the (source e)"] off assms(2) p(1)
    by (cases "source e") (auto simp: entry_ok_def move_entry_def copy_entry_def copy_value_def str_ptr_def)
qed

lemma copy_entry_plain:
  "\<not> is_text e \<Longrightarrow> \<forall>p. value_orig e \<noteq> HStr p \<Longrightarrow> copy_entry m' e = copy_entry m e"
  by (auto simp: copy_entry_def copy_value_def is_text_def split: hvalue.splits)

lemma vacuum_correct:
  assumes "cache_ok c"
  shows "queue_view (DCvacuum_text c) = queue_view c \<and> cache_ok (DCvacuum_text c)
    \<and> last_text (DCvacuum_text c) \<le> last_text c
    \<and> (\<forall>h. find is_text (queue c) = Some h \<longrightarrow> last_text (DCvacuum_text c) = last_text c - str_ptr h)
    \<and> (find is_text (queue c) = None \<longrightarrow> last_text (DCvacuum_text c) = 0)"
proof (cases "find is_text (queue c)")
  case None
  then have nt: "\<forall>h \<in> set (queue c). \<not> is_text h" by (simp add: find_None_iff)
  have v: "DCvacuum_text c = c\<lparr>last_text := 0\<rparr>" by (simp add: DCvacuum_text_def None)
  have q: "queue (c\<lparr>last_text := 0\<rparr>) = queue c" by (rule queue_cong) (simp_all add: slot_def)
  show ?thesis using assms None nt by (auto simp: v q queue_view_def cache_ok_def ring_ok_def)
next
  case (Some h)
  show ?thesis
  proof (cases "str_ptr h = 0")
    case True
    then show ?thesis using Some assms by (simp add: DCvacuum_text_def)
  next
    case False
    let ?v = "DCvacuum_text c" and ?off = "str_ptr h"
    have ok: "ring_ok c" "last_text c \<le> ZBX_TEXTBUFFER_SIZE" "sorted (map str_ptr (filter is_text (queue c)))"
      using assms by (simp_all add: cache_ok_def)
    have q: "queue ?v = map (move_entry ?off) (queue c)" by (rule vacuum_queue [OF ok(1) Some False])
    have lt: "last_text ?v = last_text c - ?off" and ring: "ring_ok ?v"
      using Some False ok(1) by (simp_all add: DCvacuum_text_def Let_def ring_ok_def)
    have mem: "\<forall>i < last_text c - ?off. cache_text ?v i = cache_text c (i + ?off)"
      using Some False ok(2) by (auto simp: DCvacuum_text_def Let_def)
    have strs: "entry_ok (cache_text ?v) (last_text ?v) (move_entry ?off e)
        \<and> copy_entry (cache_text ?v) (move_entry ?off e) = copy_entry (cache_text c) e"
      if "e \<in> set (queue c)" "is_text e" for e
      unfolding lt using find_text_first [OF Some ok(3) that] that assms
      by (intro move_entry_ok [OF _ _ _ ok(2) mem]) (auto simp: cache_ok_def)
    have plain: "copy_entry (cache_text ?v) e = copy_entry (cache_text c) e" if "e \<in> set (queue c)" "\<not> is_text e" for e
      using that assms by (intro copy_entry_plain) (auto simp: cache_ok_def)
    have view: "queue_view ?v = queue_view c"
      using strs plain unfolding queue_view_def q by simp (metis move_entry_simps(4))
    have "sorted (map str_ptr (filter is_text (queue ?v)))"
    proof -
      have "map str_ptr (filter is_text (queue ?v)) = map (\<lambda>p. p - ?off) (map str_ptr (filter is_text (queue c)))"
        by (simp add: q filter_map comp_def)
      then show ?thesis using ok(3) by (simp add: sorted_map sorted_wrt_map) (metis (mono_tags, lifting) diff_le_mono sorted_wrt_mono_rel)
    qed
    then have "cache_ok ?v"
      using assms ring strs lt ok(2) by (auto simp: cache_ok_def q)
    then show ?thesis using view lt Some by simp
  qed
qed



subsection \<open>Appending keeps the queue\<close>

lemma DCget_history_ptr_Done:
  assumes "cache_ok c" "DCget_history_ptr c len = Done (i, c1)"
  obtains c0 where "cache_ok c0" "queue_view c0 = queue_view c" "c1 = c0\<lparr>history_num := history_num c0 + 1\<rparr>"
    "i = slot c0 (history_num c0)" "history_num c0 < ZBX_HISTORY_SIZE" "last_text c0 + len \<le> ZBX_TEXTBUFFER_SIZE"
proof -
  have v: "cache_ok (DCvacuum_text c)" "queue_view (DCvacuum_text c) = queue_view c"
    using vacuum_correct [OF assms(1)] by simp_all
  have l: "last_text d \<le> ZBX_TEXTBUFFER_SIZE" if "cache_ok d" for d :: "'a dc_cache" using that by (simp add: cache_ok_def)
  have n: "history_num (DCvacuum_text c) = history_num c"
    by (simp add: DCvacuum_text_def Let_def split: option.split)
  have "(cache_ok c \<and> last_text c + len \<le> ZBX_TEXTBUFFER_SIZE \<and> Done (i, c1) = take_slot c)
      \<or> last_text (DCvacuum_text c) + len \<le> ZBX_TEXTBUFFER_SIZE \<and> Done (i, c1) = take_slot (DCvacuum_text c)"
    using assms l [OF assms(1)] l [OF v(1)]
    by (auto simp: DCget_history_ptr_def Let_def split: if_splits)
  moreover have "history_num c < ZBX_HISTORY_SIZE"
    using assms(2) by (auto simp: DCget_history_ptr_def split: if_splits)
  ultimately show thesis
    using assms(1) v n that [of c] that [of "DCvacuum_text c"] by (auto simp: take_slot_def slot_def)
qed

lemma DCget_history_ptr_Sleeping:
  assumes "cache_ok c" "DCget_history_ptr c len = Sleeping c1"
  shows "cache_ok c1 \<and> queue_view c1 = queue_view c"
  using assms vacuum_correct [OF assms(1)]
  by (auto simp: DCget_history_ptr_def take_slot_def Let_def split: if_splits)

lemma append_entry:
  assumes "cache_ok c" "history_num c < ZBX_HISTORY_SIZE"
    and c': "c' = c\<lparr>history_num := history_num c + 1, history := (history c)(slot c (history_num c) := e),
                    cache_text := m, last_text := lim\<rparr>"
    and mem: "\<forall>i < last_text c. m i = cache_text c i" "last_text c \<le> lim" "lim \<le> ZBX_TEXTBUFFER_SIZE"
    and e: "is_text e \<Longrightarrow> entry_ok m lim e \<and> last_text c \<le> str_ptr e \<and> str_ptr e \<le> lim"
      "\<not> is_text e \<Longrightarrow> \<forall>p. value_orig e \<noteq> HStr p"
  shows "cache_ok c' \<and> queue_view c' = queue_view c @ [copy_entry m e]"
proof -
  have ring: "ring_ok c" and lim: "last_text c \<le> ZBX_TEXTBUFFER_SIZE" using assms(1) by (simp_all add: cache_ok_def)
  have q: "queue c' = queue c @ [e]"
    unfolding queue_append [OF ring assms(2), symmetric] by (rule queue_cong) (simp_all add: c' slot_def)
  have at: "str_at m lim p \<and> load_str m p = load_str (cache_text c) p" if "str_at (cache_text c) (last_text c) p" for p
    using that mem load_str_cong [OF that lim mem(1)] by (fastforce simp: str_at_def)
  have old: "entry_ok m lim h \<and> copy_entry m h = copy_entry (cache_text c) h" if "h \<in> set (queue c)" "is_text h" for h
  proof -
    have "entry_ok (cache_text c) (last_text c) h" using assms(1) that by (simp add: cache_ok_def)
    then show ?thesis using at
      by (cases "source h") (auto simp: entry_ok_def copy_entry_def copy_value_def)
  qed
  have plain: "copy_entry m h = copy_entry (cache_text c) h" if "h \<in> set (queue c)" "\<not> is_text h" for h
    using that assms(1) by (intro copy_entry_plain) (auto simp: cache_ok_def)
  have "queue_view c' = queue_view c @ [copy_entry m e]"
    unfolding queue_view_def q using old plain by (auto simp: c')
  moreover have "cache_ok c'"
    using assms(1) old e mem ring assms(2) unfolding cache_ok_def q
    by (auto simp: c' ring_ok_def sorted_append dest: order.trans)
  ultimately show ?thesis by blast
qed

text \<open>What the log of the cache records of a value.\<close>

definition summary :: "('f, string) dc_history \<Rightarrow> u64 \<times> int \<times> value_type \<times> ('f, string) hvalue" where
  "summary h = (itemid h, clock h, value_type h, value_orig h)"

definition log_of :: "'f dc_cache \<Rightarrow> (u64 \<times> int \<times> value_type \<times> ('f, string) hvalue) list" where
  "log_of c = map summary (queue_view c)"

text \<open>All five additions have this shape: the slot is filled by \<open>f\<close>, which gets the
  place of the new text, and the text is written by \<open>w\<close>.\<close>

lemma add_entry:
  assumes "cache_ok c" "DCget_history_ptr c len = Done (i, c1)"
    and c': "c' = (set_entry c1 i (f (last_text c1)))
                  \<lparr>cache_text := w (cache_text c1) (last_text c1), last_text := last_text c1 + len\<rparr>"
    and mem: "\<And>m p j. j < p \<Longrightarrow> w m p j = m j"
    and strs: "\<And>m p h. p + len \<le> ZBX_TEXTBUFFER_SIZE \<Longrightarrow> is_text (f p h) \<Longrightarrow>
        entry_ok (w m p) (p + len) (f p h) \<and> str_ptr (f p h) = p"
    and num: "\<And>p q h. \<not> is_text (f p h) \<Longrightarrow> value_orig (f p h) \<noteq> HStr q"
    and sum: "\<And>m p h. p + len \<le> ZBX_TEXTBUFFER_SIZE \<Longrightarrow> summary (copy_entry (w m p) (f p h)) = s"
  shows "cache_ok c' \<and> log_of c' = log_of c @ [s]"
proof -
  obtain c0 where c0: "cache_ok c0" "queue_view c0 = queue_view c" "c1 = c0\<lparr>history_num := history_num c0 + 1\<rparr>"
    "i = slot c0 (history_num c0)" "history_num c0 < ZBX_HISTORY_SIZE" "last_text c0 + len \<le> ZBX_TEXTBUFFER_SIZE"
    by (rule DCget_history_ptr_Done [OF assms(1,2)])
  let ?e = "f (last_text c0) (history c0 i)" and ?m = "w (cache_text c0) (last_text c0)"
  have "cache_ok c' \<and> queue_view c' = queue_view c0 @ [copy_entry ?m ?e]"
  proof (rule append_entry [OF c0(1,5)])
    show "c' = c0\<lparr>history_num := history_num c0 + 1, history := (history c0)(slot c0 (history_num c0) := ?e),
        cache_text := ?m, last_text := last_text c0 + len\<rparr>"
      by (simp add: c' c0(3,4) set_entry_def)
  qed (use mem strs [OF c0(6)] num c0(6) in auto)
  then show ?thesis using sum [OF c0(6)] c0(2) by (simp add: log_of_def)
qed

lemma DCadd_history_ok:
  assumes "cache_ok c" "DCadd_history c item v clk = Done c'"
  shows "cache_ok c' \<and> log_of c' = log_of c @ [(item, clk, VT_FLOAT, HFloat v)]"
proof -
  obtain i c1 where g: "DCget_history_ptr c 0 = Done (i, c1)"
    using assms(2) by (auto simp: DCadd_history_def split: alloc.splits)
  let ?f = "\<lambda>p h. h\<lparr>itemid := item, clock := clk, value_type := VT_FLOAT, value_orig := HFloat v,
      hvalue := HFloat 0, value_null := False, keep_history := 0, keep_trends := 0\<rparr>"
  show ?thesis
    by (rule add_entry [OF assms(1) g, where f = ?f and w = "\<lambda>m p. m"])
      (use assms(2) g in \<open>auto simp: DCadd_history_def set_entry_def is_text_def summary_def copy_entry_def copy_value_def\<close>)
qed

lemma DCadd_history_uint_ok:
  assumes "cache_ok c" "DCadd_history_uint c item v clk = Done c'"
  shows "cache_ok c' \<and> log_of c' = log_of c @ [(item, clk, VT_UINT64, HUint v)]"
proof -
  obtain i c1 where g: "DCget_history_ptr c 0 = Done (i, c1)"
    using assms(2) by (auto simp: DCadd_history_uint_def split: alloc.splits)
  let ?f = "\<lambda>p h. h\<lparr>itemid := item, clock := clk, value_type := VT_UINT64, value_orig := HUint v,
      hvalue := HUint 0, value_null := False, keep_history := 0, keep_trends := 0\<rparr>"
  show ?thesis
    by (rule add_entry [OF assms(1) g, where f = ?f and w = "\<lambda>m p. m"])
      (use assms(2) g in \<open>auto simp: DCadd_history_uint_def set_entry_def is_text_def summary_def copy_entry_def copy_value_def\<close>)
qed

lemma strlcpy_at_eq: "0 < siz \<Longrightarrow> strlcpy_at m p s siz = store_str m p (take (siz - 1) s)"
  by (simp add: strlcpy_at_def)

lemma strlcpy_at_facts:
  assumes "CHR 0x00 \<notin> set s" "0 < siz" "siz \<le> length s + 1" "p + siz \<le> ZBX_TEXTBUFFER_SIZE" "p + siz \<le> lim"
  shows "str_at (strlcpy_at m p s siz) lim p" "load_str (strlcpy_at m p s siz) p = take (siz - 1) s"
    and "j < p \<or> p + siz \<le> j \<Longrightarrow> strlcpy_at m p s siz j = m j"
proof -
  let ?t = "take (siz - 1) s"
  have l: "p + length ?t < lim" "p + length ?t < ZBX_TEXTBUFFER_SIZE" "length ?t = siz - 1" using assms by auto
  have "store_str m p ?t (p + length ?t) = CHR 0x00" by (rule store_str_eval(3))
  then show "str_at (strlcpy_at m p s siz) lim p"
    using l(1) assms(2) unfolding str_at_def strlcpy_at_eq [OF assms(2)] by (metis le_add1)
  have "CHR 0x00 \<notin> set ?t" using assms(1) in_set_takeD by fast
  then show "load_str (strlcpy_at m p s siz) p = ?t"
    using l(2) load_store_str strlcpy_at_eq [OF assms(2)] by metis
  show "j < p \<or> p + siz \<le> j \<Longrightarrow> strlcpy_at m p s siz j = m j"
    using assms(2) l(3) by (auto simp: strlcpy_at_eq store_str_def)
qed

lemma DCadd_history_str_ok:
  assumes "cache_ok c" "DCadd_history_str c item v clk = Done c'" "CHR 0x00 \<notin> set v"
  shows "cache_ok c' \<and> log_of c' = log_of c @ [(item, clk, VT_STR, HStr (take 255 v))]"
proof -
  let ?len = "min HISTORY_STR_VALUE_LEN_MAX (length v + 1)"
  have len: "0 < ?len" "?len \<le> length v + 1" "take (?len - 1) v = take 255 v"
    by (auto simp: HISTORY_STR_VALUE_LEN_MAX_def min_def)
  obtain i c1 where g: "DCget_history_ptr c ?len = Done (i, c1)"
    using assms(2) by (auto simp: DCadd_history_str_def Let_def split: alloc.splits)
  let ?f = "\<lambda>p h. h\<lparr>itemid := item, clock := clk, value_type := VT_STR, value_orig := HStr p,
      hvalue := HStr p, value_null := False, keep_history := 0, keep_trends := 0\<rparr>"
  show ?thesis
  proof (rule add_entry [OF assms(1) g, where f = ?f and w = "\<lambda>m p. strlcpy_at m p v ?len"])
    show "c' = set_entry c1 i (?f (last_text c1))
        \<lparr>cache_text := strlcpy_at (cache_text c1) (last_text c1) v ?len, last_text := last_text c1 + ?len\<rparr>"
      using assms(2) g by (auto simp: DCadd_history_str_def Let_def set_entry_def)
  qed (use strlcpy_at_facts [OF assms(3) len(1,2)] len(1,3) in
      \<open>auto simp: entry_ok_def is_text_def str_ptr_def summary_def copy_entry_def copy_value_def strlcpy_at_eq store_str_eval(1)\<close>)
qed

lemma DCadd_history_text_ok:
  assumes "cache_ok c" "DCadd_history_text c item v clk = Done c'" "CHR 0x00 \<notin> set v"
  shows "cache_ok c' \<and> log_of c' = log_of c @ [(item, clk, VT_TEXT, HStr (take 65535 v))]"
proof -
  let ?len = "min HISTORY_TEXT_VALUE_LEN_MAX (length v + 1)"
  have len: "0 < ?len" "?len \<le> length v + 1" "take (?len - 1) v = take 65535 v"
    by (auto simp: HISTORY_TEXT_VALUE_LEN_MAX_def min_def)
  obtain i c1 where g: "DCget_history_ptr c ?len = Done (i, c1)"
    using assms(2) by (auto simp: DCadd_history_text_def Let_def split: alloc.splits)
  let ?f = "\<lambda>p h. h\<lparr>itemid := item, clock := clk, value_type := VT_TEXT, value_orig := HStr p,
      hvalue := HStr p, value_null := False, keep_history := 0, keep_trends := 0\<rparr>"
  show ?thesis
  proof (rule add_entry [OF assms(1) g, where f = ?f and w = "\<lambda>m p. strlcpy_at m p v ?len"])
    show "c' = set_entry c1 i (?f (last_text c1))
        \<lparr>cache_text := strlcpy_at (cache_text c1) (last_text c1) v ?len, last_text := last_text c1 + ?len\<rparr>"
      using assms(2) g by (auto simp: DCadd_history_text_def Let_def set_entry_def)
  qed (use strlcpy_at_facts [OF assms(3) len(1,2)] len(1,3) in
      \<open>auto simp: entry_ok_def is_text_def str_ptr_def summary_def copy_entry_def copy_value_def strlcpy_at_eq store_str_eval(1)\<close>)
qed

definition log_write :: "string \<Rightarrow> nat \<Rightarrow> string option \<Rightarrow> nat \<Rightarrow> (nat \<Rightarrow> char) \<Rightarrow> nat \<Rightarrow> (nat \<Rightarrow> char)" where
  "log_write v len1 src len2 m p =
     (let t1 = strlcpy_at m p v len1
      in case src of Some s \<Rightarrow> if len2 \<noteq> 0 then strlcpy_at t1 (p + len1) s len2 else t1 | None \<Rightarrow> t1)"

lemma log_write_facts:
  assumes "CHR 0x00 \<notin> set v" "0 < len1" "len1 \<le> length v + 1" "p + len1 + len2 \<le> ZBX_TEXTBUFFER_SIZE"
    and src: "\<And>s. src = Some s \<Longrightarrow> CHR 0x00 \<notin> set s \<and> (len2 \<noteq> 0 \<longrightarrow> len2 \<le> length s + 1)"
  shows "str_at (log_write v len1 src len2 m p) (p + len1 + len2) p"
    and "load_str (log_write v len1 src len2 m p) p = take (len1 - 1) v"
    and "j < p \<Longrightarrow> log_write v len1 src len2 m p j = m j"
    and "src \<noteq> None \<Longrightarrow> len2 \<noteq> 0 \<Longrightarrow> str_at (log_write v len1 src len2 m p) (p + len1 + len2) (p + len1)"
proof -
  let ?t1 = "strlcpy_at m p v len1" and ?w = "log_write v len1 src len2 m p"
  have b: "p + len1 \<le> ZBX_TEXTBUFFER_SIZE" using assms(4) by simp
  note one = strlcpy_at_facts [where m = m, OF assms(1-3) b order_refl]
  have two: "?w = ?t1 \<or> (\<exists>s. src = Some s \<and> len2 \<noteq> 0 \<and> ?w = strlcpy_at ?t1 (p + len1) s len2)"
    by (auto simp: log_write_def Let_def split: option.split)
  have w2: "str_at (strlcpy_at ?t1 (p + len1) s len2) (p + len1 + len2) (p + len1)
      \<and> (\<forall>j < p + len1. strlcpy_at ?t1 (p + len1) s len2 j = ?t1 j)" if "src = Some s" "len2 \<noteq> 0" for s
    using strlcpy_at_facts [where s = s and siz = len2 and p = "p + len1" and lim = "p + len1 + len2" and m = ?t1] src [OF that(1)] that(2) assms(4) by simp
  have frame: "\<forall>j < p + len1. ?w j = ?t1 j" using two w2 by auto
  show "load_str ?w p = take (len1 - 1) v"
    using load_str_cong [OF one(1) b frame] one(2) by simp
  show "str_at ?w (p + len1 + len2) p"
    using one(1) frame unfolding str_at_def by (metis trans_less_add1)
  show "j < p \<Longrightarrow> ?w j = m j" using frame one(3) by simp
  show "src \<noteq> None \<Longrightarrow> len2 \<noteq> 0 \<Longrightarrow> str_at ?w (p + len1 + len2) (p + len1)"
    using w2 by (auto simp: log_write_def Let_def)
qed

lemma DCadd_history_log_ok:
  assumes "cache_ok c" "DCadd_history_log c item v clk ts src sev logsize = Done c'" "CHR 0x00 \<notin> set v"
    and "\<And>s. src = Some s \<Longrightarrow> CHR 0x00 \<notin> set s"
  shows "cache_ok c' \<and> log_of c' = log_of c @ [(item, clk, VT_LOG, HStr (take 65535 v))]"
proof -
  let ?len1 = "min HISTORY_LOG_VALUE_LEN_MAX (length v + 1)"
  let ?len2 = "min HISTORY_LOG_SOURCE_LEN_MAX (case src of Some s \<Rightarrow> if s \<noteq> [] then length s + 1 else 0 | None \<Rightarrow> 0)"
  have len: "0 < ?len1" "?len1 \<le> length v + 1" "take (?len1 - 1) v = take 65535 v"
    by (auto simp: HISTORY_LOG_VALUE_LEN_MAX_def min_def)
  have len2: "src = Some s \<Longrightarrow> CHR 0x00 \<notin> set s \<and> (?len2 \<noteq> 0 \<longrightarrow> ?len2 \<le> length s + 1)" "?len2 \<noteq> 0 \<Longrightarrow> src \<noteq> None" for s
    using assms(4) by (auto split: if_splits option.splits)
  obtain i c1 where g: "DCget_history_ptr c (?len1 + ?len2) = Done (i, c1)"
    using assms(2) by (auto simp: DCadd_history_log_def Let_def split: alloc.splits)
  define l1 l2 where l: "l1 = ?len1" "l2 = ?len2"
  let ?f = "\<lambda>p h. h\<lparr>itemid := item, clock := clk, value_type := VT_LOG, value_orig := HStr p,
      hvalue := HStr p, value_null := False, timestamp := ts, source := (if l2 \<noteq> 0 then Some (p + l1) else None),
      severity := sev, lastlogsize := logsize, keep_history := 0, keep_trends := 0\<rparr>"
  note g' = g [folded l] and len' = len [folded l] and len2' = len2 [folded l]
  have c': "c' = set_entry c1 i (?f (last_text c1))
        \<lparr>cache_text := log_write v l1 src l2 (cache_text c1) (last_text c1), last_text := last_text c1 + (l1 + l2)\<rparr>"
    using assms(2) [unfolded DCadd_history_log_def Let_def, folded l] g'
    by (auto simp: set_entry_def log_write_def Let_def add.assoc)
  note facts = log_write_facts [OF assms(3) len'(1,2) _ len2'(1)]
  show ?thesis
  proof (rule add_entry [OF assms(1) g', where f = ?f and w = "log_write v l1 src l2", OF c'])
    show "log_write v l1 src l2 m p j = m j" if "j < p" for m p j
      using that len'(1) by (auto simp: log_write_def Let_def strlcpy_at_def store_str_def split: option.split)
    fix m p and h :: "('a, nat) dc_history" assume b: "p + (l1 + l2) \<le> ZBX_TEXTBUFFER_SIZE"
    then have b': "p + l1 + l2 \<le> ZBX_TEXTBUFFER_SIZE" by simp
    show "entry_ok (log_write v l1 src l2 m p) (p + (l1 + l2)) (?f p h) \<and> str_ptr (?f p h) = p"
      using facts(1,4) [where m = m, OF b'] len2'(2) by (auto simp: entry_ok_def str_ptr_def add.assoc)
    show "summary (copy_entry (log_write v l1 src l2 m p) (?f p h)) = (item, clk, VT_LOG, HStr (take 65535 v))"
      using facts(2) [where m = m, OF b'] len'(3) by (simp add: summary_def copy_entry_def copy_value_def)
  qed (simp_all add: is_text_def)
qed

subsection \<open>The cache as a transition system\<close>

text \<open>
  The pollers, trappers and the syncer take turns under the lock.  \<open>added\<close> is the list of
  values added so far, as the cache stores them, \<open>taken\<close> the list of those handed to the
  database.  A process that finds the cache full gives the lock up and tries again later.
\<close>

inductive run :: "bool \<Rightarrow> (u64 \<times> int \<times> value_type \<times> ('f::zero, string) hvalue) list
    \<Rightarrow> (u64 \<times> int \<times> value_type \<times> ('f, string) hvalue) list \<Rightarrow> 'f dc_cache \<Rightarrow> bool" for proxy where
  run_init: "run proxy [] [] (init_database_cache shared)"
| run_float: "run proxy added taken c \<Longrightarrow> DCadd_history c item v clk = Done c' \<Longrightarrow>
    run proxy (added @ [(item, clk, VT_FLOAT, HFloat v)]) taken c'"
| run_uint: "run proxy added taken c \<Longrightarrow> DCadd_history_uint c item w clk = Done c' \<Longrightarrow>
    run proxy (added @ [(item, clk, VT_UINT64, HUint w)]) taken c'"
| run_str: "run proxy added taken c \<Longrightarrow> DCadd_history_str c item s clk = Done c' \<Longrightarrow> CHR 0x00 \<notin> set s \<Longrightarrow>
    run proxy (added @ [(item, clk, VT_STR, HStr (take 255 s))]) taken c'"
| run_text: "run proxy added taken c \<Longrightarrow> DCadd_history_text c item s clk = Done c' \<Longrightarrow> CHR 0x00 \<notin> set s \<Longrightarrow>
    run proxy (added @ [(item, clk, VT_TEXT, HStr (take 65535 s))]) taken c'"
| run_log: "run proxy added taken c \<Longrightarrow> DCadd_history_log c item s clk ts src sev logsize = Done c' \<Longrightarrow>
    CHR 0x00 \<notin> set s \<Longrightarrow> (\<And>t. src = Some t \<Longrightarrow> CHR 0x00 \<notin> set t) \<Longrightarrow>
    run proxy (added @ [(item, clk, VT_LOG, HStr (take 65535 s))]) taken c'"
| run_sleep: "run proxy added taken c \<Longrightarrow> DCget_history_ptr c len = Sleeping c' \<Longrightarrow> run proxy added taken c'"
| run_batch: "run proxy added taken c \<Longrightarrow> sync_batch proxy c = (c', batch, skipped) \<Longrightarrow>
    run proxy added (taken @ map summary batch) c'"

definition log_item :: "u64 \<Rightarrow> (u64 \<times> 'a) list \<Rightarrow> (u64 \<times> 'a) list" where
  "log_item item = filter (\<lambda>e. fst e = item)"

lemma log_item_summary: "log_item item (map summary hs) = map summary (of_item item hs)"
  by (induction hs) (simp_all add: log_item_def summary_def)

lemma sync_collect_subseq:
  assumes "ring_ok c" "kept + n = history_num c" "sync_collect proxy c hs n (slot c kept) sk = (c', hs', sk')"
  shows "subseq (queue c') (queue c)"
  using assms
proof (induction proxy c hs n "slot c kept" sk arbitrary: kept c' hs' sk' rule: sync_collect.induct)
  case (2 proxy c hs n sk)
  let ?f = "slot c kept"
  show ?case
  proof (cases "length hs < ZBX_SYNC_MAX")
    case True
    show ?thesis
    proof (cases "proxy \<or> \<not> DCitem_already_exists hs (itemid (history c ?f))")
      case take_it: True
      let ?c = "remove_entry c ?f"
      have lt: "kept < history_num c" using "2.prems" by simp
      have f': "Suc ?f mod ZBX_HISTORY_SIZE = slot ?c kept" by (simp add: Suc_slot)
      have run: "sync_collect proxy ?c (hs @ [copy_entry (cache_text c) (history c ?f)]) n (slot ?c kept) sk = (c', hs', sk')"
        using "2.prems"(3) True take_it unfolding f' [symmetric] by simp
      have "subseq (queue c') (queue ?c)"
        using "2.hyps"(1) [OF True take_it f' remove_entry_ring _ run] "2.prems" by simp
      also have "subseq (queue ?c) (queue c)"
      proof -
        have "subseq (take kept (queue c) @ drop (Suc kept) (queue c))
            (take kept (queue c) @ queue c ! kept # drop (Suc kept) (queue c))"
          by (intro list_emb_append_mono) auto
        then show ?thesis
          using id_take_nth_drop [of kept "queue c"] lt by (simp add: remove_entry_queue [OF "2.prems"(1) lt])
      qed
      finally show ?thesis .
    next
      case keep: False
      then have run: "sync_collect proxy c hs n (slot c (Suc kept))
          (if sk = 0 then clock (history c ?f) else sk) = (c', hs', sk')"
        using "2.prems"(3) True unfolding Suc_slot [symmetric] by simp
      show ?thesis using "2.hyps"(2) [OF True keep Suc_slot "2.prems"(1) _ run] "2.prems"(2) by simp
    qed
  qed (use "2.prems" in simp)
qed simp

lemma sync_batch_cache_ok:
  assumes "cache_ok c" "sync_batch proxy c = (c', batch, skipped)"
  shows "cache_ok c'"
proof -
  have ring: "ring_ok c" using assms(1) by (simp add: cache_ok_def)
  note p = sync_batch_pick [OF ring assms(2)]
  have sub: "subseq (queue c') (queue c)"
    using sync_collect_subseq [of c 0 "history_num c" proxy "[]" 0 c'] assms(2) ring
    by (simp add: sync_batch_def slot_0 ring_ok_def)
  then have "set (queue c') \<subseteq> set (queue c)" by (auto simp: subseq_conv_nths dest: in_set_nthsD)
  moreover have "sorted (map str_ptr (filter is_text (queue c')))"
  proof -
    have "subseq (map str_ptr (filter is_text (queue c'))) (map str_ptr (filter is_text (queue c)))"
      using sub by (intro subseq_map subseq_filter)
    then obtain N where "map str_ptr (filter is_text (queue c')) = nths (map str_ptr (filter is_text (queue c))) N"
      by (auto simp: subseq_conv_nths)
    then show ?thesis using assms(1) by (simp add: cache_ok_def sorted_nths)
  qed
  ultimately show ?thesis using assms(1) p unfolding cache_ok_def by auto
qed

text \<open>C1: in every reachable state the cache is well formed and, for every item, the values
  handed to the database followed by the ones still queued are exactly the values added, in the order
  they were added: none is lost, duplicated, reordered or altered.\<close>

theorem history_cache_fifo:
  assumes "run proxy added taken c"
  shows "cache_ok c \<and> log_item item taken @ log_item item (log_of c) = log_item item added"
  using assms
proof (induction rule: run.induct)
  case (run_init shared)
  then show ?case
    by (simp add: init_database_cache_def cache_ok_def ring_ok_def queue_def log_of_def queue_view_def log_item_def)
next
  case (run_batch added taken c c' batch skipped)
  then have "ring_ok c" by (simp add: cache_ok_def)
  from sync_batch_splits [OF this run_batch.hyps(2), of item]
  have "of_item item (queue_view c) = of_item item batch @ of_item item (queue_view c')" by simp
  then have "log_item item (log_of c) = log_item item (map summary batch) @ log_item item (log_of c')"
    by (simp add: log_of_def log_item_summary)
  then show ?case
    using run_batch sync_batch_cache_ok by (auto simp: log_item_def)
next
  case (run_sleep added taken c len c')
  then show ?case using DCget_history_ptr_Sleeping by (fastforce simp: log_of_def)
next
  case (run_float added taken c item' v clk c')
  then show ?case using DCadd_history_ok [OF _ run_float.hyps(2)] by (simp add: log_item_def)
next
  case (run_uint added taken c item' w clk c')
  then show ?case using DCadd_history_uint_ok [OF _ run_uint.hyps(2)] by (simp add: log_item_def)
next
  case (run_str added taken c item' s clk c')
  then show ?case using DCadd_history_str_ok [OF _ run_str.hyps(2,3)] by (simp add: log_item_def)
next
  case (run_text added taken c item' s clk c')
  then show ?case using DCadd_history_text_ok [OF _ run_text.hyps(2,3)] by (simp add: log_item_def)
next
  case (run_log added taken c item' s clk ts src sev logsize c')
  then show ?case using DCadd_history_log_ok [OF _ run_log.hyps(2,3,4)] by (simp add: log_item_def)
qed

theorem history_cache_fifo_witness:
  "\<exists>c :: int dc_cache. run False [(5, 100, VT_UINT64, HUint 7)] [] c \<and> cache_ok c
     \<and> log_item 5 [] @ log_item 5 (log_of c) = log_item 5 [(5, 100, VT_UINT64, HUint 7)]"
proof -
  let ?c0 = "init_database_cache undefined :: int dc_cache"
  have "\<exists>c. DCadd_history_uint ?c0 5 7 100 = Done c"
    by (simp add: DCadd_history_uint_def DCget_history_ptr_def take_slot_def init_database_cache_def)
  then obtain c where "DCadd_history_uint ?c0 5 7 100 = Done c" ..
  from run_uint [OF run_init this] have r: "run False [(5, 100, VT_UINT64, HUint 7)] [] c" by simp
  from r history_cache_fifo [OF r, of 5] show ?thesis by blast
qed

text \<open>\<open>DCget_item_lastclock\<close> gives the clock of the item's oldest queued value, or -1
  when none is queued.\<close>

theorem DCget_item_lastclock_oldest:
  "DCget_item_lastclock c item = (case of_item item (queue c) of [] \<Rightarrow> -1 | h # hs \<Rightarrow> clock h)"
proof -
  have find: "(case find P xs of Some i \<Rightarrow> g i | None \<Rightarrow> d) = (case filter P xs of [] \<Rightarrow> d | i # is \<Rightarrow> g i)"
    for P :: "nat \<Rightarrow> bool" and xs and g :: "nat \<Rightarrow> int" and d
    by (induction xs) auto
  have "of_item item (queue c) = map (\<lambda>i. history c (slot c i)) (filter (\<lambda>i. itemid (history c (slot c i)) = item) [0..<history_num c])"
    by (simp add: of_item_def queue_def filter_map comp_def)
  then show ?thesis unfolding DCget_item_lastclock_def find by (simp split: list.split)
qed

end
