(* ===== verification/Trends.thy ===== *)
theory Trends
  imports SortedArrays HistoryCache
begin

section \<open>Hourly trends\<close>

text \<open>
  The trend part of \<open>libs/zbxdbcache/dbcache.c\<close>: per item the minimum, the average and
  the maximum of the hour, kept in an array sorted by item (\<open>DCget_trend_nearestindex\<close>,
  \<open>DCget_trend\<close>), merged with what the database holds for the hour when it is flushed
  (\<open>DCflush_trend\<close>) and fed by the batches of the syncer (\<open>DCadd_trend\<close>,
  \<open>DCmass_update_trends\<close>, \<open>DCsync_trends\<close>).  Doubles are a type \<open>'f\<close> whose
  operations are an argument; the SQL text is modelled by the statement it spells.
\<close>

definition ZBX_TREND_SIZE :: nat where "ZBX_TREND_SIZE = 100000"

subsection \<open>Doubles and the value union\<close>

text \<open>The operations of \<open>double\<close> the code uses, and the two readings of a union that
  was filled through its other member; \<open>f_db\<close> is what a double becomes when it is printed into
  a statement and stored.\<close>

record 'f double_ops =
  f_lt :: "'f \<Rightarrow> 'f \<Rightarrow> bool"
  f_add :: "'f \<Rightarrow> 'f \<Rightarrow> 'f"
  f_mul :: "'f \<Rightarrow> 'f \<Rightarrow> 'f"
  f_div :: "'f \<Rightarrow> 'f \<Rightarrow> 'f"
  f_of_int :: "int \<Rightarrow> 'f"
  f_of_bits :: "u64 \<Rightarrow> 'f"
  f_bits :: "'f \<Rightarrow> u64"
  f_db :: "'f \<Rightarrow> 'f"

text \<open>Trends hold no strings, so the pointer member of the union is not read.\<close>

definition as_float :: "'f double_ops \<Rightarrow> ('f, 'p) hvalue \<Rightarrow> 'f" where
  "as_float D v = (case v of HFloat x \<Rightarrow> x | HUint w \<Rightarrow> f_of_bits D w | HStr p \<Rightarrow> f_of_bits D 0)"

definition as_uint :: "'f double_ops \<Rightarrow> ('f, 'p) hvalue \<Rightarrow> u64" where
  "as_uint D v = (case v of HFloat x \<Rightarrow> f_bits D x | HUint w \<Rightarrow> w | HStr p \<Rightarrow> 0)"

record 'f dc_trend =
  t_itemid :: u64
  t_clock :: int
  t_num :: int
  t_value_type :: value_type
  t_min :: "('f, nat) hvalue"
  t_avg :: "('f, nat) hvalue"
  t_max :: "('f, nat) hvalue"

text \<open>A row of the table \<open>trends\<close> or \<open>trends_uint\<close>, named by the value type, the
  item and the hour.\<close>

type_synonym trend_key = "value_type \<times> u64 \<times> int"

record 'f trend_row =
  r_num :: int
  r_min :: "('f, nat) hvalue"
  r_avg :: "('f, nat) hvalue"
  r_max :: "('f, nat) hvalue"

type_synonym 'f trend_db = "trend_key \<Rightarrow> 'f trend_row option"

datatype 'f trend_sql = InsertTrend trend_key "'f trend_row" | UpdateTrend trend_key "'f trend_row"

subsection \<open>The sorted array\<close>

definition DCget_trend_nearestindex :: "'f dc_trend list \<Rightarrow> u64 \<Rightarrow> nat" where
  "DCget_trend_nearestindex trends item =
     (if trends = [] then 0 else nearest_loop t_itemid trends item 0 (length trends - 1))"

interpretation trend_array: keyed_array t_itemid DCget_trend_nearestindex
  by (rule nearest_entry_contract) (simp add: DCget_trend_nearestindex_def)

text \<open>\<open>memset (0)\<close> sets every member of the unions to zero bits, and \<open>value_type\<close> to
  the first of the enumeration.\<close>

definition zero_trend :: "u64 \<Rightarrow> 'f dc_trend" where
  "zero_trend item = \<lparr>t_itemid = item, t_clock = 0, t_num = 0, t_value_type = VT_FLOAT,
     t_min = HUint 0, t_avg = HUint 0, t_max = HUint 0\<rparr>"

text \<open>The position of the item's trend and the array; \<open>None\<close> when the array is full.\<close>

definition DCget_trend :: "'f dc_trend list \<Rightarrow> u64 \<Rightarrow> (nat \<times> 'f dc_trend list) option" where
  "DCget_trend trends item =
     (let index = DCget_trend_nearestindex trends item
      in if index < length trends \<and> t_itemid (trends ! index) = item then Some (index, trends)
         else if length trends = ZBX_TREND_SIZE then None
         else Some (index, take index trends @ zero_trend item # drop index trends))"

subsection \<open>Flushing\<close>

text \<open>\<open>NullTrend\<close> is the dereference of a NULL pointer, \<open>InvalidType\<close> the
  \<open>exit (-1)\<close> for a value type that has no trends.\<close>

datatype trend_error = NullTrend | InvalidType

definition row_of :: "'f double_ops \<Rightarrow> 'f dc_trend \<Rightarrow> 'f trend_row" where
  "row_of D t =
     (let store = (\<lambda>v. if t_value_type t = VT_FLOAT then HFloat (f_db D (as_float D v)) else HUint (as_uint D v))
      in \<lparr>r_num = t_num t, r_min = store (t_min t), r_avg = store (t_avg t), r_max = store (t_max t)\<rparr>)"

definition merge_trend :: "'f double_ops \<Rightarrow> 'f dc_trend \<Rightarrow> 'f trend_row \<Rightarrow> 'f dc_trend" where
  "merge_trend D t row =
     (let num = r_num row
      in if t_value_type t = VT_FLOAT then
           t\<lparr>t_min := (if f_lt D (as_float D (r_min row)) (as_float D (t_min t)) then HFloat (as_float D (r_min row)) else t_min t),
             t_max := (if f_lt D (as_float D (t_max t)) (as_float D (r_max row)) then HFloat (as_float D (r_max row)) else t_max t),
             t_avg := HFloat (f_div D (f_add D (f_mul D (f_of_int D (t_num t)) (as_float D (t_avg t)))
                                               (f_mul D (f_of_int D num) (as_float D (r_avg row))))
                                      (f_of_int D (t_num t + num))),
             t_num := t_num t + num\<rparr>
         else
           t\<lparr>t_min := (if as_uint D (r_min row) < as_uint D (t_min t) then HUint (as_uint D (r_min row)) else t_min t),
             t_max := (if as_uint D (t_max t) < as_uint D (r_max row) then HUint (as_uint D (r_max row)) else t_max t),
             t_avg := HUint ((of_int (t_num t) * as_uint D (t_avg t) + of_int num * as_uint D (r_avg row))
                             div of_int (t_num t + num)),
             t_num := t_num t + num\<rparr>)"

definition DCflush_trend :: "'f double_ops \<Rightarrow> 'f trend_db \<Rightarrow> 'f dc_trend \<Rightarrow> trend_error + ('f trend_sql \<times> 'f dc_trend)" where
  "DCflush_trend D db t =
     (if t_value_type t = VT_FLOAT \<or> t_value_type t = VT_UINT64 then
        let key = (t_value_type t, t_itemid t, t_clock t);
            (stmt, t1) = (case db key of
                            Some row \<Rightarrow> (let u = merge_trend D t row in (UpdateTrend key (row_of D u), u))
                          | None \<Rightarrow> (InsertTrend key (row_of D t), t))
        in Inr (stmt, t1\<lparr>t_clock := 0, t_num := 0, t_min := HUint 0, t_avg := HUint 0, t_max := HUint 0\<rparr>)
      else Inl InvalidType)"

subsection \<open>Adding a value\<close>

definition add_value :: "'f double_ops \<Rightarrow> ('f, nat) hvalue \<Rightarrow> 'f dc_trend \<Rightarrow> 'f dc_trend" where
  "add_value D v t =
     (if t_value_type t = VT_FLOAT then
        t\<lparr>t_min := (if t_num t = 0 \<or> f_lt D (as_float D v) (as_float D (t_min t)) then HFloat (as_float D v) else t_min t),
          t_max := (if t_num t = 0 \<or> f_lt D (as_float D (t_max t)) (as_float D v) then HFloat (as_float D v) else t_max t),
          t_avg := HFloat (f_div D (f_add D (f_mul D (f_of_int D (t_num t)) (as_float D (t_avg t))) (as_float D v))
                                   (f_of_int D (t_num t + 1))),
          t_num := t_num t + 1\<rparr>
      else if t_value_type t = VT_UINT64 then
        t\<lparr>t_min := (if t_num t = 0 \<or> as_uint D v < as_uint D (t_min t) then HUint (as_uint D v) else t_min t),
          t_max := (if t_num t = 0 \<or> as_uint D (t_max t) < as_uint D v then HUint (as_uint D v) else t_max t),
          t_avg := HUint ((of_int (t_num t) * as_uint D (t_avg t) + as_uint D v) div of_int (t_num t + 1)),
          t_num := t_num t + 1\<rparr>
      else t)"

text \<open>The trends, and the statements collected in the SQL buffer.  With a full array the code
  fills a local trend and then flushes the NULL pointer it got from \<open>DCget_trend\<close>.\<close>

definition DCadd_trend :: "'f double_ops \<Rightarrow> 'f trend_db \<Rightarrow> ('f, string) dc_history
    \<Rightarrow> 'f dc_trend list \<times> 'f trend_sql list \<Rightarrow> trend_error + ('f dc_trend list \<times> 'f trend_sql list)" where
  "DCadd_trend D db h st =
     (let (trends, sql) = st;
          hour = clock h - trunc_mod (clock h) 3600
      in case DCget_trend trends (itemid h) of
           None \<Rightarrow> Inl NullTrend
         | Some (index, trends1) \<Rightarrow>
           let t = trends1 ! index;
               flushed = (if 0 < t_num t \<and> (t_clock t \<noteq> hour \<or> t_value_type t \<noteq> value_type h)
                          then (case DCflush_trend D db t of Inl e \<Rightarrow> Inl e | Inr (s, t1) \<Rightarrow> Inr (t1, sql @ [s]))
                          else Inr (t, sql))
           in case flushed of
                Inl e \<Rightarrow> Inl e
              | Inr (t1, sql1) \<Rightarrow>
                Inr (trends1[index := add_value D (hvalue h) (t1\<lparr>t_value_type := value_type h, t_clock := hour\<rparr>)], sql1))"

definition trend_wanted :: "('f, string) dc_history \<Rightarrow> bool" where
  "trend_wanted h \<longleftrightarrow> keep_trends h \<noteq> 0 \<and> (value_type h = VT_FLOAT \<or> value_type h = VT_UINT64) \<and> \<not> value_null h"

text \<open>Executing the buffer: an insert for a key that has a row is rejected by the database.\<close>

fun exec_trend :: "'f trend_db \<Rightarrow> 'f trend_sql \<Rightarrow> 'f trend_db option" where
  "exec_trend db (InsertTrend k r) = (if db k = None then Some (db(k \<mapsto> r)) else None)"
| "exec_trend db (UpdateTrend k r) = Some (if db k = None then db else db(k \<mapsto> r))"

fun exec_trends :: "'f trend_db \<Rightarrow> 'f trend_sql list \<Rightarrow> 'f trend_db option" where
  "exec_trends db [] = Some db"
| "exec_trends db (s # ss) = (case exec_trend db s of None \<Rightarrow> None | Some db1 \<Rightarrow> exec_trends db1 ss)"

text \<open>The loop of \<open>DCmass_update_trends\<close>: all flushes of the batch read the database as it
  was before the batch, and the statements are executed together at the end.\<close>

fun mass_update_loop :: "'f double_ops \<Rightarrow> 'f trend_db \<Rightarrow> ('f, string) dc_history list
    \<Rightarrow> 'f dc_trend list \<times> 'f trend_sql list \<Rightarrow> trend_error + ('f dc_trend list \<times> 'f trend_sql list)" where
  "mass_update_loop D db [] st = Inr st"
| "mass_update_loop D db (h # hs) st =
     (if \<not> trend_wanted h then mass_update_loop D db hs st
      else case DCadd_trend D db h st of
             Inl e \<Rightarrow> Inl e
           | Inr st1 \<Rightarrow> mass_update_loop D db hs st1)"

definition DCmass_update_trends :: "'f double_ops \<Rightarrow> ('f, string) dc_history list
    \<Rightarrow> 'f dc_trend list \<times> 'f trend_db \<Rightarrow> trend_error + ('f dc_trend list \<times> 'f trend_db option)" where
  "DCmass_update_trends D hs st =
     (let (trends, db) = st
      in case mass_update_loop D db hs (trends, []) of
           Inl e \<Rightarrow> Inl e
         | Inr (trends1, sql) \<Rightarrow> Inr (trends1, exec_trends db sql))"

fun flush_all :: "'f double_ops \<Rightarrow> 'f trend_db \<Rightarrow> 'f dc_trend list \<Rightarrow> trend_error + 'f trend_sql list" where
  "flush_all D db [] = Inr []"
| "flush_all D db (t # ts) =
     (case DCflush_trend D db t of
        Inl e \<Rightarrow> Inl e
      | Inr (s, t1) \<Rightarrow> (case flush_all D db ts of Inl e \<Rightarrow> Inl e | Inr ss \<Rightarrow> Inr (s # ss)))"

definition DCsync_trends :: "'f double_ops \<Rightarrow> 'f dc_trend list \<times> 'f trend_db \<Rightarrow> trend_error + ('f dc_trend list \<times> 'f trend_db option)" where
  "DCsync_trends D st =
     (let (trends, db) = st
      in case flush_all D db trends of Inl e \<Rightarrow> Inl e | Inr sql \<Rightarrow> Inr ([], exec_trends db sql))"

subsection \<open>A full array\<close>

text \<open>C40: when the array is full, a value of an item that has no trend makes the syncer
  dereference NULL instead of flushing the value.\<close>

theorem full_trends_crash:
  assumes "key_sorted t_itemid trends" "length trends = ZBX_TREND_SIZE" "itemid h \<notin> t_itemid ` set trends"
  shows "DCadd_trend D db h (trends, sql) = Inl NullTrend"
proof -
  have "\<not> trend_array.found trends (itemid h)" using trend_array.found_iff assms by blast
  then have "DCget_trend trends (itemid h) = None"
    using assms(2) by (simp add: DCget_trend_def trend_array.found_def Let_def)
  then show ?thesis by (simp add: DCadd_trend_def)
qed

lemma many_trends_sorted: "n \<le> 2 ^ 63 \<Longrightarrow> key_sorted t_itemid (map (\<lambda>i. zero_trend (of_nat i)) [0..<n])"
proof -
  assume n: "n \<le> 2 ^ 63"
  have "(of_nat i :: u64) < of_nat j" if "i < j" "j < n" for i j
    using that n by (simp add: word_less_nat_alt unat_of_nat take_bit_nat_eq_self)
  then show ?thesis by (auto simp: sorted_wrt_map zero_trend_def comp_def sorted_wrt_iff_nth_less)
qed

theorem full_trends_crash_witness:
  "DCadd_trend \<lparr>f_lt = (<), f_add = (+), f_mul = (*), f_div = (div), f_of_int = id, f_of_bits = uint, f_bits = of_int, f_db = id\<rparr>
     (\<lambda>k. None) (\<lparr>itemid = 200000, clock = 0, value_type = VT_UINT64, value_orig = HUint 1, hvalue = HUint 1,
       value_null = False, timestamp = 0, source = None, severity = 0, lastlogsize = 0, keep_history = 1,
       keep_trends = 1, has_functions = False\<rparr>)
     (map (\<lambda>i. zero_trend (of_nat i) :: int dc_trend) [0..<ZBX_TREND_SIZE], []) = Inl NullTrend"
proof (rule full_trends_crash)
  show "key_sorted t_itemid (map (\<lambda>i. zero_trend (of_nat i) :: int dc_trend) [0..<ZBX_TREND_SIZE])"
    by (rule many_trends_sorted) (simp add: ZBX_TREND_SIZE_def)
  have "(200000 :: u64) \<noteq> of_nat i" if "i < ZBX_TREND_SIZE" for i
  proof
    assume "(200000 :: u64) = of_nat i"
    then have "unat (200000 :: u64) = unat (of_nat i :: u64)" by simp
    then show False using that by (simp add: ZBX_TREND_SIZE_def unat_of_nat take_bit_nat_eq_self)
  qed
  then show "itemid \<lparr>itemid = 200000, clock = 0, value_type = VT_UINT64, value_orig = HUint 1, hvalue = HUint 1,
       value_null = False, timestamp = 0, source = None, severity = 0, lastlogsize = 0, keep_history = 1,
       keep_trends = 1, has_functions = False\<rparr> \<notin> t_itemid ` set (map (\<lambda>i. zero_trend (of_nat i)) [0..<ZBX_TREND_SIZE])"
    by (auto simp: zero_trend_def)
qed simp

subsection \<open>What cache and database hold together\<close>

text \<open>
  The abstract view of an integer trend is the number, the minimum and the maximum of the values
  of an item in an hour, wherever they are: in the database, in the cache, or in both.  (The average
  is a quotient of 64-bit products and sums that are rounded down at every step and may wrap, so no
  such law holds for it.)
\<close>

type_synonym stat = "int \<times> u64 \<times> u64"

fun combine :: "stat option \<Rightarrow> stat option \<Rightarrow> stat option" where
  "combine None y = y"
| "combine x None = x"
| "combine (Some (n, lo, hi)) (Some (m, lo', hi')) = Some (n + m, min lo lo', max hi hi')"

definition trend_stat :: "'f double_ops \<Rightarrow> 'f dc_trend \<Rightarrow> stat" where
  "trend_stat D t = (t_num t, as_uint D (t_min t), as_uint D (t_max t))"

definition row_stat :: "'f double_ops \<Rightarrow> 'f trend_row \<Rightarrow> stat" where
  "row_stat D r = (r_num r, as_uint D (r_min r), as_uint D (r_max r))"

definition stored :: "'f double_ops \<Rightarrow> 'f trend_db \<Rightarrow> u64 \<times> int \<Rightarrow> stat option" where
  "stored D db k = map_option (row_stat D) (db (VT_UINT64, k))"

definition trend_part :: "'f double_ops \<Rightarrow> 'f dc_trend option \<Rightarrow> int \<Rightarrow> stat option" where
  "trend_part D x hour =
     (case x of
        Some t \<Rightarrow> if 0 < t_num t \<and> t_value_type t = VT_UINT64 \<and> t_clock t = hour then Some (trend_stat D t) else None
      | None \<Rightarrow> None)"

definition in_cache :: "'f double_ops \<Rightarrow> 'f dc_trend list \<Rightarrow> u64 \<times> int \<Rightarrow> stat option" where
  "in_cache D trends k = trend_part D (tab t_itemid trends (fst k)) (snd k)"

definition total_stat :: "'f double_ops \<Rightarrow> 'f dc_trend list \<times> 'f trend_db \<Rightarrow> u64 \<times> int \<Rightarrow> stat option" where
  "total_stat D st k = combine (stored D (snd st) k) (in_cache D (fst st) k)"

lemma combine_assoc: "combine (combine x y) z = combine x (combine y z)"
  by (cases x; cases y; cases z) (auto simp: min.assoc max.assoc)

lemma combine_None [simp]: "combine x None = x"
  by (cases x) auto

definition trends_ok :: "'f dc_trend list \<Rightarrow> bool" where
  "trends_ok trends \<longleftrightarrow> key_sorted t_itemid trends \<and> length trends \<le> ZBX_TREND_SIZE
     \<and> (\<forall>t \<in> set trends. 0 < t_num t \<and> (t_value_type t = VT_FLOAT \<or> t_value_type t = VT_UINT64))"

definition stmt_item :: "'f trend_sql \<Rightarrow> u64" where
  "stmt_item s = (case s of InsertTrend k r \<Rightarrow> fst (snd k) | UpdateTrend k r \<Rightarrow> fst (snd k))"

lemma exec_trend_frame: "exec_trend db s = Some db' \<Longrightarrow> fst (snd k) \<noteq> stmt_item s \<Longrightarrow> db' k = db k"
  by (cases s) (auto simp: stmt_item_def split: if_splits)

lemma exec_trends_frame:
  "exec_trends db ss = Some db' \<Longrightarrow> fst (snd k) \<notin> stmt_item ` set ss \<Longrightarrow> db' k = db k"
proof (induction ss arbitrary: db)
  case (Cons s ss)
  then obtain db1 where "exec_trend db s = Some db1" "exec_trends db1 ss = Some db'" by (auto split: option.splits)
  with Cons show ?case using exec_trend_frame [of db s db1 k] by simp
qed simp

lemma exec_trends_append:
  "exec_trends db (ss @ ts) = (case exec_trends db ss of None \<Rightarrow> None | Some db1 \<Rightarrow> exec_trends db1 ts)"
  by (induction ss arbitrary: db) (auto split: option.splits)

text \<open>A flush moves the cached part into the database and never fails there.\<close>

lemma flush_stored:
  assumes "DCflush_trend D db t = Inr (s, t1)"
  shows "\<exists>db'. exec_trend db s = Some db'
     \<and> (\<forall>k. stored D db' k = (if t_value_type t = VT_UINT64 \<and> k = (t_itemid t, t_clock t)
                              then combine (stored D db k) (Some (trend_stat D t)) else stored D db k))
     \<and> stmt_item s = t_itemid t \<and> t_itemid t1 = t_itemid t \<and> t_num t1 = 0 \<and> t_value_type t1 = t_value_type t"
proof -
  let ?k = "(t_value_type t, t_itemid t, t_clock t)"
  have ty: "t_value_type t = VT_FLOAT \<or> t_value_type t = VT_UINT64"
    using assms by (auto simp: DCflush_trend_def split: if_splits)
  show ?thesis
  proof (cases "db ?k")
    case None
    then show ?thesis using assms ty
      by (auto simp: DCflush_trend_def Let_def stored_def stmt_item_def row_of_def row_stat_def trend_stat_def as_uint_def
          split: hvalue.splits)
  next
    case (Some row)
    then show ?thesis using assms ty
      by (auto simp: DCflush_trend_def Let_def stored_def stmt_item_def row_of_def row_stat_def trend_stat_def
          merge_trend_def as_uint_def [of D "HUint w" for w] min_def max_def split: if_splits)
  qed
qed

lemma DCget_trend_Some:
  assumes s: "key_sorted t_itemid trends" and g: "DCget_trend trends item = Some (idx, tr1)"
  shows "idx < length tr1" "t_itemid (tr1 ! idx) = item"
    and "tab t_itemid trends item = Some (tr1 ! idx) \<or> tab t_itemid trends item = None \<and> tr1 ! idx = zero_trend item"
    and "set tr1 \<subseteq> insert (zero_trend item) (set trends)"
    and "length trends \<le> ZBX_TREND_SIZE \<Longrightarrow> length tr1 \<le> ZBX_TREND_SIZE"
    and "set (tr1[idx := e]) \<subseteq> insert e (set trends)"
    and "t_itemid e = item \<Longrightarrow> tab t_itemid (tr1[idx := e]) = (tab t_itemid trends)(item \<mapsto> e) \<and> key_sorted t_itemid (tr1[idx := e])"
proof -
  let ?n = "DCget_trend_nearestindex trends item"
  have le: "?n \<le> length trends" by (rule trend_array.nearest_le [OF s])
  show "idx < length tr1" "t_itemid (tr1 ! idx) = item"
    using g le by (auto simp: DCget_trend_def Let_def nth_append zero_trend_def split: if_splits)
  show "set tr1 \<subseteq> insert (zero_trend item) (set trends)"
    using g set_take_subset [of ?n trends] set_drop_subset [of ?n trends] by (auto simp: DCget_trend_def Let_def split: if_splits)
  show "length trends \<le> ZBX_TREND_SIZE \<Longrightarrow> length tr1 \<le> ZBX_TREND_SIZE"
    using g le by (auto simp: DCget_trend_def Let_def split: if_splits)
  show "set (tr1[idx := e]) \<subseteq> insert e (set trends)"
  proof (cases "tr1 = trends")
    case True
    then show ?thesis by (simp add: set_update_subset_insert)
  next
    case False
    then have "idx = ?n" "tr1 = take ?n trends @ zero_trend item # drop ?n trends"
      using g by (auto simp: DCget_trend_def Let_def split: if_splits)
    then have "tr1[idx := e] = take ?n trends @ e # drop ?n trends" using le by (simp add: list_update_append)
    then show ?thesis using set_take_subset [of ?n trends] set_drop_subset [of ?n trends] by auto
  qed
  have both: "(tab t_itemid trends item = Some (tr1 ! idx) \<or> tab t_itemid trends item = None \<and> tr1 ! idx = zero_trend item)
    \<and> (t_itemid e = item \<longrightarrow> tab t_itemid (tr1[idx := e]) = (tab t_itemid trends)(item \<mapsto> e) \<and> key_sorted t_itemid (tr1[idx := e]))"
    (is "?A \<and> ?B")
  proof (cases "trend_array.found trends item")
    case True
    then have eq: "idx = ?n" "tr1 = trends" using g by (auto simp: DCget_trend_def trend_array.found_def Let_def)
    have k: "t_itemid (trends ! ?n) = item" using True by (simp add: trend_array.found_def)
    have a: ?A
      using trend_array.found_tab [OF s True] eq by simp
    have b: ?B
      using trend_array.update_tab [OF s True] trend_array.update_sorted [OF s, of e ?n] k eq by simp
    show ?thesis using a b by (rule conjI)
  next
    case False
    then have eq: "idx = ?n" "tr1 = take ?n trends @ zero_trend item # drop ?n trends"
      using g by (auto simp: DCget_trend_def trend_array.found_def Let_def split: if_splits)
    have a: ?A
      using trend_array.not_found_tab [OF s False] eq le by (simp add: nth_append)
    have "tr1[idx := e] = take ?n trends @ e # drop ?n trends" using eq le by (simp add: list_update_append)
    then have b: ?B
      using trend_array.insert_sorted [OF s, of e] trend_array.insert_tab [OF s, of e] False by auto
    show ?thesis using a b by (rule conjI)
  qed
  then show "tab t_itemid trends item = Some (tr1 ! idx) \<or> tab t_itemid trends item = None \<and> tr1 ! idx = zero_trend item"
    and "t_itemid e = item \<Longrightarrow> tab t_itemid (tr1[idx := e]) = (tab t_itemid trends)(item \<mapsto> e) \<and> key_sorted t_itemid (tr1[idx := e])" by auto
qed

lemma add_value_part:
  assumes "0 \<le> t_num t"
  shows "trend_part D (Some (add_value D v (t\<lparr>t_value_type := VT_UINT64, t_clock := hour\<rparr>))) hour
      = combine (if t_num t = 0 then None else Some (trend_stat D t)) (Some (1, as_uint D v, as_uint D v))"
    and "trend_part D (Some (add_value D v (t\<lparr>t_value_type := VT_UINT64, t_clock := hour\<rparr>))) other
      = (if other = hour then combine (if t_num t = 0 then None else Some (trend_stat D t)) (Some (1, as_uint D v, as_uint D v)) else None)"
    and "trend_part D (Some (add_value D v (t\<lparr>t_value_type := VT_FLOAT, t_clock := hour\<rparr>))) other = None"
    and "t_itemid (add_value D v t) = t_itemid t" "0 \<le> t_num (add_value D v t)"
      "t_value_type t = VT_FLOAT \<or> t_value_type t = VT_UINT64 \<Longrightarrow> 0 < t_num (add_value D v t)"
      "t_value_type (add_value D v t) = t_value_type t"
  using assms by (auto simp: add_value_def trend_part_def trend_stat_def as_uint_def [of D "HUint w" for w] min_def max_def
      split: if_splits)

text \<open>One value: the flush and the update of the array together add it to its hour's total.\<close>

definition add_stat :: "'f double_ops \<Rightarrow> ('f, string) dc_history \<Rightarrow> (u64 \<times> int \<Rightarrow> stat option) \<Rightarrow> (u64 \<times> int \<Rightarrow> stat option)" where
  "add_stat D h f =
     (if value_type h = VT_UINT64 then
        (let k = (itemid h, clock h - trunc_mod (clock h) 3600); v = as_uint D (hvalue h)
         in f(k := combine (f k) (Some (1, v, v))))
      else f)"

lemma in_cache_part: "tab t_itemid trends' = (tab t_itemid trends)(i \<mapsto> e) \<Longrightarrow>
    in_cache D trends' k = (if fst k = i then trend_part D (Some e) (snd k) else in_cache D trends k)"
  by (simp add: in_cache_def)

lemma DCadd_trend_step:
  assumes ok: "trends_ok trends" and ty: "value_type h = VT_FLOAT \<or> value_type h = VT_UINT64"
    and add: "DCadd_trend D db h (trends, []) = Inr (trends', sql)"
  shows "\<exists>db'. exec_trends db sql = Some db' \<and> trends_ok trends'
     \<and> total_stat D (trends', db') = add_stat D h (total_stat D (trends, db)) \<and> (\<forall>s \<in> set sql. stmt_item s = itemid h)"
proof -
  let ?i = "itemid h" and ?v = "hvalue h"
  define hour where "hour = clock h - trunc_mod (clock h) 3600"
  have s: "key_sorted t_itemid trends" using ok by (simp add: trends_ok_def)
  obtain idx tr1 where g: "DCget_trend trends ?i = Some (idx, tr1)"
    using add by (cases "DCget_trend trends ?i") (auto simp: DCadd_trend_def Let_def)
  define t where "t = tr1 ! idx"
  note tr = DCget_trend_Some [OF s g, folded t_def]
  have zero: "0 \<le> t_num (zero_trend ?i)" "t_num (zero_trend ?i) = 0" "t_value_type (zero_trend ?i) = VT_FLOAT"
    by (simp_all add: zero_trend_def)
  have "t \<in> set tr1" using tr(1) by (simp add: t_def)
  then have tn: "0 \<le> t_num t" "t_value_type t = VT_FLOAT \<or> t_value_type t = VT_UINT64"
    using tr(4) ok zero by (fastforce simp: trends_ok_def)+
  define flush where "flush \<longleftrightarrow> 0 < t_num t \<and> (t_clock t \<noteq> hour \<or> t_value_type t \<noteq> value_type h)"
  define e where "e = (\<lambda>t1. add_value D ?v (t1\<lparr>t_value_type := value_type h, t_clock := hour\<rparr>))"
  have finish: "trends_ok (tr1[idx := e t1]) \<and> tab t_itemid (tr1[idx := e t1]) = (tab t_itemid trends)(?i \<mapsto> e t1)"
    if "t_itemid t1 = ?i" "0 \<le> t_num t1" for t1
  proof -
    have e1: "t_itemid (e t1) = ?i" "0 < t_num (e t1)" "t_value_type (e t1) = value_type h"
      using that ty add_value_part(4,6,7) [of "t1\<lparr>t_value_type := value_type h, t_clock := hour\<rparr>" D ?v]
      by (simp_all add: e_def)
    have "0 < t_num u \<and> (t_value_type u = VT_FLOAT \<or> t_value_type u = VT_UINT64)"
      if "u \<in> set (tr1[idx := e t1])" for u
      using that e1 ty ok tr(6) [of "e t1"] by (auto simp: trends_ok_def)
    then show ?thesis using tr(5) tr(7) [OF e1(1)] ok by (simp add: trends_ok_def)
  qed
  show ?thesis
  proof (cases flush)
    case False
    then have r: "trends' = tr1[idx := e t]" "sql = []"
      using add g by (auto simp: DCadd_trend_def Let_def hour_def [symmetric] t_def [symmetric] flush_def e_def)
    have old: "in_cache D trends (?i, c) = (if t_num t \<noteq> 0 \<and> t_value_type t = VT_UINT64 \<and> c = hour then Some (trend_stat D t) else None)" for c
      using tr(3) zero False tn by (auto simp: in_cache_def trend_part_def flush_def)
    have new: "trend_part D (Some (e t)) c = (if value_type h = VT_UINT64 \<and> c = hour
        then combine (in_cache D trends (?i, c)) (Some (1, as_uint D ?v, as_uint D ?v)) else in_cache D trends (?i, c))" for c
      unfolding old using add_value_part(2,3) [OF tn(1), of D ?v hour c] ty False tn(1) by (auto simp: e_def flush_def)
    have "total_stat D (trends', db) k = add_stat D h (total_stat D (trends, db)) k" for k
      using finish [OF tr(2) tn(1)] new [of "snd k"] hour_def
      by (cases k) (auto simp: r total_stat_def add_stat_def Let_def in_cache_part combine_assoc)
    then show ?thesis using finish [OF tr(2) tn(1)] r by auto
  next
    case True
    then obtain st t1 where fl: "DCflush_trend D db t = Inr (st, t1)" and r: "trends' = tr1[idx := e t1]" "sql = [st]"
      using add g by (auto simp: DCadd_trend_def Let_def hour_def [symmetric] t_def [symmetric] flush_def e_def split: sum.splits)
    from flush_stored [OF fl] obtain db' where db': "exec_trend db st = Some db'"
      "\<And>k. stored D db' k = (if t_value_type t = VT_UINT64 \<and> k = (t_itemid t, t_clock t)
          then combine (stored D db k) (Some (trend_stat D t)) else stored D db k)"
      "stmt_item st = t_itemid t" "t_itemid t1 = t_itemid t" "t_num t1 = 0" by blast
    have "0 < t_num t" using True by (simp add: flush_def)
    then have "t \<noteq> zero_trend ?i" using zero(2) by (metis less_irrefl)
    then have "tab t_itemid trends ?i = Some t" using tr(3) by blast
    then have st: "stored D db' (?i, c) = combine (stored D db (?i, c)) (in_cache D trends (?i, c))" for c
      using db'(2) [of "(?i, c)"] tr(2) True by (auto simp: in_cache_def trend_part_def flush_def)
    have st2: "stored D db' k = stored D db k" if "fst k \<noteq> ?i" for k using db'(2) [of k] tr(2) that by auto
    have t1: "t_itemid t1 = ?i" "0 \<le> t_num t1" using db'(4,5) tr(2) by simp_all
    have new: "trend_part D (Some (e t1)) c = (if value_type h = VT_UINT64 \<and> c = hour then Some (1, as_uint D ?v, as_uint D ?v) else None)" for c
      using add_value_part(2,3) [OF t1(2), of D ?v hour c] ty db'(5) by (auto simp: e_def)
    have "total_stat D (trends', db') k = add_stat D h (total_stat D (trends, db)) k" for k
      using finish [OF t1] new [of "snd k"] st [of "snd k"] st2 [of k] hour_def
      by (cases k) (auto simp: r total_stat_def add_stat_def Let_def in_cache_part combine_assoc)
    then show ?thesis using finish [OF t1] r db'(1,3) tr(2) by auto
  qed
qed

text \<open>Within a batch the database read by the flushes lags behind the statements collected.
  That does no harm while no two values are of the same item.\<close>

lemma DCadd_trend_lag:
  assumes "\<forall>k. fst (snd k) = itemid h \<longrightarrow> db k = db1 k" "key_sorted t_itemid trends"
  shows "DCadd_trend D db h (trends, ss) = map_sum id (\<lambda>(tr, s). (tr, ss @ s)) (DCadd_trend D db1 h (trends, []))"
proof (cases "DCget_trend trends (itemid h)")
  case (Some r)
  then obtain idx tr1 where g: "DCget_trend trends (itemid h) = Some (idx, tr1)" by (cases r) auto
  have "t_itemid (tr1 ! idx) = itemid h" by (rule DCget_trend_Some(2) [OF assms(2) g])
  then have "DCflush_trend D db (tr1 ! idx) = DCflush_trend D db1 (tr1 ! idx)"
    using assms(1) by (simp add: DCflush_trend_def)
  then show ?thesis using g by (auto simp: DCadd_trend_def Let_def split: sum.splits)
qed (simp add: DCadd_trend_def Let_def)

definition wanted :: "('f, string) dc_history list \<Rightarrow> ('f, string) dc_history list" where
  "wanted hs = filter trend_wanted hs"

lemma mass_update_loop_total:
  assumes "trends_ok trends" "distinct (map itemid hs)" "exec_trends db ss = Some db1"
    and "stmt_item ` set ss \<inter> itemid ` set hs = {}"
    and "mass_update_loop D db hs (trends, ss) = Inr (trends', ss')"
  shows "\<exists>db'. exec_trends db ss' = Some db' \<and> trends_ok trends'
     \<and> total_stat D (trends', db') = fold (add_stat D) (wanted hs) (total_stat D (trends, db1))"
  using assms
proof (induction hs arbitrary: trends ss db1)
  case (Cons h hs)
  show ?case
  proof (cases "trend_wanted h")
    case False
    then show ?thesis using Cons by (simp add: wanted_def)
  next
    case True
    then have ty: "value_type h = VT_FLOAT \<or> value_type h = VT_UINT64" by (simp add: trend_wanted_def)
    have lag: "\<forall>k. fst (snd k) = itemid h \<longrightarrow> db k = db1 k"
      using exec_trends_frame [OF Cons.prems(3)] Cons.prems(4) by fastforce
    obtain tr ss1 where a: "DCadd_trend D db h (trends, ss) = Inr (tr, ss1)" "mass_update_loop D db hs (tr, ss1) = Inr (trends', ss')"
      using Cons.prems(5) True by (auto split: sum.splits)
    have s: "key_sorted t_itemid trends" using Cons.prems(1) by (simp add: trends_ok_def)
    obtain sq where sq: "DCadd_trend D db1 h (trends, []) = Inr (tr, sq)" "ss1 = ss @ sq"
      using a(1) DCadd_trend_lag [OF lag s, of D ss] by (cases "DCadd_trend D db1 h (trends, [])") auto
    obtain db2 where db2: "exec_trends db1 sq = Some db2" "trends_ok tr"
      "total_stat D (tr, db2) = add_stat D h (total_stat D (trends, db1))" "\<forall>x \<in> set sq. stmt_item x = itemid h"
      using DCadd_trend_step [OF Cons.prems(1) ty sq(1)] by blast
    have e: "exec_trends db ss1 = Some db2" using Cons.prems(3) db2(1) sq(2) by (simp add: exec_trends_append)
    have dis: "stmt_item ` set ss1 \<inter> itemid ` set hs = {}"
      using Cons.prems(2,4) db2(4) sq(2) by auto
    show ?thesis
      using Cons.IH [OF db2(2) _ e dis a(2)] Cons.prems(2) True db2(3) by (simp add: wanted_def)
  qed
qed (simp add: wanted_def)



lemma DCflush_trend_cong:
  "\<forall>k. fst (snd k) = t_itemid t \<longrightarrow> db k = db1 k \<Longrightarrow> DCflush_trend D db t = DCflush_trend D db1 t"
  by (simp add: DCflush_trend_def)

lemma flush_all_stored:
  assumes "\<forall>t \<in> set ts. t_value_type t = VT_FLOAT \<or> t_value_type t = VT_UINT64" "distinct (map t_itemid ts)"
    and "\<forall>t \<in> set ts. \<forall>k. fst (snd k) = t_itemid t \<longrightarrow> db k = db1 k"
  shows "\<exists>ss db'. flush_all D db ts = Inr ss \<and> exec_trends db1 ss = Some db'
     \<and> (\<forall>k. stored D db' k = combine (stored D db1 k)
          (case tab t_itemid ts (fst k) of
             Some t \<Rightarrow> if t_value_type t = VT_UINT64 \<and> t_clock t = snd k then Some (trend_stat D t) else None
           | None \<Rightarrow> None))"
  using assms
proof (induction ts arbitrary: db1)
  case Nil
  then show ?case by (simp add: tab_def)
next
  case (Cons t ts)
  obtain s t1 where fl: "DCflush_trend D db1 t = Inr (s, t1)"
    using Cons.prems(1) by (cases "DCflush_trend D db1 t") (auto simp: DCflush_trend_def Let_def split: if_splits option.splits)
  have fl': "DCflush_trend D db t = Inr (s, t1)"
    using DCflush_trend_cong [of t db db1 D] Cons.prems(3) fl by simp
  from flush_stored [OF fl] obtain db2 where db2: "exec_trend db1 s = Some db2"
    "\<And>k. stored D db2 k = (if t_value_type t = VT_UINT64 \<and> k = (t_itemid t, t_clock t)
        then combine (stored D db1 k) (Some (trend_stat D t)) else stored D db1 k)" "stmt_item s = t_itemid t" by blast
  have "\<forall>u \<in> set ts. \<forall>k. fst (snd k) = t_itemid u \<longrightarrow> db k = db2 k"
    using Cons.prems(2,3) exec_trend_frame [OF db2(1)] db2(3) by (metis distinct.simps(2) image_eqI list.set_intros(2) list.simps(9) set_map)
  then obtain ss db' where r: "flush_all D db ts = Inr ss" "exec_trends db2 ss = Some db'"
    "\<And>k. stored D db' k = combine (stored D db2 k)
          (case tab t_itemid ts (fst k) of
             Some t \<Rightarrow> if t_value_type t = VT_UINT64 \<and> t_clock t = snd k then Some (trend_stat D t) else None
           | None \<Rightarrow> None)"
    using Cons.IH [of db2] Cons.prems(1,2) by auto
  have none: "tab t_itemid ts (t_itemid t) = None" using Cons.prems(2) by (metis distinct.simps(2) dom_tab domIff list.simps(9) set_map)
  have tab: "tab t_itemid (t # ts) i = (if i = t_itemid t then Some t else tab t_itemid ts i)" for i
    by (simp add: tab_def)
  show ?case
    using fl' r db2 none by (auto simp: tab split: option.split)
qed



end
