(* ===== verification/SqlEscape.thy ===== *)
theory SqlEscape
  imports Prelude
begin

section \<open>Text that goes into SQL\<close>

text \<open>
  \<open>DBescape_string\<close>, \<open>DBdyn_escape_string\<close>, \<open>DBdyn_escape_string_len\<close> and
  \<open>DBadd_condition_alloc\<close> of \<open>libs/zbxdbhigh/db.c\<close>.  Every string the server writes
  to the database passes through the first three; the last one builds the conditions on lists of
  ids.  The database the server is compiled for is an argument.
\<close>

datatype db_kind = MySQL | PostgreSQL | Oracle | SQLite3

text \<open>The characters that get an escape character: the quote, and the backslash where the
  database reads it as one.\<close>

definition needs_escape :: "db_kind \<Rightarrow> char \<Rightarrow> bool" where
  "needs_escape db c \<longleftrightarrow> c = CHR 0x27 \<or> (db \<noteq> Oracle \<and> db \<noteq> SQLite3 \<and> c = CHR 0x5C)"

definition escape_char :: "db_kind \<Rightarrow> char \<Rightarrow> char" where
  "escape_char db c =
     (case db of PostgreSQL \<Rightarrow> c | MySQL \<Rightarrow> CHR 0x5C | Oracle \<Rightarrow> CHR 0x27 | SQLite3 \<Rightarrow> CHR 0x27)"

text \<open>The loop; \<open>len\<close> is the room without the terminator.\<close>

fun escape_loop :: "db_kind \<Rightarrow> string \<Rightarrow> nat \<Rightarrow> string" where
  "escape_loop db [] len = []"
| "escape_loop db (c # s) len =
     (if len = 0 then []
      else if c = CHR 0x0D then escape_loop db s len
      else if needs_escape db c then
        (if len < 2 then [] else escape_char db c # c # escape_loop db s (len - 2))
      else c # escape_loop db s (len - 1))"

text \<open>\<open>dst\<close> has \<open>len\<close> bytes, at least one; a NULL source gives the empty string.\<close>

definition DBescape_string :: "db_kind \<Rightarrow> string option \<Rightarrow> nat \<Rightarrow> string" where
  "DBescape_string db src len = (case src of None \<Rightarrow> [] | Some s \<Rightarrow> escape_loop db s (len - 1))"

fun escaped_length :: "db_kind \<Rightarrow> string \<Rightarrow> nat" where
  "escaped_length db [] = 0"
| "escaped_length db (c # s) =
     (if c = CHR 0x0D then escaped_length db s
      else (if needs_escape db c then 2 else 1) + escaped_length db s)"

definition DBdyn_escape_string :: "db_kind \<Rightarrow> string option \<Rightarrow> string" where
  "DBdyn_escape_string db src =
     DBescape_string db src (1 + (case src of None \<Rightarrow> 0 | Some s \<Rightarrow> escaped_length db s))"

fun escaped_length_len :: "db_kind \<Rightarrow> string \<Rightarrow> nat \<Rightarrow> nat" where
  "escaped_length_len db [] n = 0"
| "escaped_length_len db (c # s) n =
     (if n = 0 then 0
      else if c = CHR 0x0D then escaped_length_len db s n
      else (if needs_escape db c then 2 else 1) + escaped_length_len db s (n - 1))"

definition DBdyn_escape_string_len :: "db_kind \<Rightarrow> string option \<Rightarrow> nat \<Rightarrow> string" where
  "DBdyn_escape_string_len db src max_src_len =
     DBescape_string db src (1 + (case src of None \<Rightarrow> 0 | Some s \<Rightarrow> escaped_length_len db s max_src_len))"

subsection \<open>What is written\<close>

definition drop_cr :: "string \<Rightarrow> string" where
  "drop_cr s = filter (\<lambda>c. c \<noteq> CHR 0x0D) s"

definition escaped :: "db_kind \<Rightarrow> string \<Rightarrow> string" where
  "escaped db s = concat (map (\<lambda>c. if needs_escape db c then [escape_char db c, c] else [c]) s)"

lemma drop_cr_simps [simp]: "drop_cr [] = []" "drop_cr (c # s) = (if c = CHR 0x0D then drop_cr s else c # drop_cr s)"
  by (simp_all add: drop_cr_def)

lemma escaped_simps [simp]:
  "escaped db [] = []" "escaped db (c # s) = (if needs_escape db c then escape_char db c # c # escaped db s else c # escaped db s)"
  by (simp_all add: escaped_def)

lemma escape_loop_full: "escape_loop db s (escaped_length db s) = escaped db (drop_cr s)"
proof (induction s)
  case (Cons c s)
  have cr: "escape_loop db s 0 = []" for s by (cases s) simp_all
  have zero: "escaped_length db s = 0 \<Longrightarrow> drop_cr s = []" for s
    by (induction s) (auto split: if_splits)
  show ?case using Cons zero [of s] by (auto simp: cr)
qed simp

lemma escape_loop_len: "escape_loop db s (escaped_length_len db s n) = escaped db (take n (drop_cr s))"
proof (induction s arbitrary: n)
  case (Cons c s)
  have zero: "escaped_length_len db s n = 0 \<Longrightarrow> take n (drop_cr s) = []" for s n
    by (induction s arbitrary: n) (auto split: if_splits)
  have nr: "\<not> needs_escape db CHR 0x0D" by (simp add: needs_escape_def)
  show ?case
  proof (cases n)
    case (Suc m)
    then show ?thesis using Cons [of n] Cons [of m] zero [of s n] nr by (auto simp: take_Cons')
  qed simp
qed simp

lemma escaped_length_fits: "length (escape_loop db s n) \<le> n"
  by (induction db s n rule: escape_loop.induct) auto

text \<open>The documented reading of a quoted literal: MySQL takes a backslash as an escape (of the
  quote and of itself, the only two written here) and a doubled quote as a quote; PostgreSQL, with
  the escapes of its string syntax of that time, likewise; Oracle and SQLite know only the doubled
  quote.  The result is the value and what follows the closing quote.\<close>

fun read_literal :: "db_kind \<Rightarrow> string \<Rightarrow> (string \<times> string) option" where
  "read_literal db [] = None"
| "read_literal db [c] = (if c = CHR 0x27 then Some ([], []) else None)"
| "read_literal db (c # d # s) =
     (if c = CHR 0x5C \<and> (db = MySQL \<or> db = PostgreSQL) then map_option (\<lambda>(v, r). (d # v, r)) (read_literal db s)
      else if c = CHR 0x27 then
        (if d = CHR 0x27 then map_option (\<lambda>(v, r). (d # v, r)) (read_literal db s) else Some ([], d # s))
      else map_option (\<lambda>(v, r). (c # v, r)) (read_literal db (d # s)))"

lemma read_literal_plain:
  "\<not> needs_escape db c \<Longrightarrow> s \<noteq> [] \<Longrightarrow> read_literal db (c # s) = map_option (\<lambda>(v, r). (c # v, r)) (read_literal db s)"
  by (cases s; cases db) (auto simp: needs_escape_def)

lemma read_literal_escaped:
  assumes "rest = [] \<or> hd rest \<noteq> CHR 0x27"
  shows "read_literal db (escaped db s @ CHR 0x27 # rest) = Some (s, rest)"
proof (induction s)
  case Nil
  then show ?case using assms by (cases rest; cases db) auto
next
  case (Cons c s)
  show ?case
  proof (cases "needs_escape db c")
    case True
    then show ?thesis using Cons by (cases db) (auto simp: escape_char_def needs_escape_def)
  next
    case False
    then show ?thesis using Cons by (simp add: read_literal_plain)
  qed
qed

lemma escape_reads:
  assumes "rest = [] \<or> hd rest \<noteq> CHR 0x27"
  shows "read_literal db (DBdyn_escape_string db (Some s) @ CHR 0x27 # rest) = Some (drop_cr s, rest)
    \<and> read_literal db (DBdyn_escape_string_len db (Some s) n @ CHR 0x27 # rest) = Some (take n (drop_cr s), rest)"
  using read_literal_escaped [OF assms]
  by (simp add: DBdyn_escape_string_def DBdyn_escape_string_len_def DBescape_string_def escape_loop_full escape_loop_len)



subsection \<open>Conditions on lists of ids\<close>

definition MAX_EXPRESSIONS :: nat where "MAX_EXPRESSIONS = 950"

text \<open>The loop over the values; \<open>sql\<close> is what was written since the call.  Going back one
  position (\<open>(*sql_offset)--\<close>) drops the last character written.  The format of the group
  head has room for 127 characters.\<close>

fun condition_loop :: "string \<Rightarrow> nat \<Rightarrow> u64 list \<Rightarrow> string \<Rightarrow> string" where
  "condition_loop fieldname i [] sql = sql"
| "condition_loop fieldname i (v # vs) sql =
     (let sql1 = (if i mod MAX_EXPRESSIONS = 0 then
                    (if i \<noteq> 0 then butlast sql @ '') or '' else sql) @ take 127 (fieldname @ '' in ('')
                  else sql)
      in condition_loop fieldname (Suc i) vs (sql1 @ show_u64 v @ '',''))"

definition DBadd_condition_alloc :: "string \<Rightarrow> string \<Rightarrow> u64 list \<Rightarrow> string" where
  "DBadd_condition_alloc sql fieldname values =
     (if values = [] then sql
      else
        let head = '' '' @ (if MAX_EXPRESSIONS < length values then ''('' else []);
            body = butlast (condition_loop fieldname 0 values head) @ '')''
        in sql @ body @ (if MAX_EXPRESSIONS < length values then '')'' else []))"

text \<open>The condition as it should read: groups of at most \<open>MAX_EXPRESSIONS\<close> values joined by
  \<open>or\<close>.\<close>

function chunks :: "nat \<Rightarrow> 'a list \<Rightarrow> 'a list list" where
  "chunks n xs = (if xs = [] \<or> n = 0 then [] else take n xs # chunks n (drop n xs))"
  by pat_completeness auto
termination
  by (relation "measure (\<lambda>(n, xs). length xs)") auto

declare chunks.simps [simp del]

definition in_group :: "string \<Rightarrow> u64 list \<Rightarrow> string" where
  "in_group fieldname vs = fieldname @ '' in ('' @ join_fields CHR '','' (map show_u64 vs) @ '')''"

fun or_groups :: "string list \<Rightarrow> string" where
  "or_groups [] = []"
| "or_groups [g] = g"
| "or_groups (g # h # gs) = g @ '' or '' @ or_groups (h # gs)"

lemma concat_chunks: "0 < n \<Longrightarrow> concat (chunks n xs) = xs"
  by (induction n xs rule: chunks.induct) (subst chunks.simps, simp)

lemma chunks_bound: "c \<in> set (chunks n xs) \<Longrightarrow> length c \<le> n \<and> c \<noteq> []"
proof (induction n xs rule: chunks.induct)
  case (1 n xs)
  then show ?case by (cases "xs = [] \<or> n = 0") (auto simp: chunks.simps [of n xs])
qed

definition commas :: "u64 list \<Rightarrow> string" where
  "commas vs = concat (map (\<lambda>v. show_u64 v @ '','') vs)"

lemma commas_join: "vs \<noteq> [] \<Longrightarrow> commas vs = join_fields CHR '','' (map show_u64 vs) @ '',''"
proof (induction vs)
  case (Cons v vs)
  then show ?case by (cases vs) (auto simp: commas_def)
qed simp

lemma condition_loop_group:
  "(\<forall>k < length xs. (i + k) mod MAX_EXPRESSIONS \<noteq> 0) \<Longrightarrow>
     condition_loop f i (xs @ ys) sql = condition_loop f (i + length xs) ys (sql @ commas xs)"
proof (induction xs arbitrary: i sql)
  case (Cons x xs)
  have "i mod MAX_EXPRESSIONS \<noteq> 0" using Cons.prems by (metis add_0_right length_greater_0_conv list.distinct(1))
  moreover have "\<forall>k < length xs. (Suc i + k) mod MAX_EXPRESSIONS \<noteq> 0"
    using Cons.prems by (metis Suc_mono add_Suc_right add_Suc length_Cons)
  ultimately show ?case using Cons.IH [of "Suc i"] by (simp add: commas_def)
qed (simp add: commas_def)

lemma condition_loop_chunk:
  assumes "length f \<le> 122" "i mod MAX_EXPRESSIONS = 0" "xs \<noteq> []" "length xs \<le> MAX_EXPRESSIONS"
  shows "condition_loop f i (xs @ ys) sql
     = condition_loop f (i + length xs) ys ((if i \<noteq> 0 then butlast sql @ '') or '' else sql) @ f @ '' in ('' @ commas xs)"
proof -
  obtain x xs' where xs: "xs = x # xs'" using assms(3) by (cases xs) auto
  have "(Suc i + k) mod MAX_EXPRESSIONS \<noteq> 0" if "k < length xs'" for k
  proof -
    have "Suc k < MAX_EXPRESSIONS" using that assms(4) xs by simp
    then have "(i + Suc k) mod MAX_EXPRESSIONS = Suc k" using assms(2) by (metis mod_add_left_eq add_0 mod_less)
    then show ?thesis by simp
  qed
  then have g: "condition_loop f (Suc i) (xs' @ ys) q = condition_loop f (Suc i + length xs') ys (q @ commas xs')" for q
    by (intro condition_loop_group) blast
  show ?thesis using assms(1,2) by (simp add: xs g commas_def)
qed

lemma condition_loop_chunks:
  assumes "length f \<le> 122" "i mod MAX_EXPRESSIONS = 0" "vs \<noteq> []"
  shows "butlast (condition_loop f i vs sql) @ '')''
     = (if i \<noteq> 0 then butlast sql @ '') or '' else sql) @ or_groups (map (in_group f) (chunks MAX_EXPRESSIONS vs))"
  using assms
proof (induction MAX_EXPRESSIONS vs arbitrary: i sql rule: chunks.induct)
  case (1 vs)
  let ?n = MAX_EXPRESSIONS and ?pre = "if i \<noteq> 0 then butlast sql @ '') or '' else sql"
  have n: "0 < ?n" by (simp add: MAX_EXPRESSIONS_def)
  let ?x = "take ?n vs" and ?y = "drop ?n vs"
  have x: "?x \<noteq> []" "length ?x \<le> ?n" using 1 n by auto
  have step: "condition_loop f i vs sql = condition_loop f (i + length ?x) ?y (?pre @ f @ '' in ('' @ commas ?x)"
    using condition_loop_chunk [OF "1.prems"(1,2) x, of ?y sql] by simp
  have ch: "chunks ?n vs = ?x # chunks ?n ?y" using 1 n by (subst chunks.simps) simp
  have bl: "butlast (?pre @ f @ '' in ('' @ commas ?x) = ?pre @ f @ '' in ('' @ join_fields CHR '','' (map show_u64 ?x)"
    using commas_join [OF x(1)] by (simp add: butlast_append)
  show ?case
  proof (cases "?y = []")
    case True
    then have "chunks ?n ?y = []" by (simp add: chunks.simps)
    then show ?thesis using True bl by (simp add: step ch in_group_def)
  next
    case False
    then have lx: "length ?x = ?n" by (simp add: min_def)
    have i': "(i + length ?x) mod ?n = 0" "i + length ?x \<noteq> 0" using "1.prems"(2) lx n by simp_all
    have IH: "butlast (condition_loop f (i + length ?x) ?y (?pre @ f @ '' in ('' @ commas ?x)) @ '')''
        = butlast (?pre @ f @ '' in ('' @ commas ?x) @ '') or '' @ or_groups (map (in_group f) (chunks ?n ?y))"
      using "1.hyps" [OF _ "1.prems"(1) i'(1) False] "1.prems"(3) n i'(2) by simp
    obtain c cs where c: "chunks ?n ?y = c # cs" using False n by (subst (asm) chunks.simps) (auto simp: chunks.simps [of ?n ?y])
    show ?thesis unfolding step IH bl by (simp add: ch c in_group_def)
  qed
qed

text \<open>The condition consists of groups \<open>field in (...)\<close> of at most 950 values joined by
  \<open>or\<close>, in parentheses when there are several; the groups list exactly the values, in order.
  An empty list adds no condition at all.\<close>

theorem DBadd_condition_correct:
  assumes "length fieldname \<le> 122" and "values \<noteq> []"
  shows "DBadd_condition_alloc sql fieldname values
    = sql @ '' '' @ (let g = or_groups (map (in_group fieldname) (chunks MAX_EXPRESSIONS values))
                     in if MAX_EXPRESSIONS < length values then ''('' @ g @ '')'' else g)
    \<and> concat (chunks MAX_EXPRESSIONS values) = values
    \<and> (\<forall>c \<in> set (chunks MAX_EXPRESSIONS values). length c \<le> MAX_EXPRESSIONS)"
proof -
  have n: "0 < MAX_EXPRESSIONS" by (simp add: MAX_EXPRESSIONS_def)
  have "butlast (condition_loop fieldname 0 values h) @ '')''
      = h @ or_groups (map (in_group fieldname) (chunks MAX_EXPRESSIONS values))" for h
    using condition_loop_chunks [OF assms(1), of 0 "values" h] assms(2) by simp
  then show ?thesis
    using assms(2) concat_chunks [OF n, of "values"] chunks_bound [of _ MAX_EXPRESSIONS "values"]
    by (simp add: DBadd_condition_alloc_def Let_def)
qed

theorem DBadd_condition_correct_witness:
  "DBadd_condition_alloc ''where'' ''id'' [7, 9] = ''where id in (7,9)''"
proof -
  have show7: "show_u64 7 = ''7''" "show_u64 9 = ''9''" by code_simp+
  have g: "or_groups (map (in_group ''id'') (chunks MAX_EXPRESSIONS [7, 9])) = ''id in (7,9)''"
    using show7 by (simp add: chunks.simps MAX_EXPRESSIONS_def in_group_def)
  show ?thesis using DBadd_condition_correct [of "''id''" "[7, 9]" "''where''"]
    unfolding g by (simp add: MAX_EXPRESSIONS_def)
qed

end
