(* ===== verification/NextChecks.thy ===== *)
theory NextChecks
  imports SortedArrays TimePeriod SqlEscape
begin

section \<open>Pending next checks\<close>

text \<open>
  \<open>libs/zbxdbcache/nextchecks.c\<close>: a poller collects, per item, when to check it next, in an
  array sorted by item, and writes all of them in one transaction.  The fields of \<open>DB_ITEM\<close>
  that are used are a record; \<open>refresh_unsupported\<close> is \<open>CONFIG_REFRESH_UNSUPPORTED\<close>.
\<close>

record nc_item =
  i_itemid :: u64
  i_type :: item_type
  i_delay :: int
  i_delay_flex :: "string option"
  i_notsupported :: bool
  i_nextcheck :: int

record nextcheck =
  nc_itemid :: u64
  nc_now :: int
  nc_nextcheck :: int
  nc_error :: "string option"

record nextchecks =
  nc_array :: "nextcheck list"
  nc_allocated :: nat

definition DCinit_nextchecks :: "nextchecks option \<Rightarrow> nextchecks" where
  "DCinit_nextchecks old =
     (case old of None \<Rightarrow> \<lparr>nc_array = [], nc_allocated = 64\<rparr> | Some n \<Rightarrow> n\<lparr>nc_array := []\<rparr>)"

definition DCget_nextcheck_nearestindex :: "nextcheck list \<Rightarrow> u64 \<Rightarrow> nat" where
  "DCget_nextcheck_nearestindex xs item =
     (if xs = [] then 0 else nearest_loop nc_itemid xs item 0 (length xs - 1))"

interpretation nc: keyed_array nc_itemid DCget_nextcheck_nearestindex
  by (rule nearest_entry_contract) (simp add: DCget_nextcheck_nearestindex_def)

definition insert_nextcheck :: "nextchecks \<Rightarrow> nat \<Rightarrow> nextcheck \<Rightarrow> nextchecks" where
  "insert_nextcheck st i e =
     \<lparr>nc_array = take i (nc_array st) @ e # drop i (nc_array st),
      nc_allocated = (if nc_allocated st = length (nc_array st) then nc_allocated st * 2 else nc_allocated st)\<rparr>"

definition set_nextcheck :: "(int \<Rightarrow> tm) \<Rightarrow> int \<Rightarrow> int \<Rightarrow> nc_item \<Rightarrow> int \<Rightarrow> int \<Rightarrow> string option \<Rightarrow> nc_item option" where
  "set_nextcheck localtime clock refresh_unsupported item now timediff error_msg =
     (case error_msg of
        Some e \<Rightarrow> Some (item\<lparr>i_notsupported := True, i_nextcheck := now + refresh_unsupported\<rparr>)
      | None \<Rightarrow>
        map_option (\<lambda>t. item\<lparr>i_nextcheck := t + timediff\<rparr>)
          (calculate_item_nextcheck localtime clock (i_itemid item) (i_type item) (i_delay item) (i_delay_flex item)
             (now - timediff)))"

text \<open>\<open>None\<close>: the computation of the next check does not end.\<close>

definition DCadd_nextcheck :: "(int \<Rightarrow> tm) \<Rightarrow> int \<Rightarrow> int \<Rightarrow> nextchecks \<Rightarrow> nc_item \<Rightarrow> int \<Rightarrow> int \<Rightarrow> string option
    \<Rightarrow> (nextchecks \<times> nc_item) option" where
  "DCadd_nextcheck localtime clock refresh_unsupported st item now timediff error_msg =
     (case set_nextcheck localtime clock refresh_unsupported item now timediff error_msg of
        None \<Rightarrow> None
      | Some item1 \<Rightarrow>
        let xs = nc_array st; i = DCget_nextcheck_nearestindex xs (i_itemid item1);
            e = \<lparr>nc_itemid = i_itemid item1, nc_now = now, nc_nextcheck = i_nextcheck item1, nc_error = error_msg\<rparr>
        in if i < length xs \<and> nc_itemid (xs ! i) = i_itemid item1 then
             if nc_now (xs ! i) < now then
               Some (insert_nextcheck (st\<lparr>nc_array := take i xs @ drop (Suc i) xs\<rparr>) i e, item1)
             else Some (st, item1)
           else Some (insert_nextcheck st i e, item1))"

text \<open>The statements of the flush; \<open>ITEM_ERROR_LEN\<close> is 128.\<close>

datatype item_update = ItemUpdate u64 int "(int \<times> string) option"

definition flush_statement :: "db_kind \<Rightarrow> nextcheck \<Rightarrow> item_update" where
  "flush_statement db e =
     ItemUpdate (nc_itemid e) (nc_nextcheck e)
       (map_option (\<lambda>m. (nc_now e, DBdyn_escape_string_len db (Some m) 128)) (nc_error e))"

text \<open>The array keeps its entries (their messages freed): every user of the module starts with
  \<open>DCinit_nextchecks\<close>.\<close>

definition DCflush_nextchecks :: "db_kind \<Rightarrow> nextchecks \<Rightarrow> item_update list" where
  "DCflush_nextchecks db st = map (flush_statement db) (nc_array st)"

subsection \<open>Correctness\<close>

definition nextchecks_ok :: "nextchecks \<Rightarrow> bool" where
  "nextchecks_ok st \<longleftrightarrow> key_sorted nc_itemid (nc_array st) \<and> length (nc_array st) \<le> nc_allocated st \<and> 0 < nc_allocated st"

lemma insert_nextcheck_ok:
  assumes "nextchecks_ok st" "\<not> nc.found (nc_array st) (nc_itemid e)"
    and i: "i = DCget_nextcheck_nearestindex (nc_array st) (nc_itemid e)"
  shows "nextchecks_ok (insert_nextcheck st i e)
    \<and> tab nc_itemid (nc_array (insert_nextcheck st i e)) = (tab nc_itemid (nc_array st))(nc_itemid e \<mapsto> e)"
proof -
  have s: "key_sorted nc_itemid (nc_array st)" using assms(1) by (simp add: nextchecks_ok_def)
  have "length (take i (nc_array st) @ e # drop i (nc_array st)) = Suc (length (nc_array st))"
    using nc.nearest_le [OF s, of "nc_itemid e"] i by simp
  then show ?thesis
    using nc.insert_sorted [OF s assms(2)] nc.insert_tab [OF s assms(2)] assms(1)
    by (auto simp: insert_nextcheck_def nextchecks_ok_def i simp del: append.simps)
qed

lemma nearest_after_removal:
  assumes s: "key_sorted nc_itemid xs" and f: "nc.found xs k"
  shows "DCget_nextcheck_nearestindex (take (DCget_nextcheck_nearestindex xs k) xs @ drop (Suc (DCget_nextcheck_nearestindex xs k)) xs) k
       = DCget_nextcheck_nearestindex xs k"
proof -
  let ?n = "DCget_nextcheck_nearestindex xs k"
  let ?ys = "take ?n xs @ drop (Suc ?n) xs"
  from f have n: "?n < length xs" "nc_itemid (xs ! ?n) = k" by (auto simp: nc.found_def)
  have s': "key_sorted nc_itemid ?ys" by (rule nc.remove_sorted [OF s])
  let ?m = "DCget_nextcheck_nearestindex ?ys k"
  have le: "?m \<le> length ?ys" by (rule nc.nearest_le [OF s'])
  have ly: "length ?ys = length xs - 1" using n(1) by simp
  have "\<not> ?m < ?n"
  proof
    assume lt: "?m < ?n"
    then have "k \<le> nc_itemid (?ys ! ?m)" using nc.nearest_above [OF s', of k ?m] n(1) ly by simp
    moreover have "nc_itemid (xs ! ?m) < k" using nc.nearest_below [OF s lt] .
    ultimately show False using lt n(1) by (simp add: nth_append)
  qed
  moreover have "\<not> ?n < ?m"
  proof
    assume lt: "?n < ?m"
    have "nc_itemid (?ys ! ?n) < k" by (rule nc.nearest_below [OF s' lt])
    moreover have "?ys ! ?n = xs ! Suc ?n" "Suc ?n < length xs" using lt le ly n(1) by (auto simp: nth_append)
    moreover have "k < nc_itemid (xs ! Suc ?n)"
      using key_sorted_nth [OF s, of ?n "Suc ?n"] \<open>Suc ?n < length xs\<close> n(2) by simp
    ultimately show False by simp
  qed
  ultimately show ?thesis by simp
qed

text \<open>Adding a next check keeps the array sorted, without duplicates and within its
  allocation; the new entry replaces one of the same item only when that one is older, and the other
  items keep theirs.\<close>

theorem DCadd_nextcheck_correct:
  assumes "nextchecks_ok st"
    and "DCadd_nextcheck localtime clock refresh st item now timediff error_msg = Some (st', item')"
  shows "nextchecks_ok st' \<and> tab nc_itemid (nc_array st') =
    (case tab nc_itemid (nc_array st) (i_itemid item) of
       Some old \<Rightarrow> if nc_now old < now then (tab nc_itemid (nc_array st))(i_itemid item \<mapsto>
           \<lparr>nc_itemid = i_itemid item, nc_now = now, nc_nextcheck = i_nextcheck item', nc_error = error_msg\<rparr>)
         else tab nc_itemid (nc_array st)
     | None \<Rightarrow> (tab nc_itemid (nc_array st))(i_itemid item \<mapsto>
           \<lparr>nc_itemid = i_itemid item, nc_now = now, nc_nextcheck = i_nextcheck item', nc_error = error_msg\<rparr>))"
proof -
  let ?xs = "nc_array st" and ?k = "i_itemid item"
  let ?i = "DCget_nextcheck_nearestindex ?xs ?k"
  let ?e = "\<lparr>nc_itemid = ?k, nc_now = now, nc_nextcheck = i_nextcheck item', nc_error = error_msg\<rparr>"
  have s: "key_sorted nc_itemid ?xs" using assms(1) by (simp add: nextchecks_ok_def)
  obtain item1 where it: "set_nextcheck localtime clock refresh item now timediff error_msg = Some item1"
    using assms(2) by (auto simp: DCadd_nextcheck_def split: option.splits)
  have eq: "item' = item1" "i_itemid item1 = ?k"
    using assms(2) it by (auto simp: DCadd_nextcheck_def Let_def set_nextcheck_def split: option.splits if_splits)
  show ?thesis
  proof (cases "nc.found ?xs ?k")
    case False
    then have r: "st' = insert_nextcheck st ?i ?e"
      using assms(2) it eq by (auto simp: DCadd_nextcheck_def Let_def nc.found_def split: if_splits)
    have "\<not> nc.found ?xs (nc_itemid ?e)" using False by simp
    from insert_nextcheck_ok [OF assms(1) this, of ?i] show ?thesis
      using nc.not_found_tab [OF s False] by (simp add: r)
  next
    case True
    have t: "tab nc_itemid ?xs ?k = Some (?xs ! ?i)" by (rule nc.found_tab [OF s True])
    show ?thesis
    proof (cases "nc_now (?xs ! ?i) < now")
      case False
      then show ?thesis using assms it eq True t
        by (auto simp: DCadd_nextcheck_def Let_def nc.found_def)
    next
      case older: True
      let ?st = "st\<lparr>nc_array := take ?i ?xs @ drop (Suc ?i) ?xs\<rparr>"
      have r: "st' = insert_nextcheck ?st ?i ?e"
        using assms(2) it eq True older by (auto simp: DCadd_nextcheck_def Let_def nc.found_def)
      have ok: "nextchecks_ok ?st"
        using nc.remove_sorted [OF s, of ?i] assms(1) by (auto simp: nextchecks_ok_def)
      have tb: "tab nc_itemid (nc_array ?st) = (tab nc_itemid ?xs)(?k := None)" using nc.remove_tab [OF s True] by simp
      have s': "key_sorted nc_itemid (nc_array ?st)" using ok by (simp add: nextchecks_ok_def)
      have "?k \<notin> nc_itemid ` set (nc_array ?st)"
        unfolding dom_tab [symmetric] tb by simp
      then have "\<not> nc.found (nc_array ?st) (nc_itemid ?e)" using nc.found_iff [OF s', of ?k] by simp
      from insert_nextcheck_ok [OF ok this, of ?i] show ?thesis
        using nearest_after_removal [OF s True] t older tb by (simp add: r)
    qed
  qed
qed

theorem DCadd_nextcheck_correct_witness:
  "\<exists>st' item'. DCadd_nextcheck (\<lambda>t. \<lparr>tm_wday = 1, tm_hour = 0, tm_min = 0, tm_sec = 0\<rparr>) 0 600
       \<lparr>nc_array = [\<lparr>nc_itemid = 4, nc_now = 50, nc_nextcheck = 60, nc_error = None\<rparr>], nc_allocated = 64\<rparr>
       \<lparr>i_itemid = 4, i_type = ITEM_TYPE_ZABBIX, i_delay = 30, i_delay_flex = None, i_notsupported = False, i_nextcheck = 0\<rparr>
       100 0 (Some ''timeout'') = Some (st', item') \<and> nextchecks_ok st'"
proof -
  let ?st = "\<lparr>nc_array = [\<lparr>nc_itemid = 4, nc_now = 50, nc_nextcheck = 60, nc_error = None\<rparr>], nc_allocated = 64\<rparr>"
  let ?it = "\<lparr>i_itemid = 4, i_type = ITEM_TYPE_ZABBIX, i_delay = 30, i_delay_flex = None, i_notsupported = False, i_nextcheck = 0\<rparr>"
  let ?add = "DCadd_nextcheck (\<lambda>t. \<lparr>tm_wday = 1, tm_hour = 0, tm_min = 0, tm_sec = 0\<rparr>) 0 600 ?st ?it 100 0 (Some ''timeout'')"
  have "?add \<noteq> None" by (simp add: DCadd_nextcheck_def set_nextcheck_def Let_def)
  then obtain st' item' where r: "?add = Some (st', item')" by auto
  have "nextchecks_ok ?st" by (simp add: nextchecks_ok_def)
  from DCadd_nextcheck_correct [OF this r] r show ?thesis by blast
qed

text \<open>The flush writes one update per collected item, in the order of the ids.\<close>

theorem DCflush_nextchecks_complete:
  assumes "nextchecks_ok st"
  shows "length (DCflush_nextchecks db st) = card (dom (tab nc_itemid (nc_array st)))
    \<and> (\<forall>item e. tab nc_itemid (nc_array st) item = Some e \<longrightarrow>
         (\<exists>err. ItemUpdate item (nc_nextcheck e) err \<in> set (DCflush_nextchecks db st)
            \<and> (nc_error e = None \<longleftrightarrow> err = None)))
    \<and> sorted_wrt (<) (map (\<lambda>u. case u of ItemUpdate i t e \<Rightarrow> i) (DCflush_nextchecks db st))"
proof -
  have s: "key_sorted nc_itemid (nc_array st)" using assms by (simp add: nextchecks_ok_def)
  have "card (nc_itemid ` set (nc_array st)) = length (nc_array st)"
    using distinct_card [OF key_sorted_distinct [OF s]] by simp
  moreover have "\<exists>err. ItemUpdate item (nc_nextcheck e) err \<in> set (DCflush_nextchecks db st) \<and> (nc_error e = None \<longleftrightarrow> err = None)"
    if "tab nc_itemid (nc_array st) item = Some e" for item e
  proof -
    have "e \<in> set (nc_array st)" "nc_itemid e = item" using tab_SomeD [OF that] by simp_all
    then show ?thesis
      by (intro exI [of _ "map_option (\<lambda>m. (nc_now e, DBdyn_escape_string_len db (Some m) 128)) (nc_error e)"])
        (force simp: DCflush_nextchecks_def flush_statement_def)
  qed
  moreover have "length (DCflush_nextchecks db st) = length (nc_array st)"
    by (simp add: DCflush_nextchecks_def)
  moreover have "sorted_wrt (<) (map (\<lambda>u. case u of ItemUpdate i t e \<Rightarrow> i) (DCflush_nextchecks db st))"
  proof -
    have "map (\<lambda>u. case u of ItemUpdate i t e \<Rightarrow> i) (DCflush_nextchecks db st) = map nc_itemid (nc_array st)"
      by (simp add: DCflush_nextchecks_def flush_statement_def)
    then show ?thesis using s by (simp only:)
  qed
  ultimately show ?thesis by simp
qed

theorem DCflush_nextchecks_complete_witness:
  "length (DCflush_nextchecks MySQL \<lparr>nc_array = [\<lparr>nc_itemid = 4, nc_now = 50, nc_nextcheck = 60, nc_error = None\<rparr>], nc_allocated = 64\<rparr>)
     = card (dom (tab nc_itemid [\<lparr>nc_itemid = 4, nc_now = 50, nc_nextcheck = 60, nc_error = None\<rparr>]))"
proof -
  have "nextchecks_ok \<lparr>nc_array = [\<lparr>nc_itemid = 4, nc_now = 50, nc_nextcheck = 60, nc_error = None\<rparr>], nc_allocated = 64\<rparr>"
    by (simp add: nextchecks_ok_def)
  from DCflush_nextchecks_complete [OF this, of MySQL] show ?thesis by simp
qed

end
