(* ===== verification/IdAllocator.thy ===== *)
theory IdAllocator
  imports Prelude
begin

section \<open>Allocation of identifiers\<close>

text \<open>
  \<open>get_nodeid_by_id\<close> (\<open>libs/zbxcommon/misc.c\<close>), \<open>DCget_nextid\<close>
  (\<open>libs/zbxdbcache/dbcache.c\<close>), \<open>DBget_table\<close>, \<open>DBget_field\<close> and
  \<open>DBget_maxid_num\<close> (\<open>libs/zbxdbhigh/db.c\<close>).  In a distributed setup the node's number
  is part of every id; the busiest six tables draw their ids from shared memory, the others from the
  table \<open>ids\<close>.  The schema (a generated table) and the answer to
  \<open>select max (field) ... between min and max\<close> are arguments.
\<close>

text \<open>\<open>(int) (id / 10\<close>\<open>14) % 1000\<close>: the cast applies to the quotient.\<close>

definition get_nodeid_by_id :: "u64 \<Rightarrow> int" where
  "get_nodeid_by_id i = trunc_mod (sint (ucast (i div 100000000000000) :: 32 word)) 1000"

subsection \<open>The schema\<close>

record db_table =
  tab_name :: string
  tab_sync :: bool
  tab_fields :: "string list"

definition DBget_table :: "db_table list \<Rightarrow> string \<Rightarrow> db_table option" where
  "DBget_table tables name = find (\<lambda>t. tab_name t = name) tables"

definition DBget_field :: "db_table \<Rightarrow> string \<Rightarrow> string option" where
  "DBget_field t name = find (\<lambda>f. f = name) (tab_fields t)"

text \<open>The range of ids of a node, for tables that are synchronised between nodes and for the
  others.\<close>

definition id_range :: "db_table \<Rightarrow> int \<Rightarrow> u64 \<times> u64" where
  "id_range t config_nodeid =
     (let nodeid = of_int (if 0 \<le> config_nodeid then config_nodeid else 0) :: u64
      in if tab_sync t then
           (100000000000000 * nodeid + 100000000000 * nodeid,
            100000000000000 * nodeid + 100000000000 * nodeid + 99999999999)
         else (100000000000000 * nodeid, 100000000000000 * nodeid + 99999999999999))"

subsection \<open>Ids from shared memory\<close>

definition ZBX_IDS_SIZE :: nat where "ZBX_IDS_SIZE = 6"

text \<open>The used slots of \<open>ZBX_DC_IDS\<close>, in order; the first free one has an empty table
  name.\<close>

record dc_id =
  id_table :: string
  id_field :: string
  lastid :: u64

text \<open>\<open>NoMemory\<close> is \<open>exit (-1)\<close> for want of a slot, \<open>NoTable\<close> the dereference of
  the NULL that \<open>DBget_table\<close> gives for an unknown table, \<open>IdsExhausted\<close> \<open>exit (FAIL)\<close>.\<close>

datatype id_error = NoMemory | NoTable | IdsExhausted

definition id_index :: "dc_id list \<Rightarrow> string \<Rightarrow> string \<Rightarrow> nat option" where
  "id_index ids table field =
     find (\<lambda>i. id_table (ids ! i) = table \<and> id_field (ids ! i) = field) [0..<length ids]"

text \<open>\<open>max_in table field min max\<close> is the answer of the query; \<open>None\<close> is NULL.\<close>

definition DCget_nextid :: "db_table list \<Rightarrow> (string \<Rightarrow> string \<Rightarrow> u64 \<Rightarrow> u64 \<Rightarrow> u64 option) \<Rightarrow> int \<Rightarrow> dc_id list
    \<Rightarrow> string \<Rightarrow> string \<Rightarrow> int \<Rightarrow> id_error + (u64 \<times> dc_id list)" where
  "DCget_nextid tables max_in config_nodeid ids table field num =
     (case id_index ids table field of
        Some i \<Rightarrow> Inr (lastid (ids ! i) + 1, ids[i := (ids ! i)\<lparr>lastid := lastid (ids ! i) + of_int num\<rparr>])
      | None \<Rightarrow>
        if length ids = ZBX_IDS_SIZE then Inl NoMemory
        else
          (case DBget_table tables table of
             None \<Rightarrow> Inl NoTable
           | Some t \<Rightarrow>
             let (lo, hi) = id_range t config_nodeid;
                 l = (case max_in table field lo hi of None \<Rightarrow> lo + 1 | Some m \<Rightarrow> m)
             in Inr (l + 1, ids @ [\<lparr>id_table = take 63 table, id_field = take 63 field, lastid = l + of_int num\<rparr>])))"

subsection \<open>Ids from the table \<open>ids\<close>\<close>

text \<open>The six keys that are served from shared memory.\<close>

definition cached_keys :: "(string \<times> string) list" where
  "cached_keys = [(''history_log'', ''id''), (''history_text'', ''id''), (''dservices'', ''dserviceid''),
     (''dhosts'', ''dhostid''), (''alerts'', ''alertid''), (''escalations'', ''escalationid'')]"

text \<open>The loop on the row of \<open>ids\<close> for the table and the field, \<open>None\<close> when there is
  none; one process at a time, so an update is read back as it was made.  The argument counts the
  iterations allowed.\<close>

fun maxid_loop :: "nat \<Rightarrow> (u64 \<Rightarrow> u64 \<Rightarrow> u64 option) \<Rightarrow> u64 \<Rightarrow> u64 \<Rightarrow> int \<Rightarrow> u64 option
    \<Rightarrow> (id_error + (u64 \<times> u64)) option" where
  "maxid_loop 0 max_of lo hi num row = None"
| "maxid_loop (Suc n) max_of lo hi num row =
     (case row of
        None \<Rightarrow>
          (case max_of lo hi of
             None \<Rightarrow> maxid_loop n max_of lo hi num (Some lo)
           | Some ret1 \<Rightarrow> if hi \<le> ret1 then Some (Inl IdsExhausted) else maxid_loop n max_of lo hi num (Some ret1))
      | Some ret1 \<Rightarrow>
          if ret1 < lo \<or> hi \<le> ret1 then maxid_loop n max_of lo hi num None
          else (let ret2 = ret1 + of_int num in Some (Inr (ret2 - of_int num + 1, ret2))))"

type_synonym ids_table = "string \<Rightarrow> string \<Rightarrow> u64 option"

definition DBget_maxid_num :: "db_table list \<Rightarrow> (string \<Rightarrow> string \<Rightarrow> u64 \<Rightarrow> u64 \<Rightarrow> u64 option) \<Rightarrow> int
    \<Rightarrow> dc_id list \<times> ids_table \<Rightarrow> string \<Rightarrow> string \<Rightarrow> int \<Rightarrow> (id_error + (u64 \<times> dc_id list \<times> ids_table)) option" where
  "DBget_maxid_num tables max_in config_nodeid st table field num =
     (let (ids, rows) = st
      in if (table, field) \<in> set cached_keys then
           Some (map_sum id (\<lambda>(r, ids1). (r, ids1, rows)) (DCget_nextid tables max_in config_nodeid ids table field num))
         else
           (case DBget_table tables table of
              None \<Rightarrow> Some (Inl NoTable)
            | Some t \<Rightarrow>
              let (lo, hi) = id_range t config_nodeid
              in map_option (map_sum id (\<lambda>(r, ret2). (r, ids, rows(table := (rows table)(field := Some ret2)))))
                   (maxid_loop 3 (max_in table field) lo hi num (rows table field))))"

subsection \<open>Shared memory suffices\<close>

text \<open>The slots in use always belong to different cached keys, so six slots are enough.\<close>

definition ids_ok :: "dc_id list \<Rightarrow> bool" where
  "ids_ok ids \<longleftrightarrow> distinct (map (\<lambda>d. (id_table d, id_field d)) ids)
     \<and> set (map (\<lambda>d. (id_table d, id_field d)) ids) \<subseteq> set cached_keys"

lemma find_Some_nth: "find P xs = Some x \<Longrightarrow> x \<in> set xs \<and> P x"
  by (induction xs) (auto split: if_splits)

lemma id_index_Some: "id_index ids table field = Some i \<Longrightarrow> i < length ids \<and> id_table (ids ! i) = table \<and> id_field (ids ! i) = field"
  unfolding id_index_def using find_Some_nth by fastforce

lemma id_index_None:
  "id_index ids table field = None \<longleftrightarrow> (table, field) \<notin> set (map (\<lambda>d. (id_table d, id_field d)) ids)"
  unfolding id_index_def find_None_iff
  by (force simp: in_set_conv_nth simp del: set_map)

lemma length_cached: "length cached_keys = ZBX_IDS_SIZE" "distinct cached_keys"
  by (simp_all add: cached_keys_def ZBX_IDS_SIZE_def)

lemma cached_short: "(t, f) \<in> set cached_keys \<Longrightarrow> take 63 t = t \<and> take 63 f = f"
  by (auto simp: cached_keys_def)

lemma ids_ok_room:
  assumes "ids_ok ids" "(t, f) \<in> set cached_keys" "id_index ids t f = None"
  shows "length ids < ZBX_IDS_SIZE"
proof -
  let ?ks = "map (\<lambda>d. (id_table d, id_field d)) ids"
  have "insert (t, f) (set ?ks) \<subseteq> set cached_keys" using assms(1,2) by (simp add: ids_ok_def)
  then have "card (insert (t, f) (set ?ks)) \<le> card (set cached_keys)" by (rule card_mono [rotated]) simp
  moreover have "card (set cached_keys) = ZBX_IDS_SIZE" using distinct_card [OF length_cached(2)] length_cached(1) by simp
  moreover have "card (set ?ks) = length ids" using assms(1) distinct_card [of ?ks] by (simp add: ids_ok_def)
  moreover have "(t, f) \<notin> set ?ks" using assms(3) id_index_None by blast
  ultimately show ?thesis by simp
qed

text \<open>With the tables of the schema present, requesting ids never ends for want of a slot in
  shared memory: the table of cached keys and the number of slots agree.\<close>

theorem ids_never_full:
  assumes "ids_ok ids" and "\<forall>k \<in> set cached_keys. DBget_table tables (fst k) \<noteq> None"
    and "(table, field) \<in> set cached_keys"
  shows "\<exists>r ids'. DCget_nextid tables max_in nodeid ids table field num = Inr (r, ids') \<and> ids_ok ids'"
proof (cases "id_index ids table field")
  case (Some i)
  then have i: "i < length ids" "id_table (ids ! i) = table" "id_field (ids ! i) = field" using id_index_Some by blast+
  have "map (\<lambda>d. (id_table d, id_field d)) (ids[i := (ids ! i)\<lparr>lastid := l\<rparr>]) = map (\<lambda>d. (id_table d, id_field d)) ids" for l
    using i(1) by (simp add: map_update list_update_same_conv)
  then have "ids_ok (ids[i := (ids ! i)\<lparr>lastid := l\<rparr>])" for l
    using assms(1) unfolding ids_ok_def by presburger
  then show ?thesis using Some by (simp add: DCget_nextid_def)
next
  case None
  have "length ids < ZBX_IDS_SIZE" using ids_ok_room [OF assms(1,3) None] .
  moreover obtain t where "DBget_table tables table = Some t" using assms(2,3) by force
  moreover have "(table, field) \<notin> set (map (\<lambda>d. (id_table d, id_field d)) ids)" using None id_index_None by blast
  ultimately show ?thesis
    using None assms(1,3) cached_short [OF assms(3)]
    by (auto simp: DCget_nextid_def ids_ok_def Let_def split: prod.split)
qed

theorem ids_never_full_witness:
  "\<exists>r ids'. DCget_nextid (map (\<lambda>(t, f). \<lparr>tab_name = t, tab_sync = False, tab_fields = [f]\<rparr>) cached_keys)
     (\<lambda>t f lo hi. None) 0 [] ''alerts'' ''alertid'' 5 = Inr (r, ids') \<and> ids_ok ids'"
  by (rule ids_never_full) (simp_all add: ids_ok_def cached_keys_def DBget_table_def)

subsection \<open>No id is given twice\<close>

text \<open>A run of requests: what each was given, the first id and the number asked for.\<close>

fun id_run :: "db_table list \<Rightarrow> (string \<Rightarrow> string \<Rightarrow> u64 \<Rightarrow> u64 \<Rightarrow> u64 option) \<Rightarrow> int \<Rightarrow> dc_id list
    \<Rightarrow> (string \<times> string \<times> int) list \<Rightarrow> (id_error + ((string \<times> string) \<times> u64 \<times> int) list)" where
  "id_run tables max_in nodeid ids [] = Inr []"
| "id_run tables max_in nodeid ids ((t, f, n) # reqs) =
     (case DCget_nextid tables max_in nodeid ids t f n of
        Inl e \<Rightarrow> Inl e
      | Inr (r, ids1) \<Rightarrow> map_sum id (\<lambda>rs. ((t, f), r, n) # rs) (id_run tables max_in nodeid ids1 reqs))"

definition blocks_of :: "string \<times> string \<Rightarrow> ((string \<times> string) \<times> u64 \<times> int) list \<Rightarrow> (u64 \<times> int) list" where
  "blocks_of k rs = map snd (filter (\<lambda>x. fst x = k) rs)"

text \<open>Each block starts right after the one before it.\<close>

fun consecutive :: "u64 \<Rightarrow> (u64 \<times> int) list \<Rightarrow> bool" where
  "consecutive start [] = True"
| "consecutive start ((r, n) # bs) = (r = start \<and> consecutive (start + of_int n) bs)"

definition lastid_of :: "dc_id list \<Rightarrow> string \<times> string \<Rightarrow> u64 option" where
  "lastid_of ids k = map_option (\<lambda>i. lastid (ids ! i)) (id_index ids (fst k) (snd k))"

lemma find_cong_set: "(\<And>x. x \<in> set xs \<Longrightarrow> P x = Q x) \<Longrightarrow> find P xs = find Q xs"
  by (induction xs) auto

lemma id_index_keys:
  "map (\<lambda>d. (id_table d, id_field d)) ids = map (\<lambda>d. (id_table d, id_field d)) ids' \<Longrightarrow> id_index ids t f = id_index ids' t f"
proof -
  assume eq: "map (\<lambda>d. (id_table d, id_field d)) ids = map (\<lambda>d. (id_table d, id_field d)) ids'"
  have l: "length ids = length ids'" using arg_cong [OF eq, of length] by simp
  have same: "id_table (ids ! i) = id_table (ids' ! i) \<and> id_field (ids ! i) = id_field (ids' ! i)" if "i < length ids" for i
    using arg_cong [OF eq, of "\<lambda>ks. ks ! i"] that l by simp
  show ?thesis unfolding id_index_def l by (rule find_cong_set) (use same l in simp)
qed

lemma find_append: "find P (xs @ ys) = (case find P xs of Some x \<Rightarrow> Some x | None \<Rightarrow> find P ys)"
  by (induction xs) auto

lemma id_index_snoc:
  "id_index (ids @ [d]) t f = (case id_index ids t f of Some i \<Rightarrow> Some i
     | None \<Rightarrow> if id_table d = t \<and> id_field d = f then Some (length ids) else None)"
proof -
  have "find (\<lambda>i. id_table ((ids @ [d]) ! i) = t \<and> id_field ((ids @ [d]) ! i) = f) [0..<length ids]
      = find (\<lambda>i. id_table (ids ! i) = t \<and> id_field (ids ! i) = f) [0..<length ids]"
    by (rule find_cong_set) (simp add: nth_append)
  then show ?thesis by (simp add: id_index_def find_append split: option.split)
qed

lemma DCget_nextid_lastid:
  assumes "DCget_nextid tables max_in nodeid ids t f n = Inr (r, ids')" "length t \<le> 63" "length f \<le> 63"
  shows "lastid_of ids' (t, f) = Some (r - 1 + of_int n)"
    and "\<And>l. lastid_of ids (t, f) = Some l \<Longrightarrow> r = l + 1"
    and "\<And>k. k \<noteq> (t, f) \<Longrightarrow> lastid_of ids' k = lastid_of ids k"
proof -
  have "lastid_of ids' (t, f) = Some (r - 1 + of_int n) \<and> (\<forall>l. lastid_of ids (t, f) = Some l \<longrightarrow> r = l + 1)
      \<and> (\<forall>k. k \<noteq> (t, f) \<longrightarrow> lastid_of ids' k = lastid_of ids k)"
  proof (cases "id_index ids t f")
    case (Some i)
    then have i: "i < length ids" "id_table (ids ! i) = t" "id_field (ids ! i) = f" using id_index_Some by blast+
    have r: "r = lastid (ids ! i) + 1" "ids' = ids[i := (ids ! i)\<lparr>lastid := lastid (ids ! i) + of_int n\<rparr>]"
      using assms(1) Some by (simp_all add: DCget_nextid_def)
    have "map (\<lambda>d. (id_table d, id_field d)) ids' = map (\<lambda>d. (id_table d, id_field d)) ids"
      using i(1) by (simp add: r map_update list_update_same_conv)
    then have idx: "id_index ids' u g = id_index ids u g" for u g by (rule id_index_keys)
    have "lastid_of ids' k = lastid_of ids k" if "k \<noteq> (t, f)" for k
    proof (cases "id_index ids (fst k) (snd k)")
      case (Some j)
      then have "j \<noteq> i" using id_index_Some [OF Some] i that by (cases k) auto
      then show ?thesis using Some unfolding lastid_of_def idx by (simp add: r)
    qed (simp add: lastid_of_def idx)
    moreover have "lastid_of ids' (t, f) = Some (r - 1 + of_int n)" using Some i(1) unfolding lastid_of_def idx by (simp add: r)
    ultimately show ?thesis using Some by (simp add: lastid_of_def r)
  next
    case None
    then obtain l where r: "r = l + 1" "ids' = ids @ [\<lparr>id_table = take 63 t, id_field = take 63 f, lastid = l + of_int n\<rparr>]"
      using assms(1) by (auto simp: DCget_nextid_def Let_def split: if_splits option.splits prod.splits)
    have "lastid_of ids' k = lastid_of ids k" if "k \<noteq> (t, f)" for k
      using that assms(2,3) id_index_Some [of ids "fst k" "snd k"]
      by (cases k) (auto simp: lastid_of_def r id_index_snoc nth_append split: option.split)
    then show ?thesis using None assms(2,3) by (simp add: lastid_of_def r id_index_snoc nth_append)
  qed
  then show "lastid_of ids' (t, f) = Some (r - 1 + of_int n)"
    and "\<And>l. lastid_of ids (t, f) = Some l \<Longrightarrow> r = l + 1"
    and "\<And>k. k \<noteq> (t, f) \<Longrightarrow> lastid_of ids' k = lastid_of ids k" by blast+
qed

lemma id_run_ConsE:
  assumes "id_run tables max_in nodeid ids ((t, f, n) # reqs) = Inr rs"
  obtains r ids1 rs1 where "DCget_nextid tables max_in nodeid ids t f n = Inr (r, ids1)"
    "id_run tables max_in nodeid ids1 reqs = Inr rs1" "rs = ((t, f), r, n) # rs1"
proof (cases "DCget_nextid tables max_in nodeid ids t f n")
  case (Inr p)
  moreover obtain r ids1 where "p = (r, ids1)" by (cases p)
  ultimately show ?thesis using assms that by (cases "id_run tables max_in nodeid ids1 reqs") auto
qed (use assms in simp)

lemma id_run_consecutive:
  assumes "id_run tables max_in nodeid ids reqs = Inr rs" "\<forall>(t, f, n) \<in> set reqs. length t \<le> 63 \<and> length f \<le> 63"
    and "lastid_of ids k = Some l"
  shows "consecutive (l + 1) (blocks_of k rs)"
  using assms
proof (induction reqs arbitrary: ids rs l)
  case (Cons q reqs)
  obtain t f n where q: "q = (t, f, n)" by (metis prod_cases3)
  obtain r ids1 rs1 where d: "DCget_nextid tables max_in nodeid ids t f n = Inr (r, ids1)"
    "id_run tables max_in nodeid ids1 reqs = Inr rs1" "rs = ((t, f), r, n) # rs1"
    using id_run_ConsE [OF Cons.prems(1) [unfolded q]] .
  note last_facts = DCget_nextid_lastid [OF d(1)]
  show ?case
  proof (cases "k = (t, f)")
    case True
    then have "r = l + 1" "lastid_of ids1 k = Some (l + of_int n)" using last_facts Cons.prems(2,3) by (simp_all add: q)
    then show ?thesis using Cons.IH [OF d(2)] Cons.prems(2) d(3) True
      by (simp add: blocks_of_def add.commute add.left_commute)
  next
    case False
    then have "lastid_of ids1 k = Some l" using last_facts(3) Cons.prems(2,3) by (simp add: q)
    then show ?thesis using Cons.IH [OF d(2)] Cons.prems(2) d(3) False by (auto simp: blocks_of_def)
  qed
qed (simp add: blocks_of_def)

lemma id_run_from_empty:
  assumes "id_run tables max_in nodeid ids reqs = Inr rs" "\<forall>(t, f, n) \<in> set reqs. length t \<le> 63 \<and> length f \<le> 63"
    and "lastid_of ids k = None" "DBget_table tables (fst k) = Some tab" "id_range tab nodeid = (lo, hi)"
  shows "consecutive ((case max_in (fst k) (snd k) lo hi of None \<Rightarrow> lo + 1 | Some m \<Rightarrow> m) + 1) (blocks_of k rs)"
  using assms
proof (induction reqs arbitrary: ids rs)
  case (Cons q reqs)
  obtain t f n where q: "q = (t, f, n)" by (metis prod_cases3)
  obtain r ids1 rs1 where d: "DCget_nextid tables max_in nodeid ids t f n = Inr (r, ids1)"
    "id_run tables max_in nodeid ids1 reqs = Inr rs1" "rs = ((t, f), r, n) # rs1"
    using id_run_ConsE [OF Cons.prems(1) [unfolded q]] .
  note last_facts = DCget_nextid_lastid [OF d(1)]
  show ?case
  proof (cases "k = (t, f)")
    case True
    have "id_index ids t f = None" using Cons.prems(3) True by (simp add: lastid_of_def)
    then have r: "r = (case max_in (fst k) (snd k) lo hi of None \<Rightarrow> lo + 1 | Some m \<Rightarrow> m) + 1"
      using d(1) Cons.prems(4,5) True by (auto simp: DCget_nextid_def Let_def split: if_splits)
    moreover have "lastid_of ids1 k = Some (r - 1 + of_int n)" using last_facts(1) Cons.prems(2) True by (simp add: q)
    ultimately show ?thesis using id_run_consecutive [OF d(2), of k "r - 1 + of_int n"] Cons.prems(2) d(3) True
      by (simp add: blocks_of_def add.commute add.left_commute q)
  next
    case False
    then have "lastid_of ids1 k = None" using last_facts(3) Cons.prems(2,3) by (simp add: q)
    moreover have "blocks_of k rs = blocks_of k rs1" using False d(3) by (auto simp: blocks_of_def)
    ultimately show ?thesis using Cons.IH [OF d(2) _ _ Cons.prems(4,5)] Cons.prems(2) by (simp add: q)
  qed
qed (simp add: blocks_of_def)

text \<open>C35: requests for the ids of a cached table, among requests for any others, are given blocks
  of ids that follow one another without a gap; the first block starts right after the largest id
  in the table, or after the start of the node's range when the table is empty.  (The range's end
  is not looked at.)\<close>

theorem DCget_nextid_no_overlap:
  assumes "id_run tables max_in nodeid [] reqs = Inr rs"
    and "\<forall>(t, f, n) \<in> set reqs. (t, f) \<in> set cached_keys"
    and "DBget_table tables (fst k) = Some tab" "id_range tab nodeid = (lo, hi)"
  shows "consecutive ((case max_in (fst k) (snd k) lo hi of None \<Rightarrow> lo + 1 | Some m \<Rightarrow> m) + 1) (blocks_of k rs)"
proof (rule id_run_from_empty [OF assms(1) _ _ assms(3,4)])
  have "length t \<le> 63 \<and> length f \<le> 63" if "(t, f) \<in> set cached_keys" for t f
    using cached_short [OF that] by (metis take_all_iff)
  then show "\<forall>(t, f, n) \<in> set reqs. length t \<le> 63 \<and> length f \<le> 63" using assms(2) by blast
qed (simp add: lastid_of_def id_index_def)

theorem DCget_nextid_no_overlap_witness:
  "consecutive 41 (blocks_of (''alerts'', ''alertid'')
     [((''alerts'', ''alertid''), 41, 5), ((''dhosts'', ''dhostid''), 2, 1), ((''alerts'', ''alertid''), 46, 2)])"
  using DCget_nextid_no_overlap
    [of "map (\<lambda>(t, f). \<lparr>tab_name = t, tab_sync = False, tab_fields = [f]\<rparr>) cached_keys"
       "\<lambda>t f lo hi. if t = ''alerts'' then Some 40 else None" 0
       "[(''alerts'', ''alertid'', 5), (''dhosts'', ''dhostid'', 1), (''alerts'', ''alertid'', 2)]"
       "[((''alerts'', ''alertid''), 41, 5), ((''dhosts'', ''dhostid''), 2, 1), ((''alerts'', ''alertid''), 46, 2)]"
       "(''alerts'', ''alertid'')" "\<lparr>tab_name = ''alerts'', tab_sync = False, tab_fields = [''alertid'']\<rparr>" 0 99999999999999]
  by (simp add: cached_keys_def DBget_table_def DCget_nextid_def id_index_def id_range_def ZBX_IDS_SIZE_def)

subsection \<open>The table \<open>ids\<close>\<close>

lemma maxid_loop_three:
  assumes "lo < hi" and "\<And>m. max_of lo hi = Some m \<Longrightarrow> lo \<le> m \<and> m \<le> hi"
  shows "\<exists>res. maxid_loop 3 max_of lo hi num row = Some res
    \<and> (case res of Inl e \<Rightarrow> e = IdsExhausted \<and> max_of lo hi = Some hi
       | Inr (r, ret2) \<Rightarrow> lo \<le> r - 1 \<and> r - 1 < hi \<and> ret2 = r - 1 + of_int num)"
proof (cases row)
  case None
  show ?thesis using assms by (cases "max_of lo hi") (auto simp: None numeral_3_eq_3 Let_def dest: antisym)
next
  case (Some r)
  show ?thesis
    using assms by (cases "max_of lo hi") (auto simp: Some numeral_3_eq_3 Let_def not_less dest: antisym)
qed

text \<open>For a table whose ids come from \<open>ids\<close>, the loop ends within three rounds whatever the
  row holds, provided the maximum the database reports for the range lies in it: either the first id
  given is the successor of a value of the range below its end, and the row holds the last id given,
  or the maximum in the table is the end of the range.\<close>

theorem DBget_maxid_num_terminates:
  assumes "(table, field) \<notin> set cached_keys" "DBget_table tables table = Some t" "id_range t nodeid = (lo, hi)"
    and "lo < hi" and "\<And>m. max_in table field lo hi = Some m \<Longrightarrow> lo \<le> m \<and> m \<le> hi"
  shows "\<exists>res. DBget_maxid_num tables max_in nodeid (ids, rows) table field num = Some res
    \<and> (case res of Inl e \<Rightarrow> e = IdsExhausted \<and> max_in table field lo hi = Some hi
       | Inr (r, ids', rows') \<Rightarrow> lo \<le> r - 1 \<and> r - 1 < hi \<and> ids' = ids
           \<and> rows' table field = Some (r - 1 + of_int num)
           \<and> (\<forall>t' f'. (t', f') \<noteq> (table, field) \<longrightarrow> rows' t' f' = rows t' f'))"
proof -
  obtain res where "maxid_loop 3 (max_in table field) lo hi num (rows table field) = Some res"
    "case res of Inl e \<Rightarrow> e = IdsExhausted \<and> max_in table field lo hi = Some hi
     | Inr (r, ret2) \<Rightarrow> lo \<le> r - 1 \<and> r - 1 < hi \<and> ret2 = r - 1 + of_int num"
    using maxid_loop_three [where max_of = "max_in table field" and num = num and row = "rows table field", OF assms(4)] assms(5) by blast
  note loop = this
  have num: "DBget_maxid_num tables max_in nodeid (ids, rows) table field num =
    Some (map_sum id (\<lambda>(r, ret2). (r, ids, rows(table := (rows table)(field := Some ret2)))) res)"
    using assms(1-3) loop(1) by (simp add: DBget_maxid_num_def)
  show ?thesis
  proof (cases res)
    case (Inl e)
    then show ?thesis unfolding num using loop(2) by simp
  next
    case (Inr p)
    obtain r ret2 where p: "p = (r, ret2)" by (cases p)
    show ?thesis unfolding num Inr p using loop(2) by (simp add: Inr p)
  qed
qed

theorem DBget_maxid_num_terminates_witness:
  "\<exists>res. DBget_maxid_num [\<lparr>tab_name = ''t'', tab_sync = False, tab_fields = [''f'']\<rparr>] (\<lambda>t f lo hi. Some 40) 0
      ([], \<lambda>t f. None) ''t'' ''f'' 3 = Some res
    \<and> (case res of Inl e \<Rightarrow> e = IdsExhausted \<and> (Some 40 :: u64 option) = Some 99999999999999
       | Inr (r, ids', rows') \<Rightarrow> 0 \<le> r - 1 \<and> r - 1 < 99999999999999 \<and> ids' = []
           \<and> rows' ''t'' ''f'' = Some (r - 1 + of_int 3)
           \<and> (\<forall>t' f'. (t', f') \<noteq> (''t'', ''f'') \<longrightarrow> rows' t' f' = None))"
  by (rule DBget_maxid_num_terminates [where max_in = "\<lambda>t f lo hi. Some 40"
        and t = "\<lparr>tab_name = ''t'', tab_sync = False, tab_fields = [''f'']\<rparr>"])
    (simp_all add: cached_keys_def DBget_table_def id_range_def)

end
