(* ===== verification/TriggerValue.thy ===== *)
theory TriggerValue
  imports Prelude SqlEscape
begin

section \<open>Trigger values, events and dependencies\<close>

text \<open>
  \<open>DBupdate_trigger_value\<close> and the routines around it (\<open>libs/zbxdbhigh/db.c\<close>) and
  \<open>process_event\<close> (\<open>zabbix_server/events.c\<close>) on the tables \<open>triggers\<close>,
  \<open>trigger_depends\<close> and \<open>events\<close>.  What an event triggers beyond its row, the actions and
  the update of the services, is the list of calls made.  The id \<open>DBget_maxid\<close> hands out for
  \<open>events\<close> is an argument, a function of the table.
\<close>

definition TRIGGER_VALUE_FALSE :: int where "TRIGGER_VALUE_FALSE = 0"
definition TRIGGER_VALUE_TRUE :: int where "TRIGGER_VALUE_TRUE = 1"
definition TRIGGER_VALUE_UNKNOWN :: int where "TRIGGER_VALUE_UNKNOWN = 2"
definition TRIGGER_TYPE_NORMAL :: int where "TRIGGER_TYPE_NORMAL = 0"
definition TRIGGER_TYPE_MULTIPLE_TRUE :: int where "TRIGGER_TYPE_MULTIPLE_TRUE = 1"

lemmas trigger_codes = TRIGGER_VALUE_FALSE_def TRIGGER_VALUE_TRUE_def TRIGGER_VALUE_UNKNOWN_def
  TRIGGER_TYPE_NORMAL_def TRIGGER_TYPE_MULTIPLE_TRUE_def

datatype event_source = EVENT_SOURCE_TRIGGERS | EVENT_SOURCE_DISCOVERY
datatype event_object = EVENT_OBJECT_TRIGGER | EVENT_OBJECT_DHOST | EVENT_OBJECT_DSERVICE

record event_row =
  e_id :: u64
  e_source :: event_source
  e_object :: event_object
  e_objectid :: u64
  e_clock :: int
  e_value :: int

record trigger_row =
  tr_value :: int
  tr_type :: int
  tr_priority :: int
  tr_lastchange :: int
  tr_error :: string

record tdb =
  triggers :: "u64 \<Rightarrow> trigger_row option"
  trigger_depends :: "(u64 \<times> u64) list" \<comment> \<open>down, up\<close>
  events :: "event_row list"

text \<open>The part of \<open>DB_TRIGGER\<close> that is read: a copy of a row, made by the caller.\<close>

record db_trigger =
  triggerid :: u64
  t_type :: int
  t_value :: int

subsection \<open>Dependencies\<close>

definition depends_on :: "tdb \<Rightarrow> u64 \<Rightarrow> (u64 \<times> int) list" where
  "depends_on db t = [(up, tr_value r). (down, up) \<leftarrow> trigger_depends db, down = t,
     r \<leftarrow> (case triggers db up of None \<Rightarrow> [] | Some r \<Rightarrow> [r])]"

text \<open>The loop on the rows, with the recursive call and the counter \<open>*level\<close>.\<close>

fun dep_loop :: "(u64 \<Rightarrow> nat \<Rightarrow> (zret \<times> nat) option) \<Rightarrow> (u64 \<times> int) list \<Rightarrow> nat \<Rightarrow> (zret \<times> nat) option" where
  "dep_loop call [] level = Some (FAIL, level)"
| "dep_loop call ((t, v) # rows) level =
     (if v = TRIGGER_VALUE_TRUE then Some (SUCCEED, level)
      else (case call t level of
              None \<Rightarrow> None
            | Some (r, level1) \<Rightarrow> if r = SUCCEED then Some (SUCCEED, level1) else dep_loop call rows level1))"

text \<open>The first argument bounds the depth of the recursion; 33 are enough.\<close>

fun trigger_dependent_rec :: "nat \<Rightarrow> tdb \<Rightarrow> u64 \<Rightarrow> nat \<Rightarrow> (zret \<times> nat) option" where
  "trigger_dependent_rec 0 db t level = None"
| "trigger_dependent_rec (Suc n) db t level =
     (if level + 1 > 32 then Some (FAIL, level + 1)
      else dep_loop (trigger_dependent_rec n db) (depends_on db t) (level + 1))"

definition trigger_dependent :: "tdb \<Rightarrow> u64 \<Rightarrow> zret" where
  "trigger_dependent db t = (case trigger_dependent_rec 33 db t 0 of Some (r, _) \<Rightarrow> r | None \<Rightarrow> FAIL)"

subsection \<open>Events\<close>

definition events_of :: "tdb \<Rightarrow> u64 \<Rightarrow> event_row list" where
  "events_of db t = sort_key e_id (filter (\<lambda>e. e_source e = EVENT_SOURCE_TRIGGERS
     \<and> e_object e = EVENT_OBJECT_TRIGGER \<and> e_objectid e = t) (events db))"

definition statuses :: "tdb \<Rightarrow> u64 \<Rightarrow> int list" where
  "statuses db t = map e_value (events_of db t)"

text \<open>The previous and the latest status: the first two rows of the query, whose order is
  descending in \<open>eventid\<close>.\<close>

definition get_latest_event_status :: "tdb \<Rightarrow> u64 \<Rightarrow> int \<times> int" where
  "get_latest_event_status db t =
     (case take 2 (rev (statuses db t)) of
        [] \<Rightarrow> (TRIGGER_VALUE_UNKNOWN, TRIGGER_VALUE_UNKNOWN)
      | [latest] \<Rightarrow> (TRIGGER_VALUE_UNKNOWN, latest)
      | latest # prev # _ \<Rightarrow> (prev, latest))"

text \<open>\<open>add_trigger_info\<close>: the type and the priority of the trigger (those of the cleared
  event when the row is gone) and whether actions are skipped; the case of a normal trigger falls
  through.\<close>

definition skip_multiple :: "int \<Rightarrow> int \<Rightarrow> int \<Rightarrow> bool" where
  "skip_multiple prev latest v \<longleftrightarrow> v = TRIGGER_VALUE_UNKNOWN
     \<or> prev = TRIGGER_VALUE_FALSE \<and> latest = TRIGGER_VALUE_UNKNOWN \<and> v = TRIGGER_VALUE_FALSE
     \<or> prev = TRIGGER_VALUE_UNKNOWN \<and> latest = TRIGGER_VALUE_UNKNOWN \<and> v = TRIGGER_VALUE_FALSE"

definition skip_normal :: "int \<Rightarrow> int \<Rightarrow> int \<Rightarrow> bool" where
  "skip_normal prev latest v \<longleftrightarrow> v = TRIGGER_VALUE_UNKNOWN
     \<or> prev = TRIGGER_VALUE_TRUE \<and> latest = TRIGGER_VALUE_UNKNOWN \<and> v = TRIGGER_VALUE_TRUE
     \<or> prev = TRIGGER_VALUE_FALSE \<and> latest = TRIGGER_VALUE_UNKNOWN \<and> v = TRIGGER_VALUE_FALSE
     \<or> prev = TRIGGER_VALUE_UNKNOWN \<and> latest = TRIGGER_VALUE_UNKNOWN \<and> v = TRIGGER_VALUE_FALSE"

definition add_trigger_info :: "tdb \<Rightarrow> event_row \<Rightarrow> int \<times> bool" where
  "add_trigger_info db e =
     (if e_object e = EVENT_OBJECT_TRIGGER \<and> e_objectid e \<noteq> 0 then
        (let (ty, prio) = (case triggers db (e_objectid e) of
                             None \<Rightarrow> (0, 0) | Some r \<Rightarrow> (tr_type r, tr_priority r));
             (prev, latest) = get_latest_event_status db (e_objectid e)
         in (prio,
             if ty = TRIGGER_TYPE_NORMAL then
               skip_normal prev latest (e_value e) \<or> skip_multiple prev latest (e_value e)
             else if ty = TRIGGER_TYPE_MULTIPLE_TRUE then skip_multiple prev latest (e_value e)
             else False))
      else (0, False))"

datatype call = ProcessActions event_row | UpdateServices u64 int

definition process_event :: "(event_row list \<Rightarrow> u64) \<Rightarrow> tdb \<Rightarrow> event_row \<Rightarrow> zret \<times> tdb \<times> call list" where
  "process_event fresh db e =
     (let (prio, skip_actions) = add_trigger_info db e;
          e1 = (if e_id e = 0 then e\<lparr>e_id := fresh (events db)\<rparr> else e)
      in (SUCCEED, db\<lparr>events := events db @ [e1]\<rparr>,
          (if skip_actions then [] else [ProcessActions e1])
          @ (if e_object e = EVENT_OBJECT_TRIGGER then
               [UpdateServices (e_objectid e) (if e_value e = TRIGGER_VALUE_TRUE then prio else 0)]
             else [])))"

subsection \<open>Updating a trigger\<close>

definition TRIGGER_ERROR_LEN :: nat where "TRIGGER_ERROR_LEN = 128"

text \<open>The statement \<open>update triggers set value=..,lastchange=..,error=..\<close>; the error is
  escaped for the statement and so stored unescaped.\<close>

definition update_trigger_row :: "tdb \<Rightarrow> u64 \<Rightarrow> int \<Rightarrow> int \<Rightarrow> string \<Rightarrow> tdb" where
  "update_trigger_row db t v now err =
     db\<lparr>triggers := (triggers db)(t := map_option (\<lambda>r. r\<lparr>tr_value := v, tr_lastchange := now, tr_error := err\<rparr>)
          (triggers db t))\<rparr>"

definition stored_reason :: "string option \<Rightarrow> string" where
  "stored_reason reason = (case reason of None \<Rightarrow> [] | Some s \<Rightarrow> take TRIGGER_ERROR_LEN (drop_cr s))"

definition forced :: "db_trigger \<Rightarrow> int \<Rightarrow> bool" where
  "forced trigger new_value \<longleftrightarrow> t_type trigger = TRIGGER_TYPE_MULTIPLE_TRUE \<and> new_value = TRIGGER_VALUE_TRUE"

definition DBupdate_trigger_value :: "(event_row list \<Rightarrow> u64) \<Rightarrow> tdb \<Rightarrow> db_trigger \<Rightarrow> int \<Rightarrow> int \<Rightarrow> string option
    \<Rightarrow> zret \<times> tdb \<times> call list" where
  "DBupdate_trigger_value fresh db trigger new_value now reason =
     (let update_status =
            (if t_type trigger = TRIGGER_TYPE_MULTIPLE_TRUE then
               (t_value trigger \<noteq> new_value \<or> new_value = TRIGGER_VALUE_TRUE)
               \<and> trigger_dependent db (triggerid trigger) = FAIL
             else t_value trigger \<noteq> new_value \<and> trigger_dependent db (triggerid trigger) = FAIL)
      in if update_status then
           (let (prev, latest) = get_latest_event_status db (triggerid trigger);
                db1 = (if t_value trigger \<noteq> new_value \<or> forced trigger new_value then
                         update_trigger_row db (triggerid trigger) new_value now (stored_reason reason)
                       else db)
            in if latest \<noteq> new_value \<or> forced trigger new_value then
                 process_event fresh db1 \<lparr>e_id = 0, e_source = EVENT_SOURCE_TRIGGERS,
                   e_object = EVENT_OBJECT_TRIGGER, e_objectid = triggerid trigger, e_clock = now, e_value = new_value\<rparr>
               else (FAIL, db1, []))
         else (FAIL, db, []))"

subsection \<open>The dependency check is sound, and complete within its budget\<close>

text \<open>A trigger is dependent when a chain of dependencies leads from it to a trigger whose value
  is \<open>TRUE\<close>.\<close>

inductive dependent :: "tdb \<Rightarrow> u64 \<Rightarrow> bool" for db where
  direct: "(u, TRIGGER_VALUE_TRUE) \<in> set (depends_on db t) \<Longrightarrow> dependent db t"
| chain: "(u, v) \<in> set (depends_on db t) \<Longrightarrow> dependent db u \<Longrightarrow> dependent db t"

inductive_cases dependentE: "dependent db t"

lemma dep_loop_total:
  assumes "\<And>u l. m \<le> l \<Longrightarrow> \<exists>r l'. call u l = Some (r, l') \<and> l \<le> l' \<and> r \<in> {SUCCEED, FAIL}" "m \<le> level"
  shows "\<exists>r l'. dep_loop call rows level = Some (r, l') \<and> level \<le> l' \<and> r \<in> {SUCCEED, FAIL}"
  using assms(2)
proof (induction rows arbitrary: level)
  case (Cons q rows)
  obtain u v where q: "q = (u, v)" by (cases q)
  obtain r l1 where c: "call u level = Some (r, l1)" "level \<le> l1" "r \<in> {SUCCEED, FAIL}" using assms(1) [OF Cons.prems] by blast
  have "m \<le> l1" using Cons.prems c(2) by simp
  then obtain r2 l2 where "dep_loop call rows l1 = Some (r2, l2)" "l1 \<le> l2" "r2 \<in> {SUCCEED, FAIL}" using Cons.IH by blast
  then show ?case using c by (auto simp: q)
qed simp

lemma trigger_dependent_rec_total:
  assumes "0 < n" "33 \<le> n + level"
  shows "\<exists>r l'. trigger_dependent_rec n db t level = Some (r, l') \<and> level \<le> l' \<and> r \<in> {SUCCEED, FAIL}"
  using assms
proof (induction n arbitrary: t level)
  case (Suc n)
  show ?case
  proof (cases "level + 1 > 32")
    case False
    then have "0 < n" using Suc.prems by simp
    have "\<exists>r l'. trigger_dependent_rec n db u l = Some (r, l') \<and> l \<le> l' \<and> r \<in> {SUCCEED, FAIL}" if "level + 1 \<le> l" for u l
      by (rule Suc.IH) (use Suc.prems False that in simp_all)
    from dep_loop_total [where m = "level + 1" and call = "trigger_dependent_rec n db", OF this order_refl]
    show ?thesis using False by (fastforce dest: Suc_leD)
  qed simp
qed simp

lemma dep_loop_sound:
  assumes "dep_loop call rows level = Some (SUCCEED, l')"
  shows "\<exists>(u, v) \<in> set rows. v = TRIGGER_VALUE_TRUE \<or> (\<exists>l l1. call u l = Some (SUCCEED, l1))"
  using assms
  by (induction rows arbitrary: level) (fastforce split: if_splits option.splits prod.splits)+

lemma trigger_dependent_rec_sound: "trigger_dependent_rec n db t level = Some (SUCCEED, l') \<Longrightarrow> dependent db t"
proof (induction n arbitrary: t level l')
  case (Suc n)
  then have "dep_loop (trigger_dependent_rec n db) (depends_on db t) (level + 1) = Some (SUCCEED, l')"
    by (simp split: if_splits)
  from dep_loop_sound [OF this] obtain u v where uv: "(u, v) \<in> set (depends_on db t)"
    "v = TRIGGER_VALUE_TRUE \<or> (\<exists>l l1. trigger_dependent_rec n db u l = Some (SUCCEED, l1))" by blast
  then show ?case using Suc.IH dependent.intros by metis
qed simp

lemma dep_loop_complete:
  assumes "dep_loop call rows level = Some (FAIL, l')"
    and "\<And>u l r l1. call u l = Some (r, l1) \<Longrightarrow> l \<le> l1 \<and> r \<in> {SUCCEED, FAIL}"
  shows "level \<le> l' \<and> (\<forall>(u, v) \<in> set rows. v \<noteq> TRIGGER_VALUE_TRUE \<and> (\<exists>l l1. call u l = Some (FAIL, l1) \<and> l1 \<le> l'))"
  using assms(1)
proof (induction rows arbitrary: level)
  case (Cons q rows)
  obtain u v where q: "q = (u, v)" by (cases q)
  obtain r l1 where c: "v \<noteq> TRIGGER_VALUE_TRUE" "call u level = Some (r, l1)" "r \<noteq> SUCCEED" "dep_loop call rows l1 = Some (FAIL, l')"
    using Cons.prems by (auto simp: q split: if_splits option.splits)
  then have "level \<le> l1" "r = FAIL" using assms(2) by blast+
  then show ?case using Cons.IH [OF c(4)] c by (auto simp: q)
qed simp

lemma trigger_dependent_rec_mono:
  "trigger_dependent_rec n db t level = Some (r, l') \<Longrightarrow> level \<le> l' \<and> r \<in> {SUCCEED, FAIL}"
proof (induction n arbitrary: t level r l')
  case (Suc n)
  have "dep_loop (trigger_dependent_rec n db) rows l = Some (r, l') \<Longrightarrow> l \<le> l' \<and> r \<in> {SUCCEED, FAIL}" for rows l r l'
  proof (induction rows arbitrary: l)
    case (Cons q rows)
    then show ?case using Suc.IH by (cases q) (fastforce split: if_splits option.splits prod.splits)
  qed auto
  then show ?case using Suc.prems by (fastforce split: if_splits)
qed simp

lemma trigger_dependent_rec_complete:
  "trigger_dependent_rec n db t level = Some (FAIL, l') \<Longrightarrow> l' \<le> 32 \<Longrightarrow> \<not> dependent db t"
proof (induction n arbitrary: t level l')
  case (Suc n)
  then have "dep_loop (trigger_dependent_rec n db) (depends_on db t) (level + 1) = Some (FAIL, l')"
    by (auto split: if_splits)
  note complete = dep_loop_complete [OF this]
  have "level + 1 \<le> l' \<and> (\<forall>(u, v) \<in> set (depends_on db t). v \<noteq> TRIGGER_VALUE_TRUE
      \<and> (\<exists>l l1. trigger_dependent_rec n db u l = Some (FAIL, l1) \<and> l1 \<le> l'))"
    by (rule complete) (rule trigger_dependent_rec_mono)
  then have rows: "v \<noteq> TRIGGER_VALUE_TRUE \<and> (\<exists>l l1. trigger_dependent_rec n db u l = Some (FAIL, l1) \<and> l1 \<le> l')"
    if "(u, v) \<in> set (depends_on db t)" for u v using that by blast
  show ?case
  proof
    assume "dependent db t"
    then show False
    proof (rule dependentE)
      fix u assume "(u, TRIGGER_VALUE_TRUE) \<in> set (depends_on db t)"
      then show False using rows by blast
    next
      fix u v assume "(u, v) \<in> set (depends_on db t)" "dependent db u"
      then show False using rows Suc.IH Suc.prems(2) by (meson le_trans)
    qed
  qed
qed simp

text \<open>C14: the dependency check ends with success or failure on every dependency graph, cyclic
  ones included; success is never reported without a chain of dependencies to a trigger that is
  \<open>TRUE\<close>, and failure is right whenever the counter shows that at most 32 calls were made.\<close>

theorem trigger_dependent_correct:
  "\<exists>r level. trigger_dependent_rec 33 db t 0 = Some (r, level) \<and> trigger_dependent db t = r \<and> r \<in> {SUCCEED, FAIL}
     \<and> (r = SUCCEED \<longrightarrow> dependent db t) \<and> (r = FAIL \<and> level \<le> 32 \<longrightarrow> \<not> dependent db t)"
proof -
  obtain r level where r: "trigger_dependent_rec 33 db t 0 = Some (r, level)" "r \<in> {SUCCEED, FAIL}"
    using trigger_dependent_rec_total [of 33 0 db t] by auto
  moreover have "trigger_dependent db t = r" using r(1) by (simp add: trigger_dependent_def)
  moreover have "r = SUCCEED \<longrightarrow> dependent db t" using r(1) trigger_dependent_rec_sound by blast
  moreover have "r = FAIL \<and> level \<le> 32 \<longrightarrow> \<not> dependent db t" using r(1) trigger_dependent_rec_complete by blast
  ultimately show ?thesis by blast
qed

theorem trigger_dependent_correct_witness:
  "trigger_dependent \<lparr>triggers = (\<lambda>t. Some \<lparr>tr_value = (if t = 3 then 1 else 0), tr_type = 0, tr_priority = 0,
       tr_lastchange = 0, tr_error = []\<rparr>), trigger_depends = [(1, 2), (2, 3), (2, 1)], events = []\<rparr> 1 = SUCCEED
   \<and> dependent \<lparr>triggers = (\<lambda>t. Some \<lparr>tr_value = (if t = 3 then 1 else 0), tr_type = 0, tr_priority = 0,
       tr_lastchange = 0, tr_error = []\<rparr>), trigger_depends = [(1, 2), (2, 3), (2, 1)], events = []\<rparr> 1"
proof -
  let ?db = "\<lparr>triggers = (\<lambda>t. Some \<lparr>tr_value = (if t = 3 then 1 else 0), tr_type = 0, tr_priority = 0,
       tr_lastchange = 0, tr_error = []\<rparr>), trigger_depends = [(1, 2), (2, 3), (2, 1)], events = []\<rparr> :: tdb"
  have s: "trigger_dependent ?db 1 = SUCCEED"
    by (simp add: trigger_dependent_def depends_on_def eval_nat_numeral trigger_codes)
  then show ?thesis using trigger_dependent_correct [of ?db 1] by auto
qed

text \<open>The counter counts calls, not depth: a trigger that depends on 32 triggers that are not
  \<open>TRUE\<close> is reported independent of the next one's dependencies.\<close>

definition wide_graph :: tdb where
  "wide_graph = \<lparr>triggers = (\<lambda>t. Some \<lparr>tr_value = (if t = 99 then 1 else 0), tr_type = 0, tr_priority = 0,
     tr_lastchange = 0, tr_error = []\<rparr>),
     trigger_depends = map (\<lambda>i. (0, of_nat i)) [1..<34] @ [(33, 99)], events = []\<rparr>"

lemma trigger_dependent_counts_calls: "dependent wide_graph 0 \<and> trigger_dependent wide_graph 0 = FAIL"
proof
  have "(99, TRIGGER_VALUE_TRUE) \<in> set (depends_on wide_graph 33)"
    by (simp add: wide_graph_def depends_on_def TRIGGER_VALUE_TRUE_def)
  then have "dependent wide_graph 33" by (rule direct)
  moreover have "(33, 0) \<in> set (depends_on wide_graph 0)"
    by (auto simp: wide_graph_def depends_on_def image_iff intro!: bexI [of _ 33])
  ultimately show "dependent wide_graph 0" by (rule chain [rotated])
  show "trigger_dependent wide_graph 0 = FAIL" by code_simp
qed

subsection \<open>What an update does to the events\<close>

text \<open>No two neighbours are equal, from the status before the first event (unknown) on.\<close>

fun no_repeat :: "int \<Rightarrow> int list \<Rightarrow> bool" where
  "no_repeat v [] = True"
| "no_repeat v (w # ws) = (v \<noteq> w \<and> no_repeat w ws)"

lemma no_repeat_snoc: "no_repeat v (ws @ [w]) = (no_repeat v ws \<and> last (v # ws) \<noteq> w)"
  by (induction ws arbitrary: v) auto

lemma latest_status: "snd (get_latest_event_status db t) = last (TRIGGER_VALUE_UNKNOWN # statuses db t)"
proof (cases "rev (statuses db t)")
  case (Cons v vs)
  then have s: "statuses db t = rev vs @ [v]" by (metis rev.simps(2) rev_swap)
  then show ?thesis by (cases vs) (simp_all add: get_latest_event_status_def)
qed (simp add: get_latest_event_status_def)

lemma insort_key_last: "\<forall>x \<in> set xs. f x < f e \<Longrightarrow> insort_key f e xs = xs @ [e]"
  by (induction xs) auto

lemma insort_key_snoc: "f x < f e \<Longrightarrow> insort_key f x (xs @ [e]) = insort_key f x xs @ [e]"
  by (induction xs) auto

lemma sort_key_snoc: "\<forall>x \<in> set xs. f x < f e \<Longrightarrow> sort_key f (xs @ [e]) = sort_key f xs @ [e]"
  by (induction xs) (auto simp: insort_key_snoc)

definition fresh_id :: "(event_row list \<Rightarrow> u64) \<Rightarrow> tdb \<Rightarrow> bool" where
  "fresh_id fresh db \<longleftrightarrow> (\<forall>e \<in> set (events db). e_id e < fresh (events db))"

lemma statuses_update_row [simp]: "statuses (update_trigger_row db t v now err) u = statuses db u"
  by (simp add: statuses_def events_of_def update_trigger_row_def)

lemma events_update_row [simp]: "events (update_trigger_row db t v now err) = events db"
  by (simp add: update_trigger_row_def)

lemma fresh_update_row [simp]: "fresh_id fresh (update_trigger_row db t v now err) = fresh_id fresh db"
  by (simp add: fresh_id_def)

lemma latest_update_row [simp]: "get_latest_event_status (update_trigger_row db t v now err) u = get_latest_event_status db u"
  by (simp add: get_latest_event_status_def)

lemma process_event_statuses:
  assumes "process_event fresh db e = (r, db', calls)" "fresh_id fresh db" "e_id e = 0"
    and "e_source e = EVENT_SOURCE_TRIGGERS" "e_object e = EVENT_OBJECT_TRIGGER"
  shows "r = SUCCEED \<and> statuses db' u = statuses db u @ (if u = e_objectid e then [e_value e] else [])"
proof -
  let ?e = "e\<lparr>e_id := fresh (events db)\<rparr>" and ?P = "\<lambda>u e. e_source e = EVENT_SOURCE_TRIGGERS
     \<and> e_object e = EVENT_OBJECT_TRIGGER \<and> e_objectid e = u"
  have d: "r = SUCCEED" "events db' = events db @ [?e]"
    using assms(1,3) by (auto simp: process_event_def Let_def split: prod.splits)
  have "sort_key e_id (filter (?P u) (events db) @ [?e]) = sort_key e_id (filter (?P u) (events db)) @ [?e]"
    by (rule sort_key_snoc) (use assms(2) in \<open>auto simp: fresh_id_def\<close>)
  then show ?thesis using d assms(4,5) by (cases "u = e_objectid e") (simp_all add: statuses_def events_of_def)
qed

lemma DBupdate_trigger_value_events:
  assumes "DBupdate_trigger_value fresh db trigger v now reason = (r, db', calls)" "fresh_id fresh db"
  shows "(r = SUCCEED \<longrightarrow> (snd (get_latest_event_status db (triggerid trigger)) \<noteq> v \<or> forced trigger v)
        \<and> (\<forall>u. statuses db' u = statuses db u @ (if u = triggerid trigger then [v] else [])))
    \<and> (r \<noteq> SUCCEED \<longrightarrow> r = FAIL \<and> events db' = events db \<and> calls = [])"
proof -
  let ?e = "\<lparr>e_id = 0, e_source = EVENT_SOURCE_TRIGGERS, e_object = EVENT_OBJECT_TRIGGER,
      e_objectid = triggerid trigger, e_clock = now, e_value = v\<rparr>"
  let ?db1 = "if t_value trigger \<noteq> v \<or> forced trigger v
      then update_trigger_row db (triggerid trigger) v now (stored_reason reason) else db"
  have fresh: "fresh_id fresh ?db1" using assms(2) by simp
  have stat: "statuses ?db1 u = statuses db u" for u by simp
  consider "r = FAIL" "calls = []" "events db' = events db"
    | "process_event fresh ?db1 ?e = (r, db', calls)" "snd (get_latest_event_status db (triggerid trigger)) \<noteq> v \<or> forced trigger v"
    using assms(1) by (auto simp: DBupdate_trigger_value_def Let_def split: if_splits prod.splits)
  then show ?thesis
  proof cases
    case 2
    from process_event_statuses [OF 2(1) fresh] show ?thesis using 2(2) stat by simp
  qed simp
qed

text \<open>Runs of updates from a database without events; the set holds the triggers of which no
  caller has a copy of type multiple.\<close>

inductive trigger_run :: "(event_row list \<Rightarrow> u64) \<Rightarrow> u64 set \<Rightarrow> tdb \<Rightarrow> bool" for fresh normal where
  start: "events db = [] \<Longrightarrow> trigger_run fresh normal db"
| update: "trigger_run fresh normal db \<Longrightarrow> fresh_id fresh db
    \<Longrightarrow> (t_type trigger = TRIGGER_TYPE_MULTIPLE_TRUE \<Longrightarrow> triggerid trigger \<notin> normal)
    \<Longrightarrow> DBupdate_trigger_value fresh db trigger v now reason = (r, db', calls) \<Longrightarrow> trigger_run fresh normal db'"

lemma events_alternate_aux: "trigger_run fresh normal db \<Longrightarrow> t \<in> normal \<Longrightarrow> no_repeat TRIGGER_VALUE_UNKNOWN (statuses db t)"
proof (induction rule: trigger_run.induct)
  case (start db)
  then show ?case by (simp add: statuses_def events_of_def)
next
  case (update db trigger v now reason r db' calls)
  from DBupdate_trigger_value_events [OF update.hyps(4,2)]
  have *: "r = SUCCEED \<Longrightarrow> (last (TRIGGER_VALUE_UNKNOWN # statuses db (triggerid trigger)) \<noteq> v \<or> forced trigger v)
        \<and> statuses db' t = statuses db t @ (if t = triggerid trigger then [v] else [])"
    "r \<noteq> SUCCEED \<Longrightarrow> statuses db' t = statuses db t"
    unfolding latest_status by (simp_all add: statuses_def events_of_def)
  show ?case
  proof (cases "r = SUCCEED \<and> t = triggerid trigger")
    case True
    then have "\<not> forced trigger v" using update.hyps(3) update.prems by (auto simp: forced_def)
    then show ?thesis using True * update.IH [OF update.prems] by (simp add: no_repeat_snoc)
  next
    case False
    then show ?thesis using * update.IH [OF update.prems] by (cases "r = SUCCEED") auto
  qed
qed


text \<open>The status a normal trigger had before it became unknown; \<open>FALSE\<close> at first.\<close>

definition last_known :: "int list \<Rightarrow> int" where
  "last_known vs = last (TRIGGER_VALUE_FALSE # filter (\<lambda>v. v \<noteq> TRIGGER_VALUE_UNKNOWN) vs)"

lemma skip_normal_iff:
  assumes "no_repeat TRIGGER_VALUE_UNKNOWN (statuses db t)" "get_latest_event_status db t = (prev, latest)"
    and "v \<in> {TRIGGER_VALUE_FALSE, TRIGGER_VALUE_TRUE, TRIGGER_VALUE_UNKNOWN}" "latest \<noteq> v"
  shows "skip_normal prev latest v \<or> skip_multiple prev latest v
    \<longleftrightarrow> v = TRIGGER_VALUE_UNKNOWN \<or> v = last_known (statuses db t)"
proof (cases "rev (statuses db t)")
  case Nil
  then have "prev = TRIGGER_VALUE_UNKNOWN" "latest = TRIGGER_VALUE_UNKNOWN" "statuses db t = []"
    using assms(2) by (simp_all add: get_latest_event_status_def)
  then show ?thesis using assms(3) by (auto simp: skip_normal_def skip_multiple_def last_known_def trigger_codes)
next
  case (Cons w ws)
  then have s: "statuses db t = rev ws @ [w]" by (metis rev.simps(2) rev_swap)
  have w: "latest = w" using latest_status [of db t] assms(2) s by simp
  show ?thesis
  proof (cases ws)
    case Nil
    then show ?thesis using s w assms
      by (auto simp: get_latest_event_status_def skip_normal_def skip_multiple_def last_known_def trigger_codes)
  next
    case (Cons p ps)
    then have "prev = p" "p \<noteq> w"
      using s w assms(1,2) no_repeat_snoc [of TRIGGER_VALUE_UNKNOWN "rev ps @ [p]" w]
      by (simp_all add: get_latest_event_status_def)
    then show ?thesis using s w Cons assms(3,4)
      by (auto simp: skip_normal_def skip_multiple_def last_known_def trigger_codes)
  qed
qed


definition sample_db :: tdb where
  "sample_db = \<lparr>triggers = [5 \<mapsto> \<lparr>tr_value = 0, tr_type = 0, tr_priority = 3, tr_lastchange = 0, tr_error = []\<rparr>],
     trigger_depends = [], events = []\<rparr>"

definition sample_fresh :: "event_row list \<Rightarrow> u64" where
  "sample_fresh es = of_nat (length es) + 1"

lemma sample_facts: "trigger_run sample_fresh {5} sample_db" "fresh_id sample_fresh sample_db"
  by (rule start) (simp_all add: sample_db_def fresh_id_def)



end
