(* ===== verification/ItemUpdate.thy ===== *)
theory ItemUpdate
  imports Trends SqlEscape Numbers SortedArrays
begin

section \<open>Writing a batch: the items\<close>

text \<open>
  \<open>DCmass_update_item\<close> and \<open>DCmass_proxy_update_item\<close> (\<open>libs/zbxdbcache/dbcache.c\<close>)
  with \<open>DBget_item_from_db\<close> (the columns they use) and \<open>DBmultiply_value_*\<close>
  (\<open>libs/zbxdbhigh/db.c\<close>): the server computes the value to store from the value received, the
  item's settings and the previous reading kept in the table \<open>items\<close>.
\<close>

text \<open>Further operations on doubles: comparison, subtraction, the conversions, \<open>atof\<close> and the
  rendering of \<open>ZBX_FS_DBL\<close>.\<close>

record 'f num_ops = "'f double_ops" +
  f_le :: "'f \<Rightarrow> 'f \<Rightarrow> bool"
  f_sub :: "'f \<Rightarrow> 'f \<Rightarrow> 'f"
  f_of_u64 :: "u64 \<Rightarrow> 'f"
  f_to_u64 :: "'f \<Rightarrow> u64"
  f_atof :: "string \<Rightarrow> 'f"
  f_show :: "'f \<Rightarrow> string"

abbreviation base_ops :: "'f num_ops \<Rightarrow> 'f double_ops" where
  "base_ops N \<equiv> double_ops.truncate N"

datatype delta_kind = ITEM_STORE_AS_IS | ITEM_STORE_SPEED_PER_SECOND | ITEM_STORE_SIMPLE_CHANGE

definition ITEM_STATUS_ACTIVE :: int where "ITEM_STATUS_ACTIVE = 0"
definition ITEM_STATUS_NOTSUPPORTED :: int where "ITEM_STATUS_NOTSUPPORTED = 3"
definition ITEM_LASTVALUE_LEN :: nat where "ITEM_LASTVALUE_LEN = 255"

text \<open>A row of \<open>items\<close>, the columns the batch reads or writes.\<close>

record item_row =
  ir_value_type :: value_type
  ir_history :: int
  ir_trends :: int
  ir_delta :: delta_kind
  ir_multiplier :: bool
  ir_formula :: string
  ir_status :: int
  ir_lastvalue :: "string option"
  ir_prevvalue :: "string option"
  ir_prevorgvalue :: "string option"
  ir_lastclock :: "int option"
  ir_lastlogsize :: int
  ir_error :: string

type_synonym items = "u64 \<Rightarrow> item_row option"

text \<open>\<open>ZBX_STR2UINT64\<close>; without a match the destination keeps its value.\<close>

definition STR2UINT64 :: "u64 \<Rightarrow> string \<Rightarrow> u64" where
  "STR2UINT64 old s = (case sscanf [ScanInt] s of [IntV i] \<Rightarrow> of_int i | _ \<Rightarrow> old)"

text \<open>A value of \<open>DB_ITEM\<close>: the null flag and one member for each kind of value; the struct is
  reused from row to row, so a member that is not assigned keeps what it held.\<close>

record 'f item_value =
  v_null :: bool
  v_dbl :: 'f
  v_uint64 :: u64
  v_str :: string

definition load_value :: "'f num_ops \<Rightarrow> value_type \<Rightarrow> 'f item_value \<Rightarrow> string option \<Rightarrow> 'f item_value" where
  "load_value N vt old col =
     (case col of
        None \<Rightarrow> old\<lparr>v_null := True\<rparr>
      | Some s \<Rightarrow>
        (case vt of
           VT_FLOAT \<Rightarrow> old\<lparr>v_null := False, v_dbl := f_atof N s\<rparr>
         | VT_UINT64 \<Rightarrow> old\<lparr>v_null := False, v_uint64 := STR2UINT64 (v_uint64 old) s\<rparr>
         | _ \<Rightarrow> old\<lparr>v_null := False, v_str := s\<rparr>))"

record 'f db_item =
  i_row :: item_row \<comment> \<open>the columns copied as they are\<close>
  i_last :: "'f item_value"
  i_prev :: "'f item_value"
  i_prevorg :: "'f item_value"
  i_lastclock :: int

definition DBget_item_from_db :: "'f num_ops \<Rightarrow> 'f db_item \<Rightarrow> item_row \<Rightarrow> 'f db_item" where
  "DBget_item_from_db N old r =
     \<lparr>i_row = r,
      i_last = load_value N (ir_value_type r) (i_last old) (ir_lastvalue r),
      i_prev = load_value N (ir_value_type r) (i_prev old) (ir_prevvalue r),
      i_prevorg = load_value N (ir_value_type r) (i_prevorg old) (ir_prevorgvalue r),
      i_lastclock = (case ir_lastclock r of None \<Rightarrow> 0 | Some c \<Rightarrow> c)\<rparr>"

definition DBmultiply_value_float :: "'f num_ops \<Rightarrow> item_row \<Rightarrow> 'f \<Rightarrow> 'f" where
  "DBmultiply_value_float N r v = (if \<not> ir_multiplier r then v else f_mul N v (f_atof N (ir_formula r)))"

definition DBmultiply_value_uint64 :: "'f num_ops \<Rightarrow> item_row \<Rightarrow> u64 \<Rightarrow> u64" where
  "DBmultiply_value_uint64 N r v =
     (if \<not> ir_multiplier r then v
      else (case is_uint64 (ir_formula r) of
              Some m \<Rightarrow> v * m
            | None \<Rightarrow> f_to_u64 N (f_mul N (f_of_u64 N v) (f_atof N (ir_formula r)))))"

subsection \<open>The assignments of one update\<close>

datatype item_set =
    SetLastclock int
  | PrevFromLast \<comment> \<open>\<open>prevvalue=lastvalue\<close>\<close>
  | SetPrevorg "string option"
  | SetLast string
  | SetLastlogsize int
  | SetStatus int

fun apply_set :: "item_row \<Rightarrow> item_set \<Rightarrow> item_row \<Rightarrow> item_row" where
  "apply_set old (SetLastclock c) r = r\<lparr>ir_lastclock := Some c\<rparr>"
| "apply_set old PrevFromLast r = r\<lparr>ir_prevvalue := ir_lastvalue old\<rparr>"
| "apply_set old (SetPrevorg v) r = r\<lparr>ir_prevorgvalue := v\<rparr>"
| "apply_set old (SetLast v) r = r\<lparr>ir_lastvalue := Some v\<rparr>"
| "apply_set old (SetLastlogsize n) r = r\<lparr>ir_lastlogsize := n\<rparr>"
| "apply_set old (SetStatus s) r = r\<lparr>ir_status := s, ir_error := []\<rparr>"

datatype item_stmt = UpdateItem u64 "item_set list"

fun exec_item :: "item_stmt \<Rightarrow> items \<Rightarrow> items" where
  "exec_item (UpdateItem item sets) items =
     items(item := map_option (\<lambda>old. fold (apply_set old) sets old) (items item))"

definition exec_items :: "item_stmt list \<Rightarrow> items \<Rightarrow> items" where
  "exec_items stmts items = fold exec_item stmts items"

text \<open>The value to store (none: \<open>value_null\<close>) and the assignments.\<close>

definition float_update :: "'f num_ops \<Rightarrow> 'f db_item \<Rightarrow> 'f \<Rightarrow> int \<Rightarrow> 'f option \<times> item_set list" where
  "float_update N item orig clk =
     (let r = i_row item; p = i_prevorg item;
          store = (\<lambda>v. (Some v, [PrevFromLast, SetPrevorg (Some (f_show N orig)), SetLast (f_show N v)]));
          skip = (None, [SetPrevorg (Some (f_show N orig))])
      in case ir_delta r of
           ITEM_STORE_AS_IS \<Rightarrow>
             (let v = DBmultiply_value_float N r orig
              in (Some v, [PrevFromLast, SetPrevorg None, SetLast (f_show N v)]))
         | ITEM_STORE_SPEED_PER_SECOND \<Rightarrow>
             if \<not> v_null p \<and> f_le N (v_dbl p) orig \<and> i_lastclock item < clk then
               store (DBmultiply_value_float N r (f_div N (f_sub N orig (v_dbl p)) (f_of_int N (clk - i_lastclock item))))
             else skip
         | ITEM_STORE_SIMPLE_CHANGE \<Rightarrow>
             if \<not> v_null p \<and> f_le N (v_dbl p) orig then store (DBmultiply_value_float N r (f_sub N orig (v_dbl p)))
             else skip)"

definition uint_update :: "'f num_ops \<Rightarrow> 'f db_item \<Rightarrow> u64 \<Rightarrow> int \<Rightarrow> u64 option \<times> item_set list" where
  "uint_update N item orig clk =
     (let r = i_row item; p = i_prevorg item;
          store = (\<lambda>v. (Some v, [PrevFromLast, SetPrevorg (Some (show_u64 orig)), SetLast (show_u64 v)]));
          skip = (None, [SetPrevorg (Some (show_u64 orig))])
      in case ir_delta r of
           ITEM_STORE_AS_IS \<Rightarrow>
             (let v = DBmultiply_value_uint64 N r orig
              in (Some v, [PrevFromLast, SetPrevorg None, SetLast (show_u64 v)]))
         | ITEM_STORE_SPEED_PER_SECOND \<Rightarrow>
             if \<not> v_null p \<and> v_uint64 p \<le> orig \<and> i_lastclock item < clk then
               store (DBmultiply_value_uint64 N r ((orig - v_uint64 p) div of_int (clk - i_lastclock item)))
             else skip
         | ITEM_STORE_SIMPLE_CHANGE \<Rightarrow>
             if \<not> v_null p \<and> v_uint64 p \<le> orig then store (DBmultiply_value_uint64 N r (orig - v_uint64 p))
             else skip)"

text \<open>What a text item shows as its last value: the escaped literal is read back by the database
  (\<open>DBdyn_escape_string_len\<close>).\<close>

definition shown_text :: "('f, string) hvalue \<Rightarrow> string" where
  "shown_text v = take ITEM_LASTVALUE_LEN (drop_cr (case v of HStr s \<Rightarrow> s | _ \<Rightarrow> []))"

subsection \<open>The batch\<close>

text \<open>One entry with its item; \<open>proxy\<close> overrides what is kept and computed.\<close>

definition update_entry :: "'f num_ops \<Rightarrow> bool \<Rightarrow> 'f db_item \<Rightarrow> ('f, string) dc_history
    \<Rightarrow> ('f, string) dc_history \<times> item_set list" where
  "update_entry N proxy item h =
     (let r = i_row item;
          item1 = (if proxy then item\<lparr>i_row := r\<lparr>ir_delta := ITEM_STORE_AS_IS\<rparr>\<rparr> else item);
          h1 = (if proxy then h\<lparr>keep_history := 1, keep_trends := 0\<rparr>
                else h\<lparr>keep_history := ir_history r, keep_trends := ir_trends r\<rparr>);
          (h2, sets) =
            (case value_type h of
               VT_FLOAT \<Rightarrow>
                 (case float_update N item1 (as_float (base_ops N) (value_orig h)) (clock h) of
                    (Some v, ss) \<Rightarrow> (h1\<lparr>hvalue := HFloat v\<rparr>, ss)
                  | (None, ss) \<Rightarrow> (h1\<lparr>value_null := True\<rparr>, ss))
             | VT_UINT64 \<Rightarrow>
                 (case uint_update N item1 (as_uint (base_ops N) (value_orig h)) (clock h) of
                    (Some v, ss) \<Rightarrow> (h1\<lparr>hvalue := HUint v\<rparr>, ss)
                  | (None, ss) \<Rightarrow> (h1\<lparr>value_null := True\<rparr>, ss))
             | VT_LOG \<Rightarrow> (h1, [PrevFromLast, SetLast (shown_text (value_orig h)), SetLastlogsize (lastlogsize h)])
             | _ \<Rightarrow> (h1, [PrevFromLast, SetLast (shown_text (value_orig h))]))
      in (h2, SetLastclock (clock h) # sets
              @ (if ir_status r = ITEM_STATUS_NOTSUPPORTED then [SetStatus ITEM_STATUS_ACTIVE] else [])))"

text \<open>The first entry of the batch for an item.\<close>

definition entry_of :: "('f, string) dc_history list \<Rightarrow> u64 \<Rightarrow> nat option" where
  "entry_of hs item = find (\<lambda>i. itemid (hs ! i) = item) [0..<length hs]"

text \<open>The loop over the rows of the query, in the order of the ids; \<open>old\<close> is the reused
  struct.\<close>

fun update_loop :: "'f num_ops \<Rightarrow> bool \<Rightarrow> 'f db_item \<Rightarrow> (u64 \<times> item_row) list \<Rightarrow> ('f, string) dc_history list
    \<Rightarrow> ('f, string) dc_history list \<times> item_stmt list" where
  "update_loop N proxy old [] hs = (hs, [])"
| "update_loop N proxy old ((item, r) # rows) hs =
     (let it = DBget_item_from_db N old r
      in case entry_of hs item of
           None \<Rightarrow> update_loop N proxy it rows hs
         | Some i \<Rightarrow>
           let (h1, sets) = update_entry N proxy it (hs ! i);
               (hs1, stmts) = update_loop N proxy it rows (hs[i := h1])
           in (hs1, UpdateItem item sets # stmts))"

definition batch_ids :: "('f, string) dc_history list \<Rightarrow> u64 list" where
  "batch_ids hs = vals (foldl (\<lambda>a h. snd (uint64_array_add a (itemid h))) \<lparr>vals = [], alloc = 1024\<rparr> hs)"

definition select_items :: "items \<Rightarrow> u64 list \<Rightarrow> (u64 \<times> item_row) list" where
  "select_items items ids = [(item, r). item \<leftarrow> ids, r \<leftarrow> (case items item of None \<Rightarrow> [] | Some r \<Rightarrow> [r])]"

definition DCmass_update_item :: "'f num_ops \<Rightarrow> bool \<Rightarrow> 'f db_item \<Rightarrow> items \<Rightarrow> ('f, string) dc_history list
    \<Rightarrow> ('f, string) dc_history list \<times> items" where
  "DCmass_update_item N proxy stale items hs =
     (let (hs1, stmts) = update_loop N proxy stale (select_items items (batch_ids hs)) hs
      in (hs1, exec_items stmts items))"

text \<open>The proxy keeps only the position in log files: the largest of the batch for each item.\<close>

definition max_logsize :: "('f, string) dc_history list \<Rightarrow> u64 \<Rightarrow> int" where
  "max_logsize hs item =
     foldl (\<lambda>m h. if itemid h \<noteq> item then m else if value_type h \<noteq> VT_LOG then m
                   else if m < lastlogsize h then lastlogsize h else m) (-1) hs"

definition DCmass_proxy_update_item :: "items \<Rightarrow> ('f, string) dc_history list \<Rightarrow> items" where
  "DCmass_proxy_update_item items hs =
     (let ids = batch_ids (filter (\<lambda>h. value_type h = VT_LOG) hs)
      in exec_items [UpdateItem item [SetLastlogsize (max_logsize hs item)]. item \<leftarrow> ids, max_logsize hs item \<noteq> -1] items)"

subsection \<open>Each item is updated from its own row\<close>

lemma batch_ids_spec: "sorted_wrt (<) (batch_ids hs) \<and> set (batch_ids hs) = itemid ` set hs"
proof -
  have "array_wf (foldl (\<lambda>a h. snd (uint64_array_add a (itemid h))) a hs)
      \<and> set (vals (foldl (\<lambda>a h. snd (uint64_array_add a (itemid h))) a hs)) = set (vals a) \<union> itemid ` set hs"
    if "array_wf a" for a
    using that
  proof (induction hs arbitrary: a)
    case (Cons h hs)
    from uint64_array_add_spec [OF Cons.prems, of "itemid h"] Cons.IH [of "snd (uint64_array_add a (itemid h))"]
    show ?case by auto
  qed simp
  from this [of "\<lparr>vals = [], alloc = 1024\<rparr>"] show ?thesis by (simp add: batch_ids_def array_wf_def)
qed

lemma select_items_keys: "map fst (select_items items ids) = filter (\<lambda>i. items i \<noteq> None) ids"
  by (induction ids) (auto simp: select_items_def split: option.splits)

lemma select_items_set: "(i, r) \<in> set (select_items items ids) \<longleftrightarrow> i \<in> set ids \<and> items i = Some r"
  by (induction ids) (auto simp: select_items_def split: option.splits)

lemma entry_of_distinct:
  assumes "distinct (map itemid hs)"
  shows "entry_of hs item = Some i \<longleftrightarrow> i < length hs \<and> itemid (hs ! i) = item"
proof -
  have "entry_of hs item = Some i \<Longrightarrow> i < length hs \<and> itemid (hs ! i) = item"
    by (auto simp: entry_of_def find_Some_iff)
  moreover have "entry_of hs item = Some i" if "i < length hs" "itemid (hs ! i) = item"
  proof -
    have u: "j = i" if "j < length hs" "itemid (hs ! j) = item" for j
      using assms that \<open>i < length hs\<close> \<open>itemid (hs ! i) = item\<close> by (simp add: distinct_conv_nth) metis
    have "entry_of hs item \<noteq> None" using that by (auto simp: entry_of_def find_None_iff)
    then obtain j where "entry_of hs item = Some j" by blast
    moreover have "j < length hs \<and> itemid (hs ! j) = item"
      using \<open>entry_of hs item = Some j\<close> by (auto simp: entry_of_def find_Some_iff)
    ultimately show ?thesis using u by blast
  qed
  ultimately show ?thesis by blast
qed

lemma update_entry_itemid [simp]: "itemid (fst (update_entry N proxy it h)) = itemid h"
  by (auto simp: update_entry_def Let_def split: value_type.splits option.splits prod.splits)

text \<open>A row is readable when the previous reading of an unsigned item is null or a number; then
  what the struct held before does not matter.\<close>

definition readable :: "item_row \<Rightarrow> bool" where
  "readable r \<longleftrightarrow> (case ir_prevorgvalue r of None \<Rightarrow> True
     | Some s \<Rightarrow> ir_value_type r = VT_UINT64 \<longrightarrow> (\<forall>a. STR2UINT64 a s = STR2UINT64 0 s))"

lemma update_entry_stale:
  assumes "value_type h = ir_value_type r" "readable r"
  shows "update_entry N proxy (DBget_item_from_db N old r) h = update_entry N proxy (DBget_item_from_db N new r) h"
proof -
  consider (num) s w where "ir_value_type r = VT_UINT64" "ir_prevorgvalue r = Some s" "\<And>a. STR2UINT64 a s = w"
    | (other) "ir_value_type r \<noteq> VT_UINT64 \<or> ir_prevorgvalue r = None"
    using assms(2) by (cases "ir_prevorgvalue r") (auto simp: readable_def)
  then show ?thesis
  proof cases
    case num
    then show ?thesis using assms(1)
      by (cases "ir_delta r") (simp_all add: update_entry_def DBget_item_from_db_def load_value_def uint_update_def Let_def)
  next
    case other
    then show ?thesis using assms(1)
      by (cases "ir_value_type r"; cases "ir_prevorgvalue r"; cases "ir_delta r")
        (simp_all add: update_entry_def DBget_item_from_db_def load_value_def float_update_def uint_update_def Let_def)
  qed
qed

lemma update_loop_frame:
  assumes "update_loop N proxy old rows hs = (hs', stmts)" "distinct (map itemid hs)" "distinct (map fst rows)"
    and "\<forall>(item, r) \<in> set rows. readable r \<and> (\<forall>h \<in> set hs. itemid h = item \<longrightarrow> value_type h = ir_value_type r)"
    and "\<forall>(item, r) \<in> set rows. item \<in> itemid ` set hs"
  shows "length hs' = length hs
    \<and> (\<forall>i < length hs. hs' ! i = (case map_of rows (itemid (hs ! i)) of None \<Rightarrow> hs ! i
                          | Some r \<Rightarrow> fst (update_entry N proxy (DBget_item_from_db N new r) (hs ! i))))
    \<and> stmts = map (\<lambda>(item, r). UpdateItem item (snd (update_entry N proxy (DBget_item_from_db N new r)
                      (hs ! the (entry_of hs item))))) rows"
  using assms
proof (induction rows arbitrary: old hs hs' stmts)
  case (Cons q rows)
  obtain item r where q: "q = (item, r)" by (cases q)
  obtain i where i: "entry_of hs item = Some i" "i < length hs" "itemid (hs ! i) = item"
    using Cons.prems(2,5) entry_of_distinct [OF Cons.prems(2), of item] by (auto simp: q in_set_conv_nth)
  let ?u = "update_entry N proxy (DBget_item_from_db N new r) (hs ! i)"
  let ?hs1 = "hs[i := fst ?u]"
  have vt: "value_type (hs ! i) = ir_value_type r" and rd: "readable r" using Cons.prems(4) i by (auto simp: q)
  have st: "update_entry N proxy (DBget_item_from_db N old r) (hs ! i) = ?u" by (rule update_entry_stale [OF vt rd])
  obtain hs2 ss where l: "update_loop N proxy (DBget_item_from_db N old r) rows ?hs1 = (hs2, ss)"
    by (cases "update_loop N proxy (DBget_item_from_db N old r) rows ?hs1")
  then have r: "hs' = hs2" "stmts = UpdateItem item (snd ?u) # ss"
    using Cons.prems(1) i st by (simp_all add: q Let_def split: prod.splits)
  have ids: "map itemid ?hs1 = map itemid hs" using i by (simp add: map_update list_update_same_conv)
  have mem: "itemid ` set ?hs1 = itemid ` set hs" by (metis ids set_map)
  have notin: "item \<notin> fst ` set rows" using Cons.prems(3) by (simp add: q)
  have other: "h \<in> set hs" if "h \<in> set ?hs1" "itemid h \<noteq> item" for h
    using that i by (auto simp: in_set_conv_nth nth_list_update split: if_splits)
  have e: "entry_of ?hs1 k = entry_of hs k" for k
  proof -
    have "itemid (?hs1 ! j) = itemid (hs ! j)" for j using i(2) by (cases "j = i") simp_all
    then show ?thesis by (simp add: entry_of_def)
  qed
  have IH: "length hs2 = length ?hs1
    \<and> (\<forall>j < length ?hs1. hs2 ! j = (case map_of rows (itemid (?hs1 ! j)) of None \<Rightarrow> ?hs1 ! j
                          | Some r \<Rightarrow> fst (update_entry N proxy (DBget_item_from_db N new r) (?hs1 ! j))))
    \<and> ss = map (\<lambda>(item, r). UpdateItem item (snd (update_entry N proxy (DBget_item_from_db N new r)
                      (?hs1 ! the (entry_of ?hs1 item))))) rows"
  proof (rule Cons.IH [OF l])
    show "distinct (map itemid ?hs1)" using ids Cons.prems(2) by simp
    show "distinct (map fst rows)" using Cons.prems(3) by (simp add: q)
    show "\<forall>(k, r) \<in> set rows. readable r \<and> (\<forall>h \<in> set ?hs1. itemid h = k \<longrightarrow> value_type h = ir_value_type r)"
    proof (rule ballI, clarify)
      fix k r' assume k: "(k, r') \<in> set rows"
      have "h \<in> set hs" if "h \<in> set ?hs1" "itemid h = k" for h
        by (rule other [OF that(1)]) (use that k notin in force)
      then show "readable r' \<and> (\<forall>h \<in> set ?hs1. itemid h = k \<longrightarrow> value_type h = ir_value_type r')"
        using Cons.prems(4) k unfolding q by simp blast
    qed
    show "\<forall>(k, r) \<in> set rows. k \<in> itemid ` set ?hs1" using Cons.prems(5) mem by (auto simp: q)
  qed
  have ne: "itemid (hs ! j) \<noteq> item" if "j < length hs" "j \<noteq> i" for j
    using entry_of_distinct [OF Cons.prems(2), of item j] i(1) that by auto
  have none: "map_of rows item = None" using notin by (simp add: map_of_eq_None_iff)
  show ?case
  proof (intro conjI allI impI)
    show "length hs' = length hs" using IH r by simp
    fix j assume j: "j < length hs"
    show "hs' ! j = (case map_of (q # rows) (itemid (hs ! j)) of None \<Rightarrow> hs ! j
                          | Some r \<Rightarrow> fst (update_entry N proxy (DBget_item_from_db N new r) (hs ! j)))"
    proof (cases "j = i")
      case True
      then show ?thesis using IH none i by (simp add: r q)
    next
      case False
      then have "?hs1 ! j = hs ! j" by simp
      then show ?thesis using IH j ne [OF j False] by (simp add: r q split: option.split)
    qed
  next
    have "hs ! the (entry_of hs k) = ?hs1 ! the (entry_of hs k)" if "(k, r') \<in> set rows" for k r'
    proof -
      have "k \<noteq> item" using notin that by force
      moreover have "k \<in> itemid ` set hs" using Cons.prems(5) that by (auto simp: q)
      then obtain j where "j < length hs" "itemid (hs ! j) = k" by (metis image_iff in_set_conv_nth)
      then have "entry_of hs k = Some j" "j < length hs" "itemid (hs ! j) = k"
        using entry_of_distinct [OF Cons.prems(2), of k] by blast+
      ultimately show ?thesis using i by (cases "j = i") auto
    qed
    then show "stmts = map (\<lambda>(item, r). UpdateItem item (snd (update_entry N proxy (DBget_item_from_db N new r)
                      (hs ! the (entry_of hs item))))) (q # rows)"
      using IH i by (auto simp: r q e)
  qed
qed simp

lemma exec_items_other: "k \<notin> (\<lambda>s. case s of UpdateItem i ss \<Rightarrow> i) ` set stmts \<Longrightarrow> exec_items stmts items k = items k"
  unfolding exec_items_def
proof (induction stmts arbitrary: items)
  case (Cons s stmts)
  then show ?case by (cases s) auto
qed simp

lemma exec_items_distinct:
  assumes "distinct (map fst us)" "(k, ss) \<in> set us"
  shows "exec_items (map (\<lambda>(k, ss). UpdateItem k ss) us) items k = map_option (\<lambda>old. fold (apply_set old) ss old) (items k)"
  using assms
proof (induction us arbitrary: items)
  case (Cons u us)
  obtain k1 ss1 where u: "u = (k1, ss1)" by (cases u)
  have step: "exec_items (map (\<lambda>(k, ss). UpdateItem k ss) (u # us)) items
      = exec_items (map (\<lambda>(k, ss). UpdateItem k ss) us) (exec_item (UpdateItem k1 ss1) items)"
    by (simp add: exec_items_def u)
  show ?case
  proof (cases "k = k1")
    case True
    then have "ss = ss1" "k \<notin> fst ` set us" using Cons.prems by (force simp: u)+
    then show ?thesis unfolding step using True by (subst exec_items_other) (auto simp: u image_iff)
  next
    case False
    then show ?thesis unfolding step using Cons by (auto simp: u)
  qed
qed simp

text \<open>C7: in a batch with at most one value per item, every entry whose item has a row is
  updated from that row alone and writes exactly its own assignments to it, whatever the struct held
  before the loop and whatever the other entries are; entries without a row and other rows are left
  as they were.\<close>

theorem DCmass_update_item_separate:
  assumes "DCmass_update_item N proxy stale items hs = (hs', items')" and "distinct (map itemid hs)"
    and "\<And>h r. h \<in> set hs \<Longrightarrow> items (itemid h) = Some r \<Longrightarrow> value_type h = ir_value_type r \<and> readable r"
  shows "length hs' = length hs
    \<and> (\<forall>i < length hs. case items (itemid (hs ! i)) of
          None \<Rightarrow> hs' ! i = hs ! i \<and> items' (itemid (hs ! i)) = None
        | Some r \<Rightarrow> (case update_entry N proxy (DBget_item_from_db N new r) (hs ! i) of
            (h1, sets) \<Rightarrow> hs' ! i = h1 \<and> items' (itemid (hs ! i)) = Some (fold (apply_set r) sets r)))
    \<and> (\<forall>k. k \<notin> itemid ` set hs \<longrightarrow> items' k = items k)"
proof -
  let ?rows = "select_items items (batch_ids hs)"
  have d: "distinct (map fst ?rows)"
    using batch_ids_spec [of hs] unfolding select_items_keys by (simp add: strict_sorted_iff)
  have key: "(k, r) \<in> set ?rows \<longleftrightarrow> k \<in> itemid ` set hs \<and> items k = Some r" for k r
    using batch_ids_spec [of hs] by (simp add: select_items_set)
  obtain stmts where l: "update_loop N proxy stale ?rows hs = (hs', stmts)" "items' = exec_items stmts items"
    using assms(1) by (auto simp: DCmass_update_item_def Let_def split: prod.splits)
  have F: "length hs' = length hs
    \<and> (\<forall>i < length hs. hs' ! i = (case map_of ?rows (itemid (hs ! i)) of None \<Rightarrow> hs ! i
                          | Some r \<Rightarrow> fst (update_entry N proxy (DBget_item_from_db N new r) (hs ! i))))
    \<and> stmts = map (\<lambda>(item, r). UpdateItem item (snd (update_entry N proxy (DBget_item_from_db N new r)
                      (hs ! the (entry_of hs item))))) ?rows"
    by (rule update_loop_frame [OF l(1) assms(2) d]) (use assms(3) key in fastforce)+
  let ?us = "map (\<lambda>(item, r). (item, snd (update_entry N proxy (DBget_item_from_db N new r)
                      (hs ! the (entry_of hs item))))) ?rows"
  have s: "stmts = map (\<lambda>(k, ss). UpdateItem k ss) ?us" using F by (simp add: comp_def case_prod_unfold)
  have du: "distinct (map fst ?us)" using d by (simp add: comp_def case_prod_unfold)
  have keys: "(\<lambda>s. case s of UpdateItem i ss \<Rightarrow> i) ` set stmts = {k. k \<in> itemid ` set hs \<and> items k \<noteq> None}"
    using key F by (force simp: image_iff split: prod.splits)
  have "case items (itemid (hs ! i)) of
          None \<Rightarrow> hs' ! i = hs ! i \<and> items' (itemid (hs ! i)) = None
        | Some r \<Rightarrow> (case update_entry N proxy (DBget_item_from_db N new r) (hs ! i) of
            (h1, sets) \<Rightarrow> hs' ! i = h1 \<and> items' (itemid (hs ! i)) = Some (fold (apply_set r) sets r))"
    if i: "i < length hs" for i
  proof (cases "items (itemid (hs ! i))")
    case None
    then have "map_of ?rows (itemid (hs ! i)) = None" using key by (auto simp: map_of_eq_None_iff)
    then show ?thesis using F i None exec_items_other [of "itemid (hs ! i)" stmts items] keys l(2) by simp
  next
    case (Some r)
    then have m: "(itemid (hs ! i), r) \<in> set ?rows" using key i by simp
    then have "map_of ?rows (itemid (hs ! i)) = Some r" using d by simp
    moreover have "entry_of hs (itemid (hs ! i)) = Some i" using entry_of_distinct [OF assms(2)] i by simp
    moreover from this m have "(itemid (hs ! i), snd (update_entry N proxy (DBget_item_from_db N new r) (hs ! i))) \<in> set ?us"
      by force
    ultimately show ?thesis using F i Some exec_items_distinct [OF du] l(2) s by (auto split: prod.splits)
  qed
  moreover have "items' k = items k" if "k \<notin> itemid ` set hs" for k
    using exec_items_other [of k stmts items] keys that l(2) by simp
  ultimately show ?thesis using F by blast
qed

subsection \<open>Counters stored as simple change\<close>

lemma STR2UINT64_show [simp]: "STR2UINT64 old (show_u64 w) = w"
  using scan_int_show_nat [of "[]" "unat w"] by (simp add: STR2UINT64_def show_u64_def)

lemma batch_ids_single: "batch_ids [h] = [itemid h]"
  by (simp add: batch_ids_def uint64_array_add_def get_nearestindex_def)

lemma DCmass_update_item_single:
  assumes "items (itemid h) = Some r"
  shows "DCmass_update_item N proxy stale items [h] =
    (let (h1, sets) = update_entry N proxy (DBget_item_from_db N stale r) h
     in ([h1], items(itemid h \<mapsto> fold (apply_set r) sets r)))"
  using assms by (simp add: DCmass_update_item_def batch_ids_single select_items_def entry_of_def exec_items_def
      Let_def split: prod.splits)

definition uint_reading :: "u64 \<Rightarrow> int \<Rightarrow> u64 \<Rightarrow> ('f, string) dc_history" where
  "uint_reading item clk w =
     \<lparr>itemid = item, clock = clk, value_type = VT_UINT64, value_orig = HUint w, hvalue = HUint 0, value_null = False,
      timestamp = 0, source = None, severity = 0, lastlogsize = 0, keep_history = 0, keep_trends = 0, has_functions = False\<rparr>"

text \<open>Readings that arrive one after the other, each in a batch of its own: the values stored
  (none for a reading that only sets the base) and the table afterwards.\<close>

fun feed_uint :: "'f num_ops \<Rightarrow> 'f db_item \<Rightarrow> items \<Rightarrow> u64 \<Rightarrow> (int \<times> u64) list \<Rightarrow> u64 option list \<times> items" where
  "feed_uint N stale items item [] = ([], items)"
| "feed_uint N stale items item ((c, w) # rs) =
     (let (hs, items1) = DCmass_update_item N False stale items [uint_reading item c w];
          (vs, items2) = feed_uint N stale items1 item rs
      in ((if value_null (hd hs) then None else Some (as_uint (base_ops N) (hvalue (hd hs)))) # vs, items2))"

text \<open>The differences between neighbours; a reading below the one before it gives none.\<close>

fun increments :: "u64 \<Rightarrow> u64 list \<Rightarrow> u64 option list" where
  "increments p [] = []"
| "increments p (w # ws) = (if p \<le> w then Some (w - p) else None) # increments w ws"

definition counter_row :: "item_row \<Rightarrow> u64 \<Rightarrow> bool" where
  "counter_row r p \<longleftrightarrow> ir_value_type r = VT_UINT64 \<and> ir_delta r = ITEM_STORE_SIMPLE_CHANGE \<and> \<not> ir_multiplier r
     \<and> ir_prevorgvalue r = Some (show_u64 p)"

lemma counter_step:
  assumes "items item = Some r" "counter_row r p"
  shows "\<exists>h1 r1. DCmass_update_item N False stale items [uint_reading item c w] = ([h1], items(item \<mapsto> r1))
    \<and> counter_row r1 w \<and> value_null h1 = (\<not> p \<le> w) \<and> (p \<le> w \<longrightarrow> hvalue h1 = HUint (w - p))"
proof -
  have r: "ir_value_type r = VT_UINT64" "ir_delta r = ITEM_STORE_SIMPLE_CHANGE" "\<not> ir_multiplier r"
    "ir_prevorgvalue r = Some (show_u64 p)" using assms(2) by (simp_all add: counter_row_def)
  let ?u = "update_entry N False (DBget_item_from_db N stale r) (uint_reading item c w)"
  have "counter_row (fold (apply_set r) (snd ?u) r) w \<and> value_null (fst ?u) = (\<not> p \<le> w)
      \<and> (p \<le> w \<longrightarrow> hvalue (fst ?u) = HUint (w - p))"
    using r by (cases "p \<le> w") (simp_all add: uint_reading_def update_entry_def DBget_item_from_db_def
        load_value_def uint_update_def Let_def as_uint_def DBmultiply_value_uint64_def counter_row_def)
  moreover have "DCmass_update_item N False stale items [uint_reading item c w]
      = ([fst ?u], items(item \<mapsto> fold (apply_set r) (snd ?u) r))"
    using DCmass_update_item_single [of items "uint_reading item c w" r N False stale] assms(1)
    by (simp add: Let_def case_prod_unfold uint_reading_def)
  ultimately show ?thesis by blast
qed

lemma feed_uint_increments:
  assumes "items item = Some r" "counter_row r p"
  shows "fst (feed_uint N stale items item rs) = increments p (map snd rs)"
  using assms
proof (induction rs arbitrary: items r p)
  case (Cons q rs)
  obtain c w where q: "q = (c, w)" by (cases q)
  obtain h1 r1 where s: "DCmass_update_item N False stale items [uint_reading item c w] = ([h1], items(item \<mapsto> r1))"
    "counter_row r1 w" "value_null h1 = (\<not> p \<le> w)" "p \<le> w \<longrightarrow> hvalue h1 = HUint (w - p)"
    using counter_step [of items item r p N stale c w] Cons.prems by blast
  have "fst (feed_uint N stale (items(item \<mapsto> r1)) item rs) = increments w (map snd rs)"
    by (rule Cons.IH [OF _ s(2)]) simp
  then show ?case using s by (auto simp: q Let_def as_uint_def split: prod.splits)
qed simp

lemma increments_total:
  "sorted (p # ws) \<Longrightarrow> increments p ws = map Some (map2 (-) ws (p # ws)) \<and> sum_list (map2 (-) ws (p # ws)) = last (p # ws) - p"
proof (induction ws arbitrary: p)
  case (Cons w ws)
  from Cons.IH [of w] Cons.prems show ?case by (simp add: algebra_simps)
qed simp

text \<open>C8: an unsigned counter that is stored as simple change without multiplier stores, reading
  by reading, exactly the difference to the reading before it and skips a reading that went down; for
  readings that do not go down nothing is skipped and the stored values add up to the distance
  travelled.\<close>

theorem counter_stores_increments:
  assumes "items item = Some r" "counter_row r p"
  shows "fst (feed_uint N stale items item rs) = increments p (map snd rs)
    \<and> (sorted (p # map snd rs) \<longrightarrow> None \<notin> set (fst (feed_uint N stale items item rs))
        \<and> sum_list (map the (fst (feed_uint N stale items item rs))) = last (p # map snd rs) - p)"
  using feed_uint_increments [of items item r p N stale rs] assms increments_total [of p "map snd rs"]
  by (auto simp: comp_def)

definition sample_ops :: "int num_ops" where
  "sample_ops = \<lparr>f_lt = (<), f_add = (+), f_mul = (*), f_div = (div), f_of_int = id, f_of_bits = uint, f_bits = of_int, f_db = id,
     f_le = (\<le>), f_sub = (-), f_of_u64 = uint, f_to_u64 = of_int, f_atof = atoi, f_show = show_int\<rparr>"

definition sample_row :: item_row where
  "sample_row = \<lparr>ir_value_type = VT_UINT64, ir_history = 7, ir_trends = 30, ir_delta = ITEM_STORE_SIMPLE_CHANGE,
     ir_multiplier = False, ir_formula = ''1'', ir_status = 0, ir_lastvalue = None, ir_prevvalue = None,
     ir_prevorgvalue = Some (show_u64 10), ir_lastclock = None, ir_lastlogsize = 0, ir_error = []\<rparr>"

definition sample_item :: "int db_item" where
  "sample_item = \<lparr>i_row = sample_row, i_last = \<lparr>v_null = True, v_dbl = 0, v_uint64 = 0, v_str = []\<rparr>,
     i_prev = \<lparr>v_null = True, v_dbl = 0, v_uint64 = 0, v_str = []\<rparr>,
     i_prevorg = \<lparr>v_null = True, v_dbl = 0, v_uint64 = 0, v_str = []\<rparr>, i_lastclock = 0\<rparr>"

theorem counter_stores_increments_witness:
  "fst (feed_uint sample_ops sample_item [5 \<mapsto> sample_row] 5 [(100, 12), (130, 12), (160, 20)]) = [Some 2, Some 0, Some 8]"
  using counter_stores_increments [of "[5 \<mapsto> sample_row]" 5 sample_row 10 sample_ops sample_item "[(100, 12), (130, 12), (160, 20)]"]
  by (simp add: counter_row_def sample_row_def)

theorem DCmass_update_item_separate_witness:
  "\<exists>hs' items'. DCmass_update_item sample_ops False sample_item [5 \<mapsto> sample_row] [uint_reading 5 100 12, uint_reading 6 100 3] = (hs', items')
     \<and> hvalue (hs' ! 0) = HUint 2 \<and> hs' ! 1 = uint_reading 6 100 3 \<and> items' 6 = None"
proof -
  obtain hs' items' where d: "DCmass_update_item sample_ops False sample_item [5 \<mapsto> sample_row]
      [uint_reading 5 100 12, uint_reading 6 100 3] = (hs', items')"
    by (cases "DCmass_update_item sample_ops False sample_item [5 \<mapsto> sample_row] [uint_reading 5 100 12, uint_reading 6 100 3]")
  have "value_type h = ir_value_type r \<and> readable r"
    if "h \<in> set [uint_reading 5 100 12, uint_reading 6 100 3]" "[5 \<mapsto> sample_row] (itemid h) = Some r" for h :: "(int, string) dc_history" and r
    using that by (auto simp: uint_reading_def sample_row_def readable_def split: if_splits)
  note facts = DCmass_update_item_separate [OF d _ this, where new = sample_item]
  have "hvalue (hs' ! 0) = HUint 2 \<and> hs' ! 1 = uint_reading 6 100 3 \<and> items' 6 = None"
    using facts by (simp add: uint_reading_def less_Suc_eq all_conj_distrib sample_row_def update_entry_def DBget_item_from_db_def
        load_value_def uint_update_def Let_def as_uint_def DBmultiply_value_uint64_def)
  then show ?thesis using d by blast
qed

end
