(* ===== verification/HistoryWrite.thy ===== *)
theory HistoryWrite
  imports ItemUpdate IdAllocator
begin

section \<open>Writing a batch: the history tables\<close>

text \<open>
  \<open>DCmass_add_history\<close> and \<open>DCmass_proxy_add_history\<close> (\<open>libs/zbxdbcache/dbcache.c\<close>): one
  pass over the batch for each table.  MySQL gets one insert of many rows, taken back when no row was
  added; the other databases get an insert for each row.  A numeric value is the one computed by
  \<open>DCmass_update_item\<close> (on the proxy: the one received), a text its escaped literal.
\<close>

datatype hist_table =
    History | HistorySync | HistoryUint | HistoryUintSync | HistoryStr | HistoryStrSync
  | HistoryText | HistoryLog | ProxyHistory

datatype 'f lit = LFloat 'f | LUint u64 | LStr string \<comment> \<open>the text between the quotes\<close>

record 'f hist_row =
  hr_id :: "u64 option"
  hr_nodeid :: "int option"
  hr_itemid :: u64
  hr_clock :: int
  hr_value :: "'f lit"
  hr_log :: "(int \<times> string \<times> int) option" \<comment> \<open>timestamp, source, severity\<close>

datatype 'f hist_stmt = Insert hist_table "'f hist_row list"

definition insert_rows :: "db_kind \<Rightarrow> hist_table \<Rightarrow> 'f hist_row list \<Rightarrow> 'f hist_stmt list" where
  "insert_rows db t rows =
     (if db = MySQL then (if rows = [] then [] else [Insert t rows]) else map (\<lambda>r. Insert t [r]) rows)"

definition kept :: "value_type \<Rightarrow> ('f, string) dc_history \<Rightarrow> bool" where
  "kept vt h \<longleftrightarrow> keep_history h \<noteq> 0 \<and> value_type h = vt \<and> \<not> value_null h"

definition text_of :: "('f, string) dc_history \<Rightarrow> string" where
  "text_of h = (case value_orig h of HStr s \<Rightarrow> s | _ \<Rightarrow> [])"

definition plain_row :: "int option \<Rightarrow> ('f, string) dc_history \<Rightarrow> 'f lit \<Rightarrow> 'f hist_row" where
  "plain_row node h v = \<lparr>hr_id = None, hr_nodeid = node, hr_itemid = itemid h, hr_clock = clock h, hr_value = v, hr_log = None\<rparr>"

definition HISTORY_STR_VALUE_LEN :: nat where "HISTORY_STR_VALUE_LEN = 255"
definition HISTORY_LOG_SOURCE_LEN :: nat where "HISTORY_LOG_SOURCE_LEN = 64"

definition log_part :: "db_kind \<Rightarrow> ('f, string) dc_history \<Rightarrow> int \<times> string \<times> int" where
  "log_part db h = (timestamp h, DBdyn_escape_string_len db (source h) HISTORY_LOG_SOURCE_LEN, severity h)"

definition text_row :: "db_kind \<Rightarrow> u64 \<Rightarrow> ('f, string) dc_history \<Rightarrow> 'f hist_row" where
  "text_row db i h = (plain_row None h (LStr (DBdyn_escape_string db (Some (text_of h)))))\<lparr>hr_id := Some i\<rparr>"

definition log_row :: "db_kind \<Rightarrow> u64 \<Rightarrow> ('f, string) dc_history \<Rightarrow> 'f hist_row" where
  "log_row db i h = (text_row db i h)\<lparr>hr_log := Some (log_part db h)\<rparr>"

text \<open>The rows of the tables that have an id: consecutive ids from the first one reserved.\<close>

fun id_rows :: "u64 \<Rightarrow> (u64 \<Rightarrow> ('f, string) dc_history \<Rightarrow> 'f hist_row) \<Rightarrow> ('f, string) dc_history list \<Rightarrow> 'f hist_row list" where
  "id_rows i mk [] = []"
| "id_rows i mk (h # hs) = mk i h # id_rows (i + 1) mk hs"

text \<open>\<open>distributed\<close> is \<open>CONFIG_NODE_NOHISTORY == 0 && CONFIG_MASTER_NODEID > 0\<close>;
  \<open>maxid table num\<close> is the id \<open>DBget_maxid_num\<close> reserves, asked only for tables with
  entries in the batch.\<close>

definition DCmass_add_history :: "'f num_ops \<Rightarrow> db_kind \<Rightarrow> bool \<Rightarrow> (hist_table \<Rightarrow> nat \<Rightarrow> u64)
    \<Rightarrow> ('f, string) dc_history list \<Rightarrow> 'f hist_stmt list" where
  "DCmass_add_history N db distributed maxid hs =
     (let flt = (\<lambda>h. LFloat (as_float (base_ops N) (hvalue h)));
          uns = (\<lambda>h. LUint (as_uint (base_ops N) (hvalue h)));
          str = (\<lambda>h. LStr (DBdyn_escape_string_len db (Some (text_of h)) HISTORY_STR_VALUE_LEN));
          rows = (\<lambda>vt v. map (\<lambda>h. plain_row None h (v h)) (filter (kept vt) hs));
          sync_rows = (\<lambda>vt v. if distributed
             then map (\<lambda>h. plain_row (Some (get_nodeid_by_id (itemid h))) h (v h)) (filter (kept vt) hs) else []);
          text_num = length (filter (\<lambda>h. value_type h = VT_TEXT) hs);
          log_num = length (filter (\<lambda>h. value_type h = VT_LOG) hs)
      in insert_rows db History (rows VT_FLOAT flt) @ insert_rows db HistorySync (sync_rows VT_FLOAT flt)
       @ insert_rows db HistoryUint (rows VT_UINT64 uns) @ insert_rows db HistoryUintSync (sync_rows VT_UINT64 uns)
       @ insert_rows db HistoryStr (rows VT_STR str) @ insert_rows db HistoryStrSync (sync_rows VT_STR str)
       @ (if 0 < text_num then
            insert_rows db HistoryText (id_rows (maxid HistoryText text_num)
              (text_row db) (filter (kept VT_TEXT) hs))
          else [])
       @ (if 0 < log_num then
            insert_rows db HistoryLog (id_rows (maxid HistoryLog log_num)
              (log_row db) (filter (kept VT_LOG) hs))
          else []))"

definition DCmass_proxy_add_history :: "'f num_ops \<Rightarrow> db_kind \<Rightarrow> ('f, string) dc_history list \<Rightarrow> 'f hist_stmt list" where
  "DCmass_proxy_add_history N db hs =
     (let rows = (\<lambda>vt v. insert_rows db ProxyHistory
                     (map (\<lambda>h. plain_row None h (v h)) (filter (\<lambda>h. value_type h = vt) hs)));
          full = (\<lambda>h. LStr (DBdyn_escape_string db (Some (text_of h))))
      in rows VT_FLOAT (\<lambda>h. LFloat (as_float (base_ops N) (value_orig h)))
       @ rows VT_UINT64 (\<lambda>h. LUint (as_uint (base_ops N) (value_orig h)))
       @ rows VT_STR full
       @ rows VT_TEXT full
       @ insert_rows db ProxyHistory (map (\<lambda>h. (plain_row None h (full h))\<lparr>hr_log := Some (log_part db h)\<rparr>)
            (filter (\<lambda>h. value_type h = VT_LOG) hs)))"

subsection \<open>What the tables receive\<close>

text \<open>The rows a list of statements adds to a table, in order.\<close>

fun rows_for :: "hist_table \<Rightarrow> 'f hist_stmt list \<Rightarrow> 'f hist_row list" where
  "rows_for t [] = []"
| "rows_for t (Insert u rows # ss) = (if u = t then rows else []) @ rows_for t ss"

lemma rows_for_append [simp]: "rows_for t (ss @ ss') = rows_for t ss @ rows_for t ss'"
  by (induction t ss rule: rows_for.induct) auto

lemma rows_for_insert [simp]: "rows_for t (insert_rows db u rows) = (if u = t then rows else [])"
proof -
  have "rows_for t (map (\<lambda>r. Insert u [r]) rows) = (if u = t then rows else [])" for u by (induction rows) auto
  then show ?thesis by (simp add: insert_rows_def)
qed

text \<open>What the database stores for a literal of the statement.\<close>

fun stored_value :: "db_kind \<Rightarrow> 'f lit \<Rightarrow> 'f lit option" where
  "stored_value db (LStr s) = map_option (\<lambda>p. LStr (fst p)) (read_literal db (s @ [CHR 0x27]))"
| "stored_value db v = Some v"

definition row_key :: "db_kind \<Rightarrow> 'f hist_row \<Rightarrow> u64 \<times> int \<times> 'f lit option" where
  "row_key db r = (hr_itemid r, hr_clock r, stored_value db (hr_value r))"

definition final_value :: "'f num_ops \<Rightarrow> ('f, string) dc_history \<Rightarrow> 'f lit" where
  "final_value N h = (case value_type h of
       VT_FLOAT \<Rightarrow> LFloat (as_float (base_ops N) (hvalue h))
     | VT_UINT64 \<Rightarrow> LUint (as_uint (base_ops N) (hvalue h))
     | VT_STR \<Rightarrow> LStr (take HISTORY_STR_VALUE_LEN (drop_cr (text_of h)))
     | _ \<Rightarrow> LStr (drop_cr (text_of h)))"

fun table_of :: "value_type \<Rightarrow> hist_table" where
  "table_of VT_FLOAT = History"
| "table_of VT_UINT64 = HistoryUint"
| "table_of VT_STR = HistoryStr"
| "table_of VT_TEXT = HistoryText"
| "table_of VT_LOG = HistoryLog"

lemma stored_literal [simp]:
  "stored_value db (LStr (DBdyn_escape_string db (Some s))) = Some (LStr (drop_cr s))"
  "stored_value db (LStr (DBdyn_escape_string_len db (Some s) n)) = Some (LStr (take n (drop_cr s)))"
  using escape_reads [of "[]" db s n] by simp_all

declare stored_value.simps(1) [simp del]

lemma row_keys [simp]:
  "row_key db (plain_row node h v) = (itemid h, clock h, stored_value db v)"
  "row_key db (text_row db i h) = (itemid h, clock h, Some (LStr (drop_cr (text_of h))))"
  "row_key db (log_row db i h) = (itemid h, clock h, Some (LStr (drop_cr (text_of h))))"
  "hr_id (text_row db i h) = Some i" "hr_id (log_row db i h) = Some i"
  by (simp_all add: row_key_def plain_row_def text_row_def log_row_def)

lemma id_rows_keys:
  assumes "\<And>i h. row_key db (mk i h) = f h" "\<And>i h. hr_id (mk i h) = Some i"
  shows "map (row_key db) (id_rows i mk hs) = map f hs
    \<and> map hr_id (id_rows i mk hs) = map (\<lambda>k. Some (i + of_nat k)) [0..<length hs]"
proof (induction hs arbitrary: i)
  case (Cons h hs)
  have "map (\<lambda>k. Some (i + of_nat k)) [0..<Suc (length hs)] = Some i # map (\<lambda>k. Some (i + 1 + of_nat k)) [0..<length hs]"
    by (simp add: upt_conv_Cons map_Suc_upt [symmetric] add.assoc del: upt_Suc)
  then show ?case using Cons.IH [of "i + 1"] assms by (simp del: upt_Suc)
qed simp

lemma no_kept: "length (filter (\<lambda>h. value_type h = vt) hs) = 0 \<Longrightarrow> filter (kept vt) hs = []"
  by (auto simp: filter_empty_conv kept_def)


definition proxy_value :: "'f num_ops \<Rightarrow> ('f, string) dc_history \<Rightarrow> 'f lit" where
  "proxy_value N h = (case value_type h of
       VT_FLOAT \<Rightarrow> LFloat (as_float (base_ops N) (value_orig h))
     | VT_UINT64 \<Rightarrow> LUint (as_uint (base_ops N) (value_orig h))
     | _ \<Rightarrow> LStr (drop_cr (text_of h)))"

lemma proxy_rows:
  "map (row_key db) (rows_for ProxyHistory (DCmass_proxy_add_history N db hs))
     = concat (map (\<lambda>vt. map (\<lambda>h. (itemid h, clock h, Some (proxy_value N h))) (filter (\<lambda>h. value_type h = vt) hs))
         [VT_FLOAT, VT_UINT64, VT_STR, VT_TEXT, VT_LOG])"
proof -
  have "row_key db ((plain_row None h v)\<lparr>hr_log := l\<rparr>) = row_key db (plain_row None h v)" for h :: "('a, string) dc_history" and v l
    by (simp add: row_key_def plain_row_def)
  then show ?thesis by (auto simp: DCmass_proxy_add_history_def Let_def proxy_value_def)
qed

text \<open>The proxy hands every received value on, whatever the item keeps, and, for an item whose
  values in the batch are of one type, in the order received.\<close>

theorem proxy_history_order:
  assumes "\<forall>h \<in> set hs. itemid h = item \<longrightarrow> value_type h = vt"
  shows "filter (\<lambda>k. fst k = item) (map (row_key db) (rows_for ProxyHistory (DCmass_proxy_add_history N db hs)))
      = map (\<lambda>h. (itemid h, clock h, Some (proxy_value N h))) (filter (\<lambda>h. itemid h = item) hs)
    \<and> length (rows_for ProxyHistory (DCmass_proxy_add_history N db hs)) = length hs"
proof -
  let ?f = "\<lambda>h. (itemid h, clock h, Some (proxy_value N h))" and ?ts = "[VT_FLOAT, VT_UINT64, VT_STR, VT_TEXT, VT_LOG]"
  have one: "filter (\<lambda>h. itemid h = item) (filter (\<lambda>h. value_type h = t) hs)
      = (if t = vt then filter (\<lambda>h. itemid h = item) hs else [])" for t
    using assms by (induction hs) auto
  have "filter (\<lambda>k. fst k = item) (concat (map (\<lambda>t. map ?f (filter (\<lambda>h. value_type h = t) hs)) ?ts))
      = concat (map (\<lambda>t. map ?f (filter (\<lambda>h. itemid h = item) (filter (\<lambda>h. value_type h = t) hs))) ?ts)"
    by (simp add: filter_map comp_def del: filter_filter)
  also have "\<dots> = map ?f (filter (\<lambda>h. itemid h = item) hs)"
    unfolding one by (cases vt) simp_all
  finally have order: "filter (\<lambda>k. fst k = item) (map (row_key db) (rows_for ProxyHistory (DCmass_proxy_add_history N db hs)))
      = map ?f (filter (\<lambda>h. itemid h = item) hs)" unfolding proxy_rows .
  have "length (rows_for ProxyHistory (DCmass_proxy_add_history N db hs))
      = length (map (row_key db) (rows_for ProxyHistory (DCmass_proxy_add_history N db hs)))" by simp
  also have "\<dots> = sum_list (map (\<lambda>t. length (filter (\<lambda>h. value_type h = t) hs)) ?ts)"
    unfolding proxy_rows by (simp add: length_concat)
  also have "\<dots> = length hs"
  proof (induction hs)
    case (Cons h hs)
    then show ?case by (cases "value_type h") simp_all
  qed simp
  finally show ?thesis using order by blast
qed

theorem proxy_history_order_witness:
  "filter (\<lambda>k. fst k = 5) (map (row_key MySQL) (rows_for ProxyHistory (DCmass_proxy_add_history sample_ops MySQL
      [uint_reading 5 10 1, uint_reading 6 11 2, uint_reading 5 12 3])))
    = [(5, 10, Some (LUint 1)), (5, 12, Some (LUint 3))]"
  using proxy_history_order [of "[uint_reading 5 10 1, uint_reading 6 11 2, uint_reading 5 12 3]" 5 VT_UINT64 MySQL sample_ops]
  by (simp add: uint_reading_def proxy_value_def as_uint_def)

subsection \<open>The positions in log files\<close>

lemma max_logsize_eq:
  "max_logsize hs item = fold max (map lastlogsize (filter (\<lambda>h. itemid h = item \<and> value_type h = VT_LOG) hs)) (-1)"
proof -
  have "foldl (\<lambda>m h. if itemid h \<noteq> item then m else if value_type h \<noteq> VT_LOG then m
                   else if m < lastlogsize h then lastlogsize h else m) a hs
      = fold max (map lastlogsize (filter (\<lambda>h. itemid h = item \<and> value_type h = VT_LOG) hs)) a" for a :: int
    by (induction hs arbitrary: a) (auto simp: max_def)
  then show ?thesis by (simp add: max_logsize_def)
qed

text \<open>On a proxy every item with a log entry in the batch gets the largest position of its
  entries, when one is not negative, and nothing else is changed.\<close>

theorem proxy_update_item_positions:
  "DCmass_proxy_update_item items hs item =
     (let m = Max (insert (-1) (lastlogsize ` {h \<in> set hs. itemid h = item \<and> value_type h = VT_LOG}))
      in if m = -1 then items item else map_option (\<lambda>r. r\<lparr>ir_lastlogsize := m\<rparr>) (items item))"
proof -
  let ?hs = "filter (\<lambda>h. value_type h = VT_LOG) hs"
  let ?us = "[(i, [SetLastlogsize (max_logsize hs i)]). i \<leftarrow> batch_ids ?hs, max_logsize hs i \<noteq> -1]"
  have m: "max_logsize hs item = Max (insert (-1) (lastlogsize ` {h \<in> set hs. itemid h = item \<and> value_type h = VT_LOG}))"
    unfolding max_logsize_eq by (simp add: Max.set_eq_fold [symmetric])
  have shape: "[(i, [SetLastlogsize (max_logsize hs i)]). i \<leftarrow> is, max_logsize hs i \<noteq> -1]
      = map (\<lambda>i. (i, [SetLastlogsize (max_logsize hs i)])) (filter (\<lambda>i. max_logsize hs i \<noteq> -1) is)"
    "[UpdateItem i [SetLastlogsize (max_logsize hs i)]. i \<leftarrow> is, max_logsize hs i \<noteq> -1]
      = map (\<lambda>i. UpdateItem i [SetLastlogsize (max_logsize hs i)]) (filter (\<lambda>i. max_logsize hs i \<noteq> -1) is)" for "is"
    by (induction "is") auto
  have fst: "map fst ?us = filter (\<lambda>i. max_logsize hs i \<noteq> -1) (batch_ids ?hs)"
    unfolding shape by (simp add: comp_def)
  have ids: "distinct (batch_ids ?hs)" "set (batch_ids ?hs) = itemid ` set ?hs"
    using batch_ids_spec [of ?hs] by (simp_all add: strict_sorted_iff)
  have stmts: "[UpdateItem i [SetLastlogsize (max_logsize hs i)]. i \<leftarrow> batch_ids ?hs, max_logsize hs i \<noteq> -1]
      = map (\<lambda>(k, ss). UpdateItem k ss) ?us" unfolding shape by (simp add: comp_def)
  have r: "DCmass_proxy_update_item items hs item = exec_items (map (\<lambda>(k, ss). UpdateItem k ss) ?us) items item"
    by (simp add: DCmass_proxy_update_item_def Let_def stmts)
  show ?thesis
  proof (cases "max_logsize hs item = -1")
    case True
    then have "item \<notin> fst ` set ?us" using arg_cong [OF fst, of set] by simp
    then show ?thesis unfolding r using True m
      by (subst exec_items_other) (auto simp: image_iff)
  next
    case False
    have "item \<in> itemid ` set ?hs"
    proof (rule ccontr)
      assume "item \<notin> itemid ` set ?hs"
      then have none: "{h \<in> set hs. itemid h = item \<and> value_type h = VT_LOG} = {}" by auto
      show False using False m unfolding none by simp
    qed
    then have "(item, [SetLastlogsize (max_logsize hs item)]) \<in> set ?us" using False ids(2) by auto
    then show ?thesis unfolding r using False m ids(1) fst by (subst exec_items_distinct) (simp_all, cases "items item", simp_all)
  qed
qed

end
