(* ===== verification/HostState.thy ===== *)
theory HostState
  imports TriggerValue
begin

section \<open>Availability of hosts\<close>

text \<open>
  \<open>update_triggers_status_to_unknown\<close>, \<open>DBupdate_triggers_status_after_restart\<close>,
  \<open>DBupdate_host_availability\<close> and \<open>DBproxy_update_host_availability\<close>
  (\<open>libs/zbxdbhigh/db.c\<close>) with \<open>enable_host\<close>, \<open>disable_host\<close> and the
  treatment of the result of a check in \<open>get_values\<close>
  (\<open>zabbix_server/poller/poller.c\<close>).  The joins that say which triggers a host or an item
  has are arguments.
\<close>

definition HOST_AVAILABLE_UNKNOWN :: int where "HOST_AVAILABLE_UNKNOWN = 0"
definition HOST_AVAILABLE_TRUE :: int where "HOST_AVAILABLE_TRUE = 1"
definition HOST_AVAILABLE_FALSE :: int where "HOST_AVAILABLE_FALSE = 2"

lemmas availability_codes = HOST_AVAILABLE_UNKNOWN_def HOST_AVAILABLE_TRUE_def HOST_AVAILABLE_FALSE_def

definition HOST_ERROR_LEN :: nat where "HOST_ERROR_LEN = 128"

record host_row =
  available :: int
  host_error :: string
  errors_from :: int
  disable_until :: int

record hdb =
  tables :: tdb
  hosts :: "u64 \<Rightarrow> host_row option"

subsection \<open>Triggers of a host\<close>

text \<open>The loop over the rows of a query on triggers: the copy handed on has the value of the row
  and, in \<open>type\<close>, what the local variable happened to hold.\<close>

fun to_unknown :: "(event_row list \<Rightarrow> u64) \<Rightarrow> int \<Rightarrow> int \<Rightarrow> string option \<Rightarrow> (u64 \<times> int) list \<Rightarrow> tdb \<Rightarrow> tdb \<times> call list" where
  "to_unknown fresh garbage clk reason [] db = (db, [])"
| "to_unknown fresh garbage clk reason ((t, v) # rows) db =
     (let (r, db1, calls) = DBupdate_trigger_value fresh db \<lparr>triggerid = t, t_type = garbage, t_value = v\<rparr>
            TRIGGER_VALUE_UNKNOWN clk reason;
          (db2, calls2) = to_unknown fresh garbage clk reason rows db1
      in (db2, calls @ calls2))"

definition select_triggers :: "tdb \<Rightarrow> u64 list \<Rightarrow> (u64 \<times> int) list" where
  "select_triggers db ts = [(t, tr_value r). t \<leftarrow> ts, r \<leftarrow> (case triggers db t of None \<Rightarrow> [] | Some r \<Rightarrow> [r])]"

definition update_triggers_status_to_unknown :: "(event_row list \<Rightarrow> u64) \<Rightarrow> int \<Rightarrow> (u64 \<Rightarrow> u64 list) \<Rightarrow> tdb \<Rightarrow> u64 \<Rightarrow> int \<Rightarrow> string
    \<Rightarrow> tdb \<times> call list" where
  "update_triggers_status_to_unknown fresh garbage host_triggers db hostid clk reason =
     to_unknown fresh garbage clk (Some reason) (select_triggers db (host_triggers hostid)) db"

text \<open>\<open>last_expected\<close> is the query \<open>min (i.nextcheck + i.delay)\<close> of the items of a
  trigger.\<close>

fun restart_loop :: "(event_row list \<Rightarrow> u64) \<Rightarrow> int \<Rightarrow> (u64 \<Rightarrow> int option) \<Rightarrow> (u64 \<times> int) list \<Rightarrow> tdb \<Rightarrow> tdb \<times> call list" where
  "restart_loop fresh garbage last_expected [] db = (db, [])"
| "restart_loop fresh garbage last_expected ((t, v) # rows) db =
     (case last_expected t of
        None \<Rightarrow> restart_loop fresh garbage last_expected rows db
      | Some lastchange \<Rightarrow>
        let (r, db1, calls) = DBupdate_trigger_value fresh db \<lparr>triggerid = t, t_type = garbage, t_value = v\<rparr>
              TRIGGER_VALUE_UNKNOWN lastchange (Some ''ZABBIX was down.'');
            (db2, calls2) = restart_loop fresh garbage last_expected rows db1
        in (db2, calls @ calls2))"

definition DBupdate_triggers_status_after_restart :: "(event_row list \<Rightarrow> u64) \<Rightarrow> int \<Rightarrow> u64 list \<Rightarrow> (u64 \<Rightarrow> int option) \<Rightarrow> tdb
    \<Rightarrow> tdb \<times> call list" where
  "DBupdate_triggers_status_after_restart fresh garbage overdue last_expected db =
     restart_loop fresh garbage last_expected (select_triggers db overdue) db"

subsection \<open>Availability\<close>

record poll_item =
  p_hostid :: u64
  p_available :: int
  p_errors_from :: int

definition set_host :: "hdb \<Rightarrow> u64 \<Rightarrow> (host_row \<Rightarrow> host_row) \<Rightarrow> hdb" where
  "set_host db h f = db\<lparr>hosts := (hosts db)(h := map_option f (hosts db h))\<rparr>"

definition stored_error :: "string option \<Rightarrow> string" where
  "stored_error e = (case e of None \<Rightarrow> [] | Some s \<Rightarrow> take HOST_ERROR_LEN (drop_cr s))"

definition DBupdate_host_availability :: "(event_row list \<Rightarrow> u64) \<Rightarrow> int \<Rightarrow> (u64 \<Rightarrow> u64 list) \<Rightarrow> int
    \<Rightarrow> hdb \<Rightarrow> poll_item \<Rightarrow> int \<Rightarrow> int \<Rightarrow> string option \<Rightarrow> hdb \<times> poll_item \<times> call list" where
  "DBupdate_host_availability fresh garbage host_triggers unavailable_delay db item avail clk err =
     (if p_available item = avail then
        (if avail = HOST_AVAILABLE_FALSE then
           set_host db (p_hostid item) (\<lambda>h. h\<lparr>host_error := stored_error err, disable_until := clk + unavailable_delay\<rparr>)
         else db, item, [])
      else if avail = HOST_AVAILABLE_TRUE then
        (set_host db (p_hostid item) (\<lambda>h. h\<lparr>available := avail, host_error := [], errors_from := 0\<rparr>),
         item\<lparr>p_available := avail, p_errors_from := 0\<rparr>, [])
      else if avail = HOST_AVAILABLE_FALSE then
        (let db1 = set_host db (p_hostid item)
               (\<lambda>h. h\<lparr>available := avail, host_error := stored_error err, disable_until := clk + unavailable_delay\<rparr>);
             (t, calls) = update_triggers_status_to_unknown fresh garbage host_triggers (tables db1) (p_hostid item) clk
                            ''Host is unavailable.''
         in (db1\<lparr>tables := t\<rparr>, item\<lparr>p_available := avail\<rparr>, calls))
      else (db, item\<lparr>p_available := avail\<rparr>, []))"

definition DBproxy_update_host_availability :: "int \<Rightarrow> hdb \<Rightarrow> poll_item \<Rightarrow> int \<Rightarrow> int \<Rightarrow> hdb \<times> poll_item" where
  "DBproxy_update_host_availability unavailable_delay db item avail clk =
     (if p_available item = avail then
        (if avail = HOST_AVAILABLE_FALSE then
           set_host db (p_hostid item) (\<lambda>h. h\<lparr>disable_until := clk + unavailable_delay\<rparr>)
         else db, item)
      else if avail = HOST_AVAILABLE_TRUE then
        (set_host db (p_hostid item) (\<lambda>h. h\<lparr>available := avail, errors_from := 0\<rparr>),
         item\<lparr>p_available := avail, p_errors_from := 0\<rparr>)
      else if avail = HOST_AVAILABLE_FALSE then
        (set_host db (p_hostid item) (\<lambda>h. h\<lparr>available := avail, disable_until := clk + unavailable_delay\<rparr>),
         item\<lparr>p_available := avail\<rparr>)
      else (db, item\<lparr>p_available := avail\<rparr>))"

subsection \<open>The result of a check\<close>

record poll_config =
  unreachable_delay :: int
  unreachable_period :: int
  unavailable_delay :: int
  on_proxy :: bool

definition change_host :: "(event_row list \<Rightarrow> u64) \<Rightarrow> int \<Rightarrow> (u64 \<Rightarrow> u64 list) \<Rightarrow> poll_config \<Rightarrow> int \<Rightarrow> hdb \<Rightarrow> poll_item \<Rightarrow> int
    \<Rightarrow> string option \<Rightarrow> hdb \<times> poll_item \<times> call list" where
  "change_host fresh garbage host_triggers cfg avail db item now err =
     (if on_proxy cfg then
        (let (db1, item1) = DBproxy_update_host_availability (unavailable_delay cfg) db item avail now in (db1, item1, []))
      else DBupdate_host_availability fresh garbage host_triggers (unavailable_delay cfg) db item avail now err)"

text \<open>On the server the value of the host's item \<open>status\<close> follows (a call here).\<close>

datatype poll_call = TriggerCall call | UpdateKeyStatus u64 int int

definition HOST_STATUS_MONITORED :: int where "HOST_STATUS_MONITORED = 0"

definition key_status :: "poll_config \<Rightarrow> poll_item \<Rightarrow> int \<Rightarrow> int \<Rightarrow> poll_call list" where
  "key_status cfg item status now = (if on_proxy cfg then [] else [UpdateKeyStatus (p_hostid item) status now])"

definition enable_host :: "(event_row list \<Rightarrow> u64) \<Rightarrow> int \<Rightarrow> (u64 \<Rightarrow> u64 list) \<Rightarrow> poll_config \<Rightarrow> hdb \<Rightarrow> poll_item \<Rightarrow> int
    \<Rightarrow> hdb \<times> poll_item \<times> poll_call list" where
  "enable_host fresh garbage host_triggers cfg db item now =
     (let (db1, item1, calls) = change_host fresh garbage host_triggers cfg HOST_AVAILABLE_TRUE db item now None
      in (db1, item1, map TriggerCall calls @ key_status cfg item HOST_STATUS_MONITORED now))"

definition disable_host :: "(event_row list \<Rightarrow> u64) \<Rightarrow> int \<Rightarrow> (u64 \<Rightarrow> u64 list) \<Rightarrow> poll_config \<Rightarrow> hdb \<Rightarrow> poll_item \<Rightarrow> int
    \<Rightarrow> string option \<Rightarrow> hdb \<times> poll_item \<times> poll_call list" where
  "disable_host fresh garbage host_triggers cfg db item now err =
     (let (db1, item1, calls) = change_host fresh garbage host_triggers cfg HOST_AVAILABLE_FALSE db item now err
      in (db1, item1, map TriggerCall calls @ key_status cfg item HOST_AVAILABLE_FALSE now))"

text \<open>An answer of the agent, a value or a refusal: the host is enabled and its error time
  cleared; the flag tells the loop to stop.\<close>

definition answered :: "(event_row list \<Rightarrow> u64) \<Rightarrow> int \<Rightarrow> (u64 \<Rightarrow> u64 list) \<Rightarrow> poll_config \<Rightarrow> hdb \<Rightarrow> poll_item \<Rightarrow> int
    \<Rightarrow> hdb \<times> poll_call list \<times> bool" where
  "answered fresh garbage host_triggers cfg db item now =
     (let enable = p_available item \<noteq> HOST_AVAILABLE_TRUE;
          (db1, item1, calls) = (if enable then enable_host fresh garbage host_triggers cfg db item now else (db, item, []));
          clear = p_errors_from item1 \<noteq> 0
      in (if clear then set_host db1 (p_hostid item1) (\<lambda>h. h\<lparr>errors_from := 0\<rparr>) else db1, calls, enable \<or> clear))"

definition uses_host :: "item_type \<Rightarrow> bool" where
  "uses_host ty \<longleftrightarrow> ty \<in> {ITEM_TYPE_ZABBIX, ITEM_TYPE_SNMPv1, ITEM_TYPE_SNMPv2c, ITEM_TYPE_SNMPv3, ITEM_TYPE_IPMI}"

text \<open>The effect of the result of one check on the host; with a first network error also the new
  \<open>nextcheck\<close> of the item.  \<open>None\<close>: \<open>assert (0 == 1)\<close>.\<close>

definition check_result :: "(event_row list \<Rightarrow> u64) \<Rightarrow> int \<Rightarrow> (u64 \<Rightarrow> u64 list) \<Rightarrow> poll_config \<Rightarrow> hdb \<Rightarrow> poll_item \<Rightarrow> item_type \<Rightarrow> int
    \<Rightarrow> int \<Rightarrow> zret \<Rightarrow> string option \<Rightarrow> (hdb \<times> poll_call list \<times> bool \<times> int option) option" where
  "check_result fresh garbage host_triggers cfg db item ty item_delay now res msg =
     (if res = SUCCEED \<or> res = NOTSUPPORTED \<or> res = AGENT_ERROR then
        Some (if uses_host ty then
                (let (db1, calls, stop) = answered fresh garbage host_triggers cfg db item now in (db1, calls, stop, None))
              else (db, [], False, None))
      else if res = NETWORK_ERROR then
        Some (if p_errors_from item = 0 then
                (set_host db (p_hostid item) (\<lambda>h. h\<lparr>errors_from := now, disable_until := now + unreachable_delay cfg\<rparr>), [], False,
                 Some (now + min (4 * item_delay) 300))
              else if unreachable_period cfg < now - p_errors_from item then
                (let (db1, item1, calls) = disable_host fresh garbage host_triggers cfg db item now msg in (db1, calls, False, None))
              else (set_host db (p_hostid item) (\<lambda>h. h\<lparr>disable_until := now + unreachable_delay cfg\<rparr>), [], False, None))
      else None)"

subsection \<open>The uninitialised type never matters\<close>

lemma DBupdate_unknown_type:
  "DBupdate_trigger_value fresh db \<lparr>triggerid = t, t_type = g, t_value = v\<rparr> TRIGGER_VALUE_UNKNOWN clk reason
   = DBupdate_trigger_value fresh db \<lparr>triggerid = t, t_type = g', t_value = v\<rparr> TRIGGER_VALUE_UNKNOWN clk reason"
  by (auto simp: DBupdate_trigger_value_def forced_def trigger_codes Let_def split: prod.split)

lemma to_unknown_type: "to_unknown fresh g clk reason rows db = to_unknown fresh g' clk reason rows db"
proof (induction rows arbitrary: db)
  case (Cons q rows)
  then show ?case by (cases q) (simp add: DBupdate_unknown_type [of fresh db _ g _ _ _ g'] split: prod.split)
qed simp

lemma DBupdate_trigger_value_rows:
  assumes "DBupdate_trigger_value fresh db trigger v now reason = (r, db', calls)"
  shows "trigger_depends db' = trigger_depends db
    \<and> (\<forall>u. u \<noteq> triggerid trigger \<longrightarrow> triggers db' u = triggers db u)
    \<and> (triggers db' (triggerid trigger) = None \<longleftrightarrow> triggers db (triggerid trigger) = None)
    \<and> (trigger_dependent db (triggerid trigger) = FAIL \<and> t_value trigger \<noteq> v \<longrightarrow>
         map_option tr_value (triggers db' (triggerid trigger)) = map_option (\<lambda>_. v) (triggers db (triggerid trigger)))
    \<and> (t_value trigger = v \<and> \<not> forced trigger v \<longrightarrow> triggers db' = triggers db)"
  using assms
  by (auto simp: DBupdate_trigger_value_def process_event_def update_trigger_row_def forced_def option.map_comp comp_def Let_def
      split: if_splits prod.splits)

lemma depends_on_empty:
  "depends_on db t = [] \<longleftrightarrow> (\<forall>(down, up) \<in> set (trigger_depends db). down = t \<longrightarrow> triggers db up = None)"
  by (auto simp: depends_on_def split: option.splits)

lemma independent_FAIL: "depends_on db t = [] \<Longrightarrow> trigger_dependent db t = FAIL"
  by (simp add: trigger_dependent_def eval_nat_numeral)

lemma to_unknown_rows:
  assumes "to_unknown fresh garbage clk reason rows db = (db', calls)" "distinct (map fst rows)"
    and "\<forall>(t, v) \<in> set rows. map_option tr_value (triggers db t) = Some v"
  shows "(\<forall>(t, v) \<in> set rows. depends_on db t = [] \<longrightarrow> map_option tr_value (triggers db' t) = Some TRIGGER_VALUE_UNKNOWN)
    \<and> (\<forall>t. t \<notin> fst ` set rows \<longrightarrow> triggers db' t = triggers db t)"
  using assms
proof (induction rows arbitrary: db calls)
  case (Cons q rows)
  obtain t v where q: "q = (t, v)" by (cases q)
  let ?tr = "\<lparr>triggerid = t, t_type = garbage, t_value = v\<rparr>"
  obtain r db1 c1 where u: "DBupdate_trigger_value fresh db ?tr TRIGGER_VALUE_UNKNOWN clk reason = (r, db1, c1)"
    by (cases "DBupdate_trigger_value fresh db ?tr TRIGGER_VALUE_UNKNOWN clk reason")
  obtain c2 where l: "to_unknown fresh garbage clk reason rows db1 = (db', c2)"
    using Cons.prems(1) u by (auto simp: q Let_def split: prod.splits)
  note R = DBupdate_trigger_value_rows [OF u, simplified]
  have none: "triggers db1 u = None \<longleftrightarrow> triggers db u = None" for u using R by (cases "u = t") auto
  have dep: "depends_on db1 u = [] \<longleftrightarrow> depends_on db u = []" for u
    using R none by (simp add: depends_on_empty)
  have t: "map_option tr_value (triggers db1 t) = Some TRIGGER_VALUE_UNKNOWN" if "depends_on db t = []"
  proof (cases "v = TRIGGER_VALUE_UNKNOWN")
    case True
    then show ?thesis using R Cons.prems(3) by (auto simp: q forced_def trigger_codes)
  next
    case False
    then show ?thesis using R Cons.prems(3) independent_FAIL [OF that] by (auto simp: q)
  qed
  have same: "triggers db1 u = triggers db u" if "u \<noteq> t" for u using R that by blast
  have "map_option tr_value (triggers db1 u) = Some w" if "(u, w) \<in> set rows" for u w
  proof -
    have "u \<noteq> t" using Cons.prems(2) that by (force simp: q)
    then show ?thesis using same Cons.prems(3) that by (auto simp: q)
  qed
  then have "\<forall>(u, w) \<in> set rows. map_option tr_value (triggers db1 u) = Some w" by blast
  then have IH: "(\<forall>(u, w) \<in> set rows. depends_on db1 u = [] \<longrightarrow> map_option tr_value (triggers db' u) = Some TRIGGER_VALUE_UNKNOWN)
    \<and> (\<forall>u. u \<notin> fst ` set rows \<longrightarrow> triggers db' u = triggers db1 u)"
    using Cons.IH [OF l] Cons.prems(2) by (simp add: q)
  have nt: "t \<notin> fst ` set rows" using Cons.prems(2) by (simp add: q)
  have "triggers db' t = triggers db1 t" using IH nt by blast
  then show ?case using IH t R unfolding q dep by auto
qed simp

lemma select_triggers_spec:
  "((t, v) \<in> set (select_triggers db ts) \<longleftrightarrow> t \<in> set ts \<and> map_option tr_value (triggers db t) = Some v)
   \<and> map fst (select_triggers db ts) = filter (\<lambda>t. triggers db t \<noteq> None) ts"
  by (induction ts) (auto simp: select_triggers_def split: option.splits)

text \<open>C11: when a host goes down, every trigger of the host that depends on no other trigger is
  \<open>UNKNOWN\<close> afterwards and triggers of other hosts keep their rows; the \<open>type\<close> the
  caller leaves uninitialised does not influence the result.\<close>

theorem host_triggers_unknown:
  assumes "update_triggers_status_to_unknown fresh garbage host_triggers db h clk reason = (db', calls)"
    and "distinct (host_triggers h)"
  shows "update_triggers_status_to_unknown fresh other host_triggers db h clk reason = (db', calls)
    \<and> (\<forall>t \<in> set (host_triggers h). triggers db t \<noteq> None \<and> depends_on db t = [] \<longrightarrow>
          map_option tr_value (triggers db' t) = Some TRIGGER_VALUE_UNKNOWN)
    \<and> (\<forall>t. t \<notin> set (host_triggers h) \<longrightarrow> triggers db' t = triggers db t)"
proof -
  let ?rows = "select_triggers db (host_triggers h)"
  note mem = select_triggers_spec [THEN conjunct1]
  have d: "distinct (map fst ?rows)" using assms(2) select_triggers_spec by simp
  have run: "to_unknown fresh garbage clk (Some reason) ?rows db = (db', calls)"
    using assms(1) by (simp add: update_triggers_status_to_unknown_def)
  then have "update_triggers_status_to_unknown fresh other host_triggers db h clk reason = (db', calls)"
    using to_unknown_type [of fresh garbage clk "Some reason" ?rows db other] by (simp add: update_triggers_status_to_unknown_def)
  moreover have "\<forall>(t, v) \<in> set ?rows. map_option tr_value (triggers db t) = Some v" using mem by blast
  note rows = to_unknown_rows [OF run d this]
  have "map_option tr_value (triggers db' t) = Some TRIGGER_VALUE_UNKNOWN"
    if "t \<in> set (host_triggers h)" "triggers db t \<noteq> None" "depends_on db t = []" for t
    using rows that mem by fastforce
  moreover have "triggers db' t = triggers db t" if "t \<notin> set (host_triggers h)" for t
    using rows that mem by fastforce
  ultimately show ?thesis by blast
qed

definition sample_hdb :: tdb where
  "sample_hdb = \<lparr>triggers = [5 \<mapsto> \<lparr>tr_value = 1, tr_type = 0, tr_priority = 3, tr_lastchange = 0, tr_error = []\<rparr>,
       6 \<mapsto> \<lparr>tr_value = 1, tr_type = 0, tr_priority = 3, tr_lastchange = 0, tr_error = []\<rparr>],
     trigger_depends = [], events = []\<rparr>"

theorem host_triggers_unknown_witness:
  "map_option tr_value (triggers (fst (update_triggers_status_to_unknown sample_fresh 1 (\<lambda>h. [5]) sample_hdb 9 100 ''down'')) 5)
      = Some TRIGGER_VALUE_UNKNOWN
   \<and> triggers (fst (update_triggers_status_to_unknown sample_fresh 1 (\<lambda>h. [5]) sample_hdb 9 100 ''down'')) 6 = triggers sample_hdb 6"
proof -
  obtain db' calls where r: "update_triggers_status_to_unknown sample_fresh 1 (\<lambda>h. [5]) sample_hdb 9 100 ''down'' = (db', calls)"
    by (cases "update_triggers_status_to_unknown sample_fresh 1 (\<lambda>h. [5]) sample_hdb 9 100 ''down''")
  from host_triggers_unknown [OF r, of 0] show ?thesis unfolding r
    by (simp add: sample_hdb_def depends_on_def)
qed

subsection \<open>When a host counts as unavailable\<close>

text \<open>A trace of checks of one host: the time and whether the agent answered.  Each check reads the
  row of the host afresh.\<close>

definition load_item :: "hdb \<Rightarrow> u64 \<Rightarrow> poll_item" where
  "load_item db h = (case hosts db h of None \<Rightarrow> \<lparr>p_hostid = h, p_available = 0, p_errors_from = 0\<rparr>
     | Some r \<Rightarrow> \<lparr>p_hostid = h, p_available = available r, p_errors_from = errors_from r\<rparr>)"

fun checks :: "(event_row list \<Rightarrow> u64) \<Rightarrow> int \<Rightarrow> (u64 \<Rightarrow> u64 list) \<Rightarrow> poll_config \<Rightarrow> u64 \<Rightarrow> hdb \<Rightarrow> (int \<times> bool) list \<Rightarrow> hdb option" where
  "checks fresh garbage host_triggers cfg h db [] = Some db"
| "checks fresh garbage host_triggers cfg h db ((now, ok) # tr) =
     (case check_result fresh garbage host_triggers cfg db (load_item db h) ITEM_TYPE_ZABBIX 30 now
             (if ok then SUCCEED else NETWORK_ERROR) (Some ''error'') of
        None \<Rightarrow> None
      | Some (db1, calls, stop, nextcheck) \<Rightarrow> checks fresh garbage host_triggers cfg h db1 tr)"

text \<open>The times of the errors since the last answer.\<close>

fun errors_since :: "int list \<Rightarrow> (int \<times> bool) list \<Rightarrow> int list" where
  "errors_since es [] = es"
| "errors_since es ((now, ok) # tr) = errors_since (if ok then [] else es @ [now]) tr"

definition too_long :: "int \<Rightarrow> int list \<Rightarrow> bool" where
  "too_long period es \<longleftrightarrow> es \<noteq> [] \<and> (\<exists>t \<in> set es. period < t - hd es)"

definition host_view :: "int \<Rightarrow> hdb \<Rightarrow> u64 \<Rightarrow> int list \<Rightarrow> bool" where
  "host_view period db h es \<longleftrightarrow> (\<exists>r. hosts db h = Some r \<and> errors_from r = (if es = [] then 0 else hd es)
     \<and> (available r = HOST_AVAILABLE_FALSE \<longleftrightarrow> too_long period es))"

lemma check_result_view:
  assumes "host_view (unreachable_period cfg) db h es" "0 \<le> unreachable_period cfg" "now \<noteq> 0" "0 \<notin> set es"
  shows "\<exists>db1 calls stop next. check_result fresh garbage host_triggers cfg db (load_item db h) ITEM_TYPE_ZABBIX 30 now
        (if ok then SUCCEED else NETWORK_ERROR) (Some msg) = Some (db1, calls, stop, next)
     \<and> host_view (unreachable_period cfg) db1 h (if ok then [] else es @ [now])"
proof -
  obtain r where r: "hosts db h = Some r" "errors_from r = (if es = [] then 0 else hd es)"
    "available r = HOST_AVAILABLE_FALSE \<longleftrightarrow> too_long (unreachable_period cfg) es" using assms(1) by (auto simp: host_view_def)
  have hd: "es \<noteq> [] \<Longrightarrow> hd es \<noteq> 0" using assms(4) by (metis hd_in_set)
  show ?thesis
  proof (cases ok)
    case True
    then show ?thesis using r
      by (cases "available r = HOST_AVAILABLE_TRUE"; cases "errors_from r = 0"; cases "on_proxy cfg")
        (simp_all add: check_result_def uses_host_def answered_def enable_host_def change_host_def DBupdate_host_availability_def
          DBproxy_update_host_availability_def load_item_def host_view_def set_host_def too_long_def availability_codes Let_def, blast+)
  next
    case False
    show ?thesis
    proof (cases "es = []")
      case True
      then show ?thesis using r False assms(2)
        by (auto simp: check_result_def load_item_def host_view_def set_host_def too_long_def)
    next
      case ne: False
      have grow: "too_long p (es @ [now]) \<longleftrightarrow> too_long p es \<or> p < now - hd es" for p
        using ne by (auto simp: too_long_def)
      show ?thesis
        using r False ne hd grow
        by (cases "unreachable_period cfg < now - hd es"; cases "available r = HOST_AVAILABLE_FALSE"; cases "on_proxy cfg")
          (simp_all add: check_result_def disable_host_def change_host_def DBupdate_host_availability_def
            DBproxy_update_host_availability_def load_item_def host_view_def set_host_def availability_codes Let_def
            split: prod.split, blast+)
    qed
  qed
qed

lemma checks_view:
  assumes "host_view (unreachable_period cfg) db h es" "0 \<le> unreachable_period cfg" "0 \<notin> fst ` set tr" "0 \<notin> set es"
  shows "\<exists>db'. checks fresh garbage host_triggers cfg h db tr = Some db' \<and> host_view (unreachable_period cfg) db' h (errors_since es tr)"
  using assms
proof (induction tr arbitrary: db es)
  case (Cons q tr)
  obtain now ok where q: "q = (now, ok)" by (cases q)
  obtain db1 calls stop nx where s: "check_result fresh garbage host_triggers cfg db (load_item db h) ITEM_TYPE_ZABBIX 30 now
        (if ok then SUCCEED else NETWORK_ERROR) (Some ''error'') = Some (db1, calls, stop, nx)"
    "host_view (unreachable_period cfg) db1 h (if ok then [] else es @ [now])"
    using check_result_view [OF Cons.prems(1,2), of now fresh garbage host_triggers ok "''error''"] Cons.prems(3,4)
    by (auto simp: q)
  from Cons.IH [OF s(2) Cons.prems(2)] Cons.prems(3,4) s(1) show ?case by (auto simp: q split: if_splits)
qed simp

text \<open>C10: whatever the sequence of answers and network errors, the checks never fail an assertion,
  and a host that started out available is marked unavailable afterwards exactly when, since its last
  answer, some error came more than the unreachable period after the first; \<open>errors_from\<close> is
  the time of that first error, or zero.\<close>

theorem unavailable_iff_errors_persist:
  assumes "hosts db h = Some r" "available r \<noteq> HOST_AVAILABLE_FALSE" "errors_from r = 0"
    and "0 \<le> unreachable_period cfg" "0 \<notin> fst ` set tr"
  shows "\<exists>db' r'. checks fresh garbage host_triggers cfg h db tr = Some db' \<and> hosts db' h = Some r'
    \<and> errors_from r' = (if errors_since [] tr = [] then 0 else hd (errors_since [] tr))
    \<and> (available r' = HOST_AVAILABLE_FALSE \<longleftrightarrow> too_long (unreachable_period cfg) (errors_since [] tr))"
proof -
  have "host_view (unreachable_period cfg) db h []" using assms(1-3) by (simp add: host_view_def too_long_def)
  from checks_view [OF this assms(4,5), of fresh garbage host_triggers] show ?thesis by (auto simp: host_view_def)
qed

theorem unavailable_iff_errors_persist_witness:
  "\<exists>db' r'. checks sample_fresh 0 (\<lambda>h. [5]) \<lparr>unreachable_delay = 15, unreachable_period = 45, unavailable_delay = 60, on_proxy = False\<rparr> 9
      \<lparr>tables = sample_hdb, hosts = [9 \<mapsto> \<lparr>available = 1, host_error = [], errors_from = 0, disable_until = 0\<rparr>]\<rparr>
      [(100, False), (130, True), (200, False), (220, False), (250, False)] = Some db'
    \<and> hosts db' 9 = Some r' \<and> errors_from r' = 200 \<and> available r' = HOST_AVAILABLE_FALSE"
  using unavailable_iff_errors_persist [of "\<lparr>tables = sample_hdb, hosts = [9 \<mapsto> \<lparr>available = 1, host_error = [], errors_from = 0, disable_until = 0\<rparr>]\<rparr>"
      9 "\<lparr>available = 1, host_error = [], errors_from = 0, disable_until = 0\<rparr>"
      "\<lparr>unreachable_delay = 15, unreachable_period = 45, unavailable_delay = 60, on_proxy = False\<rparr>"
      "[(100, False), (130, True), (200, False), (220, False), (250, False)]" sample_fresh 0 "\<lambda>h. [5]"]
  by (simp add: too_long_def availability_codes)

end
