(* ===== verification/Codecs.thy ===== *)
theory Codecs
  imports SqlEscape
begin

section \<open>Byte codecs\<close>

text \<open>
  The encodings in which the processes exchange bytes: base64 (\<open>libs/zbxcrypto/base64.c\<close>), hexadecimal
  digits and the PostgreSQL byte literals (\<open>libs/zbxcommon/str.c\<close>), and the little-endian number of
  the message header (\<open>libs/zbxcommon/comms.c\<close>).  Data are lists of bytes, which may contain
  zeros; text is a \<^typ>\<open>string\<close>.  A reader that would leave its input or its buffer
  returns \<open>None\<close>.
\<close>

definition byte :: "char \<Rightarrow> u8" where "byte c = of_char c"
definition chr :: "u8 \<Rightarrow> char" where "chr w = char_of (unat w)"

lemma byte_chr [simp]: "byte (chr w) = w"
proof -
  have "unat w < 256" using unsigned_less [of w] by simp
  then have "of_char (char_of (unat w) :: char) = unat w" by simp
  then have "of_nat (of_char (char_of (unat w) :: char)) = w" by (simp only: of_nat_unat ucast_id)
  then show ?thesis by (simp only: byte_def chr_def of_nat_of_char)
qed

text \<open>A property of every small byte, checked on all of them.\<close>

lemma small_words: "list_all (\<lambda>n. P (word_of_nat n)) [0..<k] \<Longrightarrow> unat (w :: u8) < k \<Longrightarrow> P w"
proof -
  assume "list_all (\<lambda>n. P (word_of_nat n)) [0..<k]" and "unat w < k"
  then have "P (word_of_nat (unat w))" unfolding list_all_iff by (metis atLeastLessThan_iff le0 set_upt)
  then show ?thesis by (simp only: of_nat_unat ucast_id)
qed

lemma all_bytes: "list_all (\<lambda>n. P (word_of_nat n)) [0..<256] \<Longrightarrow> P (w :: u8)"
  using small_words [of P 256 w] unsigned_less [of w] by simp

subsection \<open>Lossless codes\<close>

text \<open>What the users of a codec rely on: decoding what was encoded.\<close>

locale lossless =
  fixes encode :: "'a \<Rightarrow> 'b" and decode :: "'b \<Rightarrow> 'a option" and fits :: "'a \<Rightarrow> bool"
  assumes decode_encode: "fits x \<Longrightarrow> decode (encode x) = Some x"
begin

lemma encode_inject: "fits x \<Longrightarrow> fits y \<Longrightarrow> encode x = encode y \<longleftrightarrow> x = y"
  by (metis decode_encode option.inject)

lemma decode_all: "list_all fits xs \<Longrightarrow> map (decode \<circ> encode) xs = map Some xs"
  by (induction xs) (simp_all add: decode_encode)

end

subsection \<open>Base64\<close>

definition base64_set :: string where
  "base64_set = ''ABCDEFGHIJKLMNOPQRSTUVWXYZabcdefghijklmnopqrstuvwxyz0123456789+/''"

definition ZBX_MAX_B64_LEN :: nat where "ZBX_MAX_B64_LEN = 16 * 1024"
definition MAX_B64_SIZE :: nat where "MAX_B64_SIZE = 64 * 1024"

definition is_base64 :: "char \<Rightarrow> bool" where
  "is_base64 c \<longleftrightarrow> (CHR ''0'' \<le> c \<and> c \<le> CHR ''9'') \<or> (CHR ''a'' \<le> c \<and> c \<le> CHR ''z'') \<or> (CHR ''A'' \<le> c \<and> c \<le> CHR ''Z'')
     \<or> c = CHR ''/'' \<or> c = CHR ''+'' \<or> c = CHR ''=''"

definition char_base64_encode :: "u8 \<Rightarrow> char" where
  "char_base64_encode uc = base64_set ! unat uc"

definition char_base64_decode :: "char \<Rightarrow> u8" where
  "char_base64_decode c =
     (if CHR ''A'' \<le> c \<and> c \<le> CHR ''Z'' then byte c - byte CHR ''A''
      else if CHR ''a'' \<le> c \<and> c \<le> CHR ''z'' then byte c - byte CHR ''a'' + 26
      else if CHR ''0'' \<le> c \<and> c \<le> CHR ''9'' then byte c - byte CHR ''0'' + 52
      else if c = CHR ''+'' then 62 else 63)"

text \<open>Three bytes give four characters of six bits each.\<close>

definition encode_group :: "u8 \<Rightarrow> u8 \<Rightarrow> u8 \<Rightarrow> string" where
  "encode_group from1 from2 from3 =
     map char_base64_encode
       [drop_bit 2 from1 AND 0x3F, push_bit 4 (from1 AND 3) OR drop_bit 4 from2,
        push_bit 2 (from2 AND 0xF) OR drop_bit 6 from3, from3 AND 0x3F]"

text \<open>The loop of the encoder takes three bytes a round, pads the last group and stops when the
  output is longer than \<open>ZBX_MAX_B64_LEN - 5\<close>; \<open>out\<close> is the length so far.\<close>

fun encode_loop :: "nat \<Rightarrow> u8 list \<Rightarrow> string" where
  "encode_loop out [] = []"
| "encode_loop out [a] = (if ZBX_MAX_B64_LEN - 5 < out then [] else take 2 (encode_group a 0 0) @ ''=='')"
| "encode_loop out [a, b] = (if ZBX_MAX_B64_LEN - 5 < out then [] else take 3 (encode_group a b 0) @ ''='')"
| "encode_loop out (a # b # c # s) =
     (if ZBX_MAX_B64_LEN - 5 < out then [] else encode_group a b c @ encode_loop (out + 4) s)"

definition str_base64_encode :: "u8 list \<Rightarrow> string" where
  "str_base64_encode s = encode_loop 0 s"

text \<open>The bytes of one group of four characters; missing characters count as \<open>A\<close>.\<close>

definition decode_group :: "char \<Rightarrow> char \<Rightarrow> char \<Rightarrow> char \<Rightarrow> u8 list" where
  "decode_group from1 from2 from3 from4 =
     (let to1 = char_base64_decode from1; to2 = char_base64_decode from2;
          to3 = char_base64_decode from3; to4 = char_base64_decode from4
      in (push_bit 2 to1 OR drop_bit 4 to2)
         # (if from3 \<noteq> CHR ''='' then [push_bit 4 (to2 AND 0xF) OR drop_bit 2 to3] else [])
         @ (if from4 \<noteq> CHR ''='' then [push_bit 6 (to3 AND 3) OR to4] else []))"

fun decode_loop :: "string \<Rightarrow> u8 list" where
  "decode_loop [] = []"
| "decode_loop [a] = decode_group a CHR ''A'' CHR ''A'' CHR ''A''"
| "decode_loop [a, b] = decode_group a b CHR ''A'' CHR ''A''"
| "decode_loop [a, b, c] = decode_group a b c CHR ''A''"
| "decode_loop (a # b # c # d # s) = decode_group a b c d @ decode_loop s"

text \<open>The decoder keeps the base64 characters in a buffer of \<open>MAX_B64_SIZE\<close>, which it does
  not check, and stops after \<open>maxsize\<close> bytes, at least one.\<close>

definition str_base64_decode :: "string \<Rightarrow> nat \<Rightarrow> u8 list option" where
  "str_base64_decode s maxsize =
     (let clean = filter is_base64 s
      in if length clean < MAX_B64_SIZE then Some (take maxsize (decode_loop clean)) else None)"

lemma is_base64_set: "c \<in> set base64_set \<Longrightarrow> is_base64 c \<and> c \<noteq> CHR ''=''"
proof -
  have "list_all (\<lambda>c. is_base64 c \<and> c \<noteq> CHR ''='') base64_set" by code_simp
  then show "c \<in> set base64_set \<Longrightarrow> is_base64 c \<and> c \<noteq> CHR ''=''" by (simp add: list_all_iff)
qed

lemma base64_set_length: "length base64_set = 64"
  by (simp add: base64_set_def)

lemma base64_char:
  assumes "unat w < 64"
  shows "is_base64 (char_base64_encode w)" "char_base64_encode w \<noteq> CHR ''=''"
  using is_base64_set [of "char_base64_encode w"] assms
  by (simp_all add: char_base64_encode_def base64_set_length)

lemma base64_char_decode:
  assumes "unat w < 64"
  shows "char_base64_decode (char_base64_encode w) = w"
proof -
  have "list_all (\<lambda>n. char_base64_decode (base64_set ! n) = word_of_nat n) [0..<64]" by code_simp
  then have "char_base64_decode (base64_set ! unat w) = word_of_nat (unat w)" using assms by (simp add: list_all_iff)
  then show ?thesis by (simp add: char_base64_encode_def)
qed


lemma byte_bits: "(\<And>n. n \<in> {0, 1, 2, 3, 4, 5, 6, 7} \<Longrightarrow> bit (v :: u8) n = bit w n) \<Longrightarrow> v = w"
proof (rule bit_word_eqI)
  fix n assume "\<And>n. n \<in> {0, 1, 2, 3, 4, 5, 6, 7} \<Longrightarrow> bit v n = bit w n" and "n < LENGTH(8)"
  moreover from this(2) have "n \<in> {0, 1, 2, 3, 4, 5, 6, 7}" by auto
  ultimately show "bit v n = bit w n" by blast
qed

lemma group_bits:
  "push_bit 2 (drop_bit 2 a AND 0x3F) OR drop_bit 4 (push_bit 4 (a AND 3) OR drop_bit 4 b) = (a :: u8)"
  "push_bit 4 ((push_bit 4 (a AND 3) OR drop_bit 4 b) AND 0xF) OR drop_bit 2 (push_bit 2 (b AND 0xF) OR drop_bit 6 c) = b"
  "push_bit 6 ((push_bit 2 (b AND 0xF) OR drop_bit 6 c) AND 3) OR (c AND 0x3F) = (c :: u8)"
  by (rule byte_bits; (auto simp: bit_simps)?; simp add: eval_nat_numeral)+

lemma six_bits: "\<not> bit w 6 \<Longrightarrow> \<not> bit w 7 \<Longrightarrow> unat (w :: u8) < 64"
proof -
  assume h: "\<not> bit w 6" "\<not> bit w 7"
  have "w = take_bit 6 w" by (rule byte_bits) (use h in \<open>auto simp: bit_simps\<close>)
  then have "unat w = take_bit 6 (unat w)" by (metis unsigned_take_bit_eq)
  then show ?thesis using take_bit_nat_less_exp [of 6 "unat w"] by simp
qed

lemma high_bits: "8 \<le> n \<Longrightarrow> \<not> bit (w :: u8) n"
  using bit_imp_le_length [of w n] by auto

lemma six_bit_groups:
  "unat (drop_bit 2 a AND 0x3F :: u8) < 64" "unat (push_bit 4 (a AND 3) OR drop_bit 4 b :: u8) < 64"
  "unat (push_bit 2 (b AND 0xF) OR drop_bit 6 c :: u8) < 64" "unat (c AND 0x3F :: u8) < 64"
  by (rule six_bits; simp add: bit_simps high_bits)+

lemma encode_group_cases:
  obtains w x y z where "encode_group a b c = [w, x, y, z]" "list_all is_base64 [w, x, y, z]"
    "decode_group w x y z = [a, b, c]" "decode_group w x y CHR ''='' = [a, b]" "decode_group w x CHR ''='' CHR ''='' = [a]"
proof -
  define to1 to2 to3 to4 where "to1 = drop_bit 2 a AND 0x3F" and "to2 = push_bit 4 (a AND 3) OR drop_bit 4 b"
    and "to3 = push_bit 2 (b AND 0xF) OR drop_bit 6 c" and "to4 = c AND (0x3F :: u8)"
  have small: "unat to1 < 64" "unat to2 < 64" "unat to3 < 64" "unat to4 < 64"
    using six_bit_groups(1) [of a] six_bit_groups(2) [of a b] six_bit_groups(3) [of b c] six_bit_groups(4) [of c]
    by (simp_all only: to1_def to2_def to3_def to4_def)
  have "push_bit 2 to1 OR drop_bit 4 to2 = a" "push_bit 4 (to2 AND 0xF) OR drop_bit 2 to3 = b" "push_bit 6 (to3 AND 3) OR to4 = c"
    using group_bits(1) [of a b] group_bits(2) [of a b c] group_bits(3) [of b c] by (simp_all only: to1_def to2_def to3_def to4_def)
  moreover have "encode_group a b c = map char_base64_encode [to1, to2, to3, to4]"
    by (simp only: encode_group_def to1_def to2_def to3_def to4_def)
  ultimately show ?thesis
    using small by (intro that [of "char_base64_encode to1" "char_base64_encode to2" "char_base64_encode to3" "char_base64_encode to4"])
      (simp_all add: decode_group_def base64_char_decode base64_char)
qed

lemma decode_encode_loop:
  "out + 4 * ((length s + 2) div 3) \<le> ZBX_MAX_B64_LEN - 4 \<Longrightarrow> decode_loop (encode_loop out s) = s"
proof (induction out s rule: encode_loop.induct)
  case (2 out a)
  then show ?case by (cases rule: encode_group_cases [of a 0 0]) (simp add: ZBX_MAX_B64_LEN_def)
next
  case (3 out a b)
  then show ?case by (cases rule: encode_group_cases [of a b 0]) (simp add: ZBX_MAX_B64_LEN_def)
next
  case (4 out a b c s)
  have "(length (a # b # c # s) + 2) div 3 = Suc ((length s + 2) div 3)" by simp
  with 4 show ?case by (cases rule: encode_group_cases [of a b c]) (simp add: ZBX_MAX_B64_LEN_def)
qed simp

lemma encode_loop_chars: "list_all is_base64 (encode_loop out s) \<and> length (encode_loop out s) \<le> ZBX_MAX_B64_LEN - out"
proof (induction out s rule: encode_loop.induct)
  case (2 out a)
  then show ?case by (cases rule: encode_group_cases [of a 0 0]) (auto simp: ZBX_MAX_B64_LEN_def is_base64_def [of "CHR ''=''"])
next
  case (3 out a b)
  then show ?case
    by (cases rule: encode_group_cases [of a b 0]) (auto simp: ZBX_MAX_B64_LEN_def is_base64_def [of "CHR ''=''"])
next
  case (4 out a b c s)
  then show ?case by (cases rule: encode_group_cases [of a b c]) (auto simp: ZBX_MAX_B64_LEN_def)
qed simp

lemma base64_lossless:
  "length s \<le> 12285 \<Longrightarrow> str_base64_decode (str_base64_encode s) maxsize = Some (take maxsize s)"
  using decode_encode_loop [of 0 s] encode_loop_chars [of 0 s]
  by (simp add: str_base64_decode_def str_base64_encode_def ZBX_MAX_B64_LEN_def MAX_B64_SIZE_def list_all_iff)

interpretation base64: lossless str_base64_encode "\<lambda>t. str_base64_decode t n" "\<lambda>s. length s \<le> min n 12285" for n
  by unfold_locales (simp add: base64_lossless)

subsection \<open>Hexadecimal digits\<close>

definition zbx_num2hex :: "u8 \<Rightarrow> char" where
  "zbx_num2hex c = (if 10 \<le> c then chr (c + 0x57) else chr (c + 0x30))"

text \<open>The comparison is on the signed type \<open>char\<close>.\<close>

definition zbx_hex2num :: "char \<Rightarrow> u8" where
  "zbx_hex2num c = (if 0x61 \<le> sint (byte c) then byte c - 0x57 else byte c - 0x30)"

text \<open>Text, its length, and the size of the buffer afterwards.\<close>

definition zbx_binary2hex :: "u8 list \<Rightarrow> nat \<Rightarrow> string \<times> nat \<times> nat" where
  "zbx_binary2hex input olen =
     (let len = length input * 2 + 1
      in (concat (map (\<lambda>i. [zbx_num2hex (drop_bit 4 i AND 0xF), zbx_num2hex (i AND 0xF)]) input), len - 1,
          if olen < len then len else olen))"

text \<open>With an odd number of digits the loop takes the terminator as a digit and runs on.\<close>

fun zbx_hex2binary :: "string \<Rightarrow> u8 list option" where
  "zbx_hex2binary [] = Some []"
| "zbx_hex2binary [x] = None"
| "zbx_hex2binary (x # y # s) =
     map_option (\<lambda>bs. (push_bit 4 (zbx_hex2num x) + zbx_hex2num y) # bs) (zbx_hex2binary s)"

lemma hex_digit_value: "unat w < 16 \<Longrightarrow> zbx_hex2num (zbx_num2hex w) = w"
proof (rule small_words [where P = "\<lambda>w. zbx_hex2num (zbx_num2hex w) = w"])
  show "list_all (\<lambda>n. zbx_hex2num (zbx_num2hex (word_of_nat n)) = word_of_nat n) [0..<16]" by code_simp
qed

lemma nibbles: "push_bit 4 (drop_bit 4 i AND 0xF) + (i AND 0xF) = (i :: u8) \<and> unat (drop_bit 4 i AND 0xF) < 16 \<and> unat (i AND 0xF) < 16"
proof (rule all_bytes [where P = "\<lambda>i. push_bit 4 (drop_bit 4 i AND 0xF) + (i AND 0xF) = i \<and> unat (drop_bit 4 i AND 0xF) < 16 \<and> unat (i AND 0xF) < 16"])
  show "list_all (\<lambda>n. push_bit 4 (drop_bit 4 (word_of_nat n) AND 0xF) + (word_of_nat n AND 0xF) = (word_of_nat n :: u8)
    \<and> unat (drop_bit 4 (word_of_nat n) AND 0xF :: u8) < 16 \<and> unat (word_of_nat n AND 0xF :: u8) < 16) [0..<256]" by code_simp
qed

lemma hex_byte: "push_bit 4 (zbx_hex2num (zbx_num2hex (drop_bit 4 i AND 0xF))) + zbx_hex2num (zbx_num2hex (i AND 0xF)) = i"
  using nibbles [of i] by (simp only: hex_digit_value)

lemma hex_lossless: "zbx_hex2binary (fst (zbx_binary2hex s olen)) = Some s"
proof -
  have "zbx_hex2binary (concat (map (\<lambda>i. [zbx_num2hex (drop_bit 4 i AND 0xF), zbx_num2hex (i AND 0xF)]) s)) = Some s"
    by (induction s) (simp_all only: list.map concat.simps append.simps zbx_hex2binary.simps option.map hex_byte)
  then show ?thesis by (simp add: zbx_binary2hex_def Let_def)
qed

interpretation hex: lossless "\<lambda>s. fst (zbx_binary2hex s olen)" zbx_hex2binary "\<lambda>s. True" for olen
  by unfold_locales (rule hex_lossless)

subsection \<open>PostgreSQL byte literals\<close>

definition octal :: "u8 \<Rightarrow> string" where
  "octal i = [chr ((drop_bit 6 i AND 7) + 0x30), chr ((drop_bit 3 i AND 7) + 0x30), chr ((i AND 7) + 0x30)]"

definition escape_byte :: "u8 \<Rightarrow> string" where
  "escape_byte i =
     (if i = 0 \<or> i \<le> 0x1F \<or> 0x7F \<le> i then [CHR 0x5C, CHR 0x5C] @ octal i
      else if i = 0x27 then [CHR 0x5C, CHR 0x27]
      else if i = 0x5C then [CHR 0x5C, CHR 0x5C, CHR 0x5C, CHR 0x5C]
      else [chr i])"

definition escaped_size :: "u8 \<Rightarrow> nat" where
  "escaped_size i = (if i = 0 \<or> i \<le> 0x1F \<or> 0x7F \<le> i then 5 else if i = 0x27 then 2 else if i = 0x5C then 4 else 1)"

definition zbx_pg_escape_bytea :: "u8 list \<Rightarrow> nat \<Rightarrow> string \<times> nat \<times> nat" where
  "zbx_pg_escape_bytea input olen =
     (let len = 1 + sum_list (map escaped_size input)
      in (concat (map escape_byte input), len - 1, if olen < len then len else olen))"

definition is_octal_digit :: "char \<Rightarrow> bool" where
  "is_octal_digit c \<longleftrightarrow> 0x30 \<le> byte c \<and> byte c \<le> 0x39"

fun zbx_pg_unescape_bytea :: "string \<Rightarrow> u8 list" where
  "zbx_pg_unescape_bytea [] = []"
| "zbx_pg_unescape_bytea (c # s) =
     (if c = CHR 0x5C then
        (case s of
           [] \<Rightarrow> []
         | d # t \<Rightarrow>
           if d = CHR 0x5C then byte d # zbx_pg_unescape_bytea t
           else if is_octal_digit d \<and> 2 \<le> length t \<and> is_octal_digit (t ! 0) \<and> is_octal_digit (t ! 1) then
             (push_bit 6 (byte d - 0x30) + push_bit 3 (byte (t ! 0) - 0x30) + (byte (t ! 1) - 0x30))
             # zbx_pg_unescape_bytea (drop 2 t)
           else zbx_pg_unescape_bytea s)
      else byte c # zbx_pg_unescape_bytea s)"

text \<open>What the literal of an escaped byte stands for.\<close>

definition literal_of :: "u8 \<Rightarrow> string" where
  "literal_of i =
     (if i = 0 \<or> i \<le> 0x1F \<or> 0x7F \<le> i then CHR 0x5C # octal i else if i = 0x5C then [CHR 0x5C, CHR 0x5C] else [chr i])"

lemma chr_neq: "w \<noteq> byte c \<Longrightarrow> chr w \<noteq> c"
  by auto

lemma octal_digits:
  "push_bit 6 (drop_bit 6 i AND 7) + push_bit 3 (drop_bit 3 i AND 7) + (i AND 7) = (i :: u8)
   \<and> list_all (\<lambda>w. 0x30 \<le> w + 0x30 \<and> w + 0x30 \<le> (0x39 :: u8)) [drop_bit 6 i AND 7, drop_bit 3 i AND 7, i AND 7]"
proof (rule all_bytes [where P = "\<lambda>i. push_bit 6 (drop_bit 6 i AND 7) + push_bit 3 (drop_bit 3 i AND 7) + (i AND 7) = i
   \<and> list_all (\<lambda>w. 0x30 \<le> w + 0x30 \<and> w + 0x30 \<le> (0x39 :: u8)) [drop_bit 6 i AND 7, drop_bit 3 i AND 7, i AND 7]"])
  show "list_all (\<lambda>n. push_bit 6 (drop_bit 6 (word_of_nat n) AND 7) + push_bit 3 (drop_bit 3 (word_of_nat n) AND 7) + (word_of_nat n AND 7)
      = (word_of_nat n :: u8)
    \<and> list_all (\<lambda>w. 0x30 \<le> w + 0x30 \<and> w + 0x30 \<le> (0x39 :: u8))
        [drop_bit 6 (word_of_nat n) AND 7, drop_bit 3 (word_of_nat n) AND 7, word_of_nat n AND 7]) [0..<256]" by code_simp
qed

lemma octal_cases:
  obtains x y z where "octal i = [x, y, z]" "is_octal_digit x" "is_octal_digit y" "is_octal_digit z"
    "push_bit 6 (byte x - 0x30) + push_bit 3 (byte y - 0x30) + (byte z - 0x30) = i"
  using octal_digits [of i]
  by (intro that [of "chr ((drop_bit 6 i AND 7) + 0x30)" "chr ((drop_bit 3 i AND 7) + 0x30)" "chr ((i AND 7) + 0x30)"])
    (simp_all only: octal_def is_octal_digit_def byte_chr list.pred_inject add_diff_cancel_right')

lemma octal_digit_neq: "is_octal_digit c \<Longrightarrow> c \<noteq> CHR 0x5C \<and> c \<noteq> CHR 0x27"
  by (auto simp: is_octal_digit_def byte_def)

lemma unescape_literal: "zbx_pg_unescape_bytea (literal_of i @ s) = i # zbx_pg_unescape_bytea s"
proof (cases "i = 0 \<or> i \<le> 0x1F \<or> 0x7F \<le> i")
  case True
  show ?thesis
  proof (cases rule: octal_cases [of i])
    case (1 x y z)
    then show ?thesis using True octal_digit_neq [of x] by (simp add: literal_of_def)
  qed
next
  case False
  then show ?thesis using chr_neq [of i "CHR 0x5C"] byte_chr [of i] by (auto simp: literal_of_def byte_def simp del: byte_chr)
qed

lemma read_escaped_byte:
  assumes "s \<noteq> []"
  shows "read_literal PostgreSQL (escape_byte i @ s) = map_option (\<lambda>(v, r). (literal_of i @ v, r)) (read_literal PostgreSQL s)"
proof (cases "i = 0 \<or> i \<le> 0x1F \<or> 0x7F \<le> i")
  case True
  show ?thesis
  proof (cases rule: octal_cases [of i])
    case (1 x y z)
    have p: "\<not> needs_escape PostgreSQL x" "\<not> needs_escape PostgreSQL y" "\<not> needs_escape PostgreSQL z"
      using 1 octal_digit_neq by (auto simp: needs_escape_def)
    have n: "x \<noteq> CHR 0x5C" "y \<noteq> CHR 0x5C" "z \<noteq> CHR 0x5C" "x \<noteq> CHR 0x27" "y \<noteq> CHR 0x27" "z \<noteq> CHR 0x27"
      using 1 octal_digit_neq by auto
    show ?thesis
      using True 1 assms p n
      by (simp add: escape_byte_def literal_of_def read_literal_plain option.map_comp comp_def case_prod_unfold)
  qed
next
  case False
  then have "i \<noteq> 0x27 \<Longrightarrow> i \<noteq> 0x5C \<Longrightarrow> \<not> needs_escape PostgreSQL (chr i)"
    using chr_neq [of i "CHR 0x5C"] chr_neq [of i "CHR 0x27"] by (auto simp: needs_escape_def byte_def)
  moreover have "chr 0x27 = CHR 0x27" by code_simp
  ultimately show ?thesis
    using False assms by (auto simp: escape_byte_def literal_of_def read_literal_plain option.map_comp comp_def case_prod_unfold)
qed

lemma bytea_lossless:
  assumes "rest = [] \<or> hd rest \<noteq> CHR 0x27"
  shows "map_option (\<lambda>(v, r). (zbx_pg_unescape_bytea v, r))
           (read_literal PostgreSQL (fst (zbx_pg_escape_bytea s olen) @ CHR 0x27 # rest)) = Some (s, rest)"
proof -
  have "read_literal PostgreSQL (concat (map escape_byte s) @ CHR 0x27 # rest) = Some (concat (map literal_of s), rest)"
  proof (induction s)
    case Nil
    then show ?case using assms by (cases rest) auto
  qed (simp add: read_escaped_byte)
  moreover have "zbx_pg_unescape_bytea (concat (map literal_of s)) = s"
    by (induction s) (simp_all add: unescape_literal)
  ultimately show ?thesis by (simp add: zbx_pg_escape_bytea_def Let_def)
qed

lemma bytea_fills:
  "length (fst (zbx_pg_escape_bytea s olen)) = fst (snd (zbx_pg_escape_bytea s olen))
   \<and> length (fst (zbx_pg_escape_bytea s olen)) < snd (snd (zbx_pg_escape_bytea s olen))"
proof -
  have "length (escape_byte i) = escaped_size i" for i
    by (simp add: escape_byte_def escaped_size_def octal_def)
  then have "length (concat (map escape_byte s)) = sum_list (map escaped_size s)"
    by (simp add: length_concat comp_def)
  then show ?thesis by (simp add: zbx_pg_escape_bytea_def Let_def)
qed

interpretation bytea: lossless "\<lambda>s. fst (zbx_pg_escape_bytea s olen)"
    "\<lambda>t. map_option (zbx_pg_unescape_bytea \<circ> fst) (read_literal PostgreSQL (t @ [CHR 0x27]))" "\<lambda>s. True" for olen
  by unfold_locales (use bytea_lossless [of "[]" _ olen] in \<open>fastforce simp: comp_def\<close>)

subsection \<open>Little-endian numbers\<close>

text \<open>The bytes of a number in memory order, on a host of either order.\<close>

fun le_bytes :: "nat \<Rightarrow> u64 \<Rightarrow> u8 list" where
  "le_bytes 0 data = []"
| "le_bytes (Suc n) data = ucast data # le_bytes n (drop_bit 8 data)"

fun le_value :: "u8 list \<Rightarrow> u64" where
  "le_value [] = 0"
| "le_value (b # buf) = push_bit 8 (le_value buf) OR ucast b"

definition memory_of :: "bool \<Rightarrow> u64 \<Rightarrow> u8 list" where
  "memory_of big_endian data = (if big_endian then rev (le_bytes 8 data) else le_bytes 8 data)"

definition from_memory :: "bool \<Rightarrow> u8 list \<Rightarrow> u64" where
  "from_memory big_endian buf = le_value (if big_endian then rev buf else buf)"

definition zbx_htole_uint64 :: "bool \<Rightarrow> u64 \<Rightarrow> u64" where
  "zbx_htole_uint64 big_endian data = from_memory big_endian (le_bytes 8 data)"

definition zbx_letoh_uint64 :: "bool \<Rightarrow> u64 \<Rightarrow> u64" where
  "zbx_letoh_uint64 big_endian data = le_value (memory_of big_endian data)"

lemma le_value_bytes: "le_value (le_bytes n w) = take_bit (8 * n) w"
proof (induction n arbitrary: w)
  case (Suc n)
  have "push_bit 8 (take_bit (8 * n) (drop_bit 8 w)) OR ucast (ucast w :: u8) = take_bit (8 * Suc n) w"
    by (rule bit_word_eqI) (auto simp: bit_simps)
  then show ?case by (simp add: Suc)
qed simp

lemma le_bytes_value: "length buf = n \<Longrightarrow> n \<le> 8 \<Longrightarrow> le_bytes n (le_value buf) = buf"
proof (induction buf arbitrary: n)
  case (Cons b buf)
  then obtain m where n: "n = Suc m" "m \<le> 7" "length buf = m" by auto
  have "take_bit (8 * m) (le_value buf) = le_value buf"
    using Cons.IH [of m] n le_value_bytes [of m "le_value buf"] by simp
  then have small: "bit (le_value buf) k \<Longrightarrow> k < 56" for k
    using n bit_take_bit_iff [of "8 * m" "le_value buf" k] by simp
  have "ucast (push_bit 8 (le_value buf) OR ucast b :: u64) = b" by (rule bit_word_eqI) (auto simp: bit_simps)
  moreover have "drop_bit 8 (push_bit 8 (le_value buf) OR ucast b) = le_value buf"
    by (rule bit_word_eqI) (use small in \<open>auto simp: bit_simps high_bits\<close>)
  ultimately show ?case using Cons.IH [of m] n by simp
qed simp

lemma wire_order:
  "memory_of big_endian (zbx_htole_uint64 big_endian data) = le_bytes 8 data
   \<and> zbx_letoh_uint64 big_endian (zbx_htole_uint64 big_endian data) = data"
proof -
  have len: "length (le_bytes n w) = n" for n w by (induction n arbitrary: w) simp_all
  have "take_bit 64 data = data" by (rule bit_word_eqI) (auto simp: bit_simps)
  then show ?thesis
    using le_value_bytes [of 8 data] le_bytes_value [of "rev (le_bytes 8 data)" 8] le_bytes_value [of "le_bytes 8 data" 8]
    by (simp add: memory_of_def zbx_htole_uint64_def zbx_letoh_uint64_def from_memory_def len)
qed

lemma wire_lossless: "zbx_letoh_uint64 b2 (from_memory b2 (memory_of b1 (zbx_htole_uint64 b1 w))) = w"
  using wire_order [of b1 w] wire_order [of b2 w] by (simp add: zbx_htole_uint64_def)

interpretation wire: lossless "\<lambda>w. memory_of b1 (zbx_htole_uint64 b1 w)" "\<lambda>m. Some (zbx_letoh_uint64 b2 (from_memory b2 m))"
    "\<lambda>w. True" for b1 b2
  by unfold_locales (simp add: wire_lossless)

text \<open>C32: what one process encodes another decodes, whatever the bytes: base64 up to 12285 bytes
  (and up to the size of the reader's buffer), hexadecimal digits, and the number of the message
  header between hosts of any byte order.\<close>

theorem codecs_lossless:
  assumes "length s \<le> 12285"
  shows "str_base64_decode (str_base64_encode s) n = Some (take n s)
    \<and> zbx_hex2binary (fst (zbx_binary2hex s olen)) = Some s
    \<and> zbx_letoh_uint64 b2 (from_memory b2 (memory_of b1 (zbx_htole_uint64 b1 w))) = w"
  using base64_lossless [OF assms, of n] hex_lossless [of s olen] wire_lossless [of b2 b1 w] by simp

theorem codecs_lossless_witness:
  "str_base64_decode (str_base64_encode [0x5A, 0x42, 0, 0xFF]) 3 = Some [0x5A, 0x42, 0]
   \<and> zbx_hex2binary (fst (zbx_binary2hex [0x5A, 0x42, 0, 0xFF] 0)) = Some [0x5A, 0x42, 0, 0xFF]
   \<and> zbx_letoh_uint64 False (from_memory False (memory_of True (zbx_htole_uint64 True 18))) = 18"
  using codecs_lossless [of "[0x5A, 0x42, 0, 0xFF]" 3 0 False True 18] by simp

text \<open>C33: the literal the PostgreSQL escape produces cannot end early, stands for the bytes it was
  made from, and fills the buffer it asks for exactly.\<close>

theorem bytea_roundtrip:
  assumes "rest = [] \<or> hd rest \<noteq> CHR 0x27" and "zbx_pg_escape_bytea s olen = (t, len, sz)"
  shows "map_option (\<lambda>(v, r). (zbx_pg_unescape_bytea v, r)) (read_literal PostgreSQL (t @ CHR 0x27 # rest)) = Some (s, rest)
    \<and> length t = len \<and> len < sz"
  using bytea_lossless [OF assms(1), of s olen] bytea_fills [of s olen] assms(2) by simp

theorem bytea_roundtrip_witness:
  "\<exists>t len sz. zbx_pg_escape_bytea [0, 0x27, 0x5C, 0x41 :: u8] 4 = (t, len, sz)
    \<and> map_option (\<lambda>(v, r). (zbx_pg_unescape_bytea v, r)) (read_literal PostgreSQL (t @ CHR 0x27 # '',1'')) = Some ([0, 0x27, 0x5C, 0x41], '',1'')
    \<and> length t = len \<and> len < sz"
proof -
  obtain t len sz where r: "zbx_pg_escape_bytea [0, 0x27, 0x5C, 0x41 :: u8] 4 = (t, len, sz)" by (cases "zbx_pg_escape_bytea [0, 0x27, 0x5C, 0x41] 4")
  show ?thesis using bytea_roundtrip [OF _ r, of "'',1''"] r by simp
qed

end
