(* ===== verification/JsonWriter.thy ===== *)
theory JsonWriter
  imports Codecs CString
begin

section \<open>Writing JSON\<close>

text \<open>
  The writer of \<open>libs/zbxjson/json.c\<close>.  The text is kept complete at any time: a new member is
  inserted before the closing brackets, at \<open>buffer_offset\<close>.  \<open>buffer\<close> is the text
  before the terminator; the record also has the sizes the code keeps beside it.  The abstract document
  is a tree, and writing its nodes one by one produces its rendering.
\<close>

datatype json_type =
    ZBX_JSON_TYPE_UNKNOWN | ZBX_JSON_TYPE_STRING | ZBX_JSON_TYPE_INT | ZBX_JSON_TYPE_ARRAY
  | ZBX_JSON_TYPE_OBJECT | ZBX_JSON_TYPE_NULL

datatype json_status = ZBX_JSON_EMPTY | ZBX_JSON_COMMA

definition ZBX_JSON_STAT_BUF_LEN :: nat where "ZBX_JSON_STAT_BUF_LEN = 4096"

record json =
  buffer :: string
  buffer_allocated :: nat
  buffer_offset :: nat
  buffer_size :: nat
  status :: json_status
  level :: nat

text \<open>The doubling loop of \<open>__zbx_json_realloc\<close>.\<close>

function json_grow :: "nat \<Rightarrow> nat \<Rightarrow> nat" where
  "json_grow need allocated =
     (if need \<le> allocated then allocated else json_grow need (if allocated = 0 then 1024 else allocated * 2))"
  by pat_completeness auto
termination
  by (relation "measure (\<lambda>(need, allocated). (if allocated = 0 then 1 else 0) + (need - allocated))") auto

declare json_grow.simps [simp del]

definition json_realloc :: "json \<Rightarrow> nat \<Rightarrow> json" where
  "json_realloc j need = j\<lparr>buffer_allocated := json_grow need (buffer_allocated j)\<rparr>"

subsection \<open>Strings\<close>

text \<open>The escape of a character: two characters, six for the other control characters, or itself.\<close>

definition short_escape :: "char \<Rightarrow> char option" where
  "short_escape c =
     (if c = CHR 0x22 \<or> c = CHR 0x5C \<or> c = CHR ''/'' then Some c
      else if c = CHR 0x08 then Some CHR ''b'' else if c = CHR 0x0C then Some CHR ''f''
      else if c = CHR 0x0A then Some CHR ''n'' else if c = CHR 0x0D then Some CHR ''r''
      else if c = CHR 0x09 then Some CHR ''t'' else None)"

definition json_escape :: "char \<Rightarrow> string" where
  "json_escape c =
     (case short_escape c of
        Some d \<Rightarrow> [CHR 0x5C, d]
      | None \<Rightarrow>
          if byte c < 32 then
            [CHR 0x5C, CHR ''u'', CHR ''0'', CHR ''0'', zbx_num2hex (drop_bit 4 (byte c) AND 0xF), zbx_num2hex (byte c AND 0xF)]
          else [c])"

definition json_escape_size :: "char \<Rightarrow> nat" where
  "json_escape_size c = (if short_escape c \<noteq> None then 2 else if byte c < 32 then 6 else 1)"

text \<open>NULL is written as \<open>null\<close>, without quotes.\<close>

definition json_stringsize :: "string option \<Rightarrow> json_type \<Rightarrow> nat" where
  "json_stringsize s type =
     sum_list (map json_escape_size (case s of Some t \<Rightarrow> t | None \<Rightarrow> ''null''))
     + (if s \<noteq> None \<and> type = ZBX_JSON_TYPE_STRING then 2 else 0)"

definition json_insstring :: "string option \<Rightarrow> json_type \<Rightarrow> string" where
  "json_insstring s type =
     (let quote = (if s \<noteq> None \<and> type = ZBX_JSON_TYPE_STRING then [CHR 0x22] else [])
      in quote @ concat (map json_escape (case s of Some t \<Rightarrow> t | None \<Rightarrow> ''null'')) @ quote)"

lemma json_escape_length: "length (json_escape c) = json_escape_size c"
  by (simp add: json_escape_def json_escape_size_def split: option.split)

lemma json_insstring_length: "length (json_insstring s type) = json_stringsize s type"
proof -
  have "length (concat (map json_escape t)) = sum_list (map json_escape_size t)" for t
    by (induction t) (simp_all add: json_escape_length)
  then show ?thesis by (simp add: json_insstring_def json_stringsize_def Let_def)
qed

subsection \<open>The operations\<close>

text \<open>\<open>memmove\<close> opens a gap of \<open>len\<close> bytes at the offset and \<open>text\<close> is written
  over it; the former bytes of the gap are given as zeros.\<close>

definition insert_text :: "json \<Rightarrow> nat \<Rightarrow> string \<Rightarrow> json" where
  "insert_text j len text0 =
     (let off = buffer_offset j; moved = take off (buffer j) @ replicate len (CHR 0x00) @ drop off (buffer j)
      in j\<lparr>buffer := take off moved @ text0 @ drop (off + length text0) moved,
           buffer_size := buffer_size j + len\<rparr>)"

definition json_addobject :: "bool \<Rightarrow> json \<Rightarrow> string option \<Rightarrow> json" where
  "json_addobject object j name =
     (let len = 2 + level j + (if level j \<noteq> 0 then 1 else 0) + (if status j = ZBX_JSON_COMMA then 1 else 0)
            + (if name \<noteq> None then json_stringsize name ZBX_JSON_TYPE_STRING + 1 else 0);
          j1 = json_realloc j (buffer_size j + len + 1);
          head = (if status j = ZBX_JSON_COMMA then '','' else [])
            @ (if level j \<noteq> 0 then [CHR 0x0A] else []) @ replicate (level j) (CHR 0x09)
            @ (if name \<noteq> None then json_insstring name ZBX_JSON_TYPE_STRING @ '':'' else []);
          j2 = insert_text j1 len (head @ (if object then ''{}'' else ''[]''))
      in j2\<lparr>buffer_offset := buffer_offset j + length head + 1, level := level j + 1, status := ZBX_JSON_EMPTY\<rparr>)"

definition zbx_json_addobject :: "json \<Rightarrow> string option \<Rightarrow> json" where
  "zbx_json_addobject j name = json_addobject True j name"

definition zbx_json_addarray :: "json \<Rightarrow> string option \<Rightarrow> json" where
  "zbx_json_addarray j name = json_addobject False j name"

definition zbx_json_addstring :: "json \<Rightarrow> string option \<Rightarrow> string option \<Rightarrow> json_type \<Rightarrow> json" where
  "zbx_json_addstring j name string0 type =
     (let len = (if status j = ZBX_JSON_COMMA then 1 else 0)
            + (if name \<noteq> None then json_stringsize name ZBX_JSON_TYPE_STRING + 1 + level j + 1 else 0)
            + json_stringsize string0 type;
          j1 = json_realloc j (buffer_size j + len + 1);
          text0 = (if status j = ZBX_JSON_COMMA then '','' else [])
            @ (if name \<noteq> None then CHR 0x0A # replicate (level j) (CHR 0x09) @ json_insstring name ZBX_JSON_TYPE_STRING @ '':'' else [])
            @ json_insstring string0 type;
          j2 = insert_text j1 len text0
      in j2\<lparr>buffer_offset := buffer_offset j + length text0, status := ZBX_JSON_COMMA\<rparr>)"

definition zbx_json_adduint64 :: "json \<Rightarrow> string option \<Rightarrow> u64 \<Rightarrow> json" where
  "zbx_json_adduint64 j name v = zbx_json_addstring j name (Some (show_u64 v)) ZBX_JSON_TYPE_INT"

definition zbx_json_close :: "json \<Rightarrow> zret \<times> json" where
  "zbx_json_close j =
     (if level j = 1 then (FAIL, j)
      else (SUCCEED, j\<lparr>level := level j - 1, buffer_offset := buffer_offset j + 1, status := ZBX_JSON_COMMA\<rparr>))"

definition zbx_json_clean :: "json \<Rightarrow> json" where
  "zbx_json_clean j =
     zbx_json_addobject (j\<lparr>buffer := [], buffer_offset := 0, buffer_size := 0, status := ZBX_JSON_EMPTY, level := 0\<rparr>) None"

definition zbx_json_init :: "nat \<Rightarrow> json" where
  "zbx_json_init allocate0 =
     zbx_json_addobject \<lparr>buffer = [], buffer_allocated = (if ZBX_JSON_STAT_BUF_LEN < allocate0 then allocate0 else ZBX_JSON_STAT_BUF_LEN),
        buffer_offset = 0, buffer_size = 0, status = ZBX_JSON_EMPTY, level = 0\<rparr> None"

subsection \<open>The document that is written\<close>

datatype jvalue =
    JString string | JNumber string | JNull | JArray "jvalue list" | JObject "(string \<times> jvalue) list"

text \<open>How the processes write a value: an operation for the node, its children, and
  \<open>zbx_json_close\<close>; the members of an object have names, the elements of an array none.\<close>

fun write_value :: "json \<Rightarrow> string option \<Rightarrow> jvalue \<Rightarrow> json"
  and write_items :: "json \<Rightarrow> jvalue list \<Rightarrow> json"
  and write_members :: "json \<Rightarrow> (string \<times> jvalue) list \<Rightarrow> json" where
  "write_value j name (JString s) = zbx_json_addstring j name (Some s) ZBX_JSON_TYPE_STRING"
| "write_value j name (JNumber s) = zbx_json_addstring j name (Some s) ZBX_JSON_TYPE_INT"
| "write_value j name JNull = zbx_json_addstring j name None ZBX_JSON_TYPE_STRING"
| "write_value j name (JArray vs) = snd (zbx_json_close (write_items (zbx_json_addarray j name) vs))"
| "write_value j name (JObject ms) = snd (zbx_json_close (write_members (zbx_json_addobject j name) ms))"
| "write_items j [] = j"
| "write_items j (v # vs) = write_items (write_value j None v) vs"
| "write_members j [] = j"
| "write_members j ((n, v) # ms) = write_members (write_value j (Some n) v) ms"

text \<open>The rendering: what stands before a value, the value, and the separated members.\<close>

definition json_tabs :: "nat \<Rightarrow> string" where
  "json_tabs l = (if l = 0 then [] else CHR 0x0A # replicate l (CHR 0x09))"

definition json_quoted :: "string \<Rightarrow> string" where
  "json_quoted s = CHR 0x22 # concat (map json_escape s) @ [CHR 0x22]"

fun is_scalar :: "jvalue \<Rightarrow> bool" where
  "is_scalar (JArray vs) = False"
| "is_scalar (JObject ms) = False"
| "is_scalar v = True"

definition json_lead :: "bool \<Rightarrow> nat \<Rightarrow> string option \<Rightarrow> jvalue \<Rightarrow> string" where
  "json_lead comma l name v =
     (if comma then '','' else [])
     @ (if name = None \<and> is_scalar v then [] else json_tabs l)
     @ (case name of None \<Rightarrow> [] | Some n \<Rightarrow> json_quoted n @ '':'')"

fun render :: "nat \<Rightarrow> jvalue \<Rightarrow> string"
  and render_items :: "nat \<Rightarrow> bool \<Rightarrow> jvalue list \<Rightarrow> string"
  and render_members :: "nat \<Rightarrow> bool \<Rightarrow> (string \<times> jvalue) list \<Rightarrow> string" where
  "render l (JString s) = json_quoted s"
| "render l (JNumber s) = concat (map json_escape s)"
| "render l JNull = ''null''"
| "render l (JArray vs) = ''['' @ render_items (Suc l) False vs @ '']''"
| "render l (JObject ms) = ''{'' @ render_members (Suc l) False ms @ ''}''"
| "render_items l comma [] = []"
| "render_items l comma (v # vs) = json_lead comma l None v @ render l v @ render_items l True vs"
| "render_members l comma [] = []"
| "render_members l comma ((n, v) # ms) = json_lead comma l (Some n) v @ render l v @ render_members l True ms"

text \<open>The writer between two operations: \<open>pre\<close> is written, \<open>post\<close> are the closing
  brackets, and text and terminator fit the allocation.\<close>

definition json_at :: "json \<Rightarrow> string \<Rightarrow> string \<Rightarrow> json_status \<Rightarrow> nat \<Rightarrow> bool" where
  "json_at j pre post st l \<longleftrightarrow>
     buffer j = pre @ post \<and> buffer_offset j = length pre \<and> buffer_size j = length (buffer j)
     \<and> buffer_size j < buffer_allocated j \<and> status j = st \<and> level j = l"

lemma json_grow_enough: "need \<le> json_grow need allocated \<and> allocated \<le> json_grow need allocated"
  by (induction need allocated rule: json_grow.induct) (subst (1 2) json_grow.simps, fastforce)

lemma json_realloc_simps [simp]:
  "buffer (json_realloc j n) = buffer j" "buffer_offset (json_realloc j n) = buffer_offset j"
  "buffer_size (json_realloc j n) = buffer_size j" "status (json_realloc j n) = status j"
  "level (json_realloc j n) = level j"
  by (simp_all add: json_realloc_def)

lemma insert_text_at:
  assumes "json_at j pre post st l" "length new = n"
  shows "insert_text (json_realloc j (buffer_size j + n + 1)) n new
    = j\<lparr>buffer := pre @ new @ post, buffer_size := length (pre @ new @ post),
        buffer_allocated := json_grow (buffer_size j + n + 1) (buffer_allocated j)\<rparr>"
  using assms by (simp add: insert_text_def json_at_def json_realloc_def Let_def)

lemma json_grow_fits: "n < json_grow (n + 1) a" "n + m < json_grow (n + m + 1) a"
  using json_grow_enough [of "n + 1" a] json_grow_enough [of "n + m + 1" a] by simp_all

lemma json_lead_length:
  "length (json_tabs l) = l + (if l \<noteq> 0 then 1 else 0)"
  "length (json_insstring (Some n) ZBX_JSON_TYPE_STRING) = json_stringsize (Some n) ZBX_JSON_TYPE_STRING"
  by (simp_all add: json_tabs_def json_insstring_length)

lemma insstring_quoted: "json_insstring (Some n) ZBX_JSON_TYPE_STRING = json_quoted n"
  by (simp add: json_insstring_def json_quoted_def)

lemma addobject_at:
  assumes "json_at j pre post st l"
  shows "json_at (json_addobject ob j name)
     (pre @ (if st = ZBX_JSON_COMMA then '','' else []) @ json_tabs l
       @ (case name of None \<Rightarrow> [] | Some n \<Rightarrow> json_quoted n @ '':'') @ (if ob then ''{'' else ''[''))
     ((if ob then ''}'' else '']'') @ post) ZBX_JSON_EMPTY (Suc l)"
proof -
  define head where "head = (if status j = ZBX_JSON_COMMA then '','' else [])
    @ (if level j \<noteq> 0 then [CHR 0x0A] else []) @ replicate (level j) (CHR 0x09)
    @ (if name \<noteq> None then json_insstring name ZBX_JSON_TYPE_STRING @ '':'' else [])"
  define len where "len = 2 + level j + (if level j \<noteq> 0 then 1 else 0) + (if status j = ZBX_JSON_COMMA then 1 else 0)
    + (if name \<noteq> None then json_stringsize name ZBX_JSON_TYPE_STRING + 1 else 0)"
  have size_new: "length (head @ (if ob then ''{}'' else ''[]'')) = len"
    by (simp add: head_def len_def json_insstring_length)
  have lead: "head = (if st = ZBX_JSON_COMMA then '','' else []) @ json_tabs l
    @ (case name of None \<Rightarrow> [] | Some n \<Rightarrow> json_quoted n @ '':'')"
    using assms by (auto simp: head_def json_at_def json_tabs_def insstring_quoted split: option.split)
  have result: "json_addobject ob j name
    = (insert_text (json_realloc j (buffer_size j + len + 1)) len (head @ (if ob then ''{}'' else ''[]'')))
        \<lparr>buffer_offset := buffer_offset j + length head + 1, level := level j + 1, status := ZBX_JSON_EMPTY\<rparr>"
    by (simp add: json_addobject_def head_def len_def Let_def)
  have "json_at (json_addobject ob j name) (pre @ head @ (if ob then ''{'' else ''['')) ((if ob then ''}'' else '']'') @ post) ZBX_JSON_EMPTY (Suc l)"
    using insert_text_at [OF assms size_new] assms size_new json_grow_fits(2) [of "buffer_size j" len "buffer_allocated j"]
    unfolding result by (auto simp: json_at_def split: if_splits)
  then show ?thesis by (simp only: lead append_assoc)
qed

lemma addstring_at:
  assumes "json_at j pre post st l" "l \<noteq> 0 \<or> name = None"
  shows "json_at (zbx_json_addstring j name s type)
     (pre @ (if st = ZBX_JSON_COMMA then '','' else []) @ (case name of None \<Rightarrow> [] | Some n \<Rightarrow> json_tabs l @ json_quoted n @ '':'')
       @ json_insstring s type) post ZBX_JSON_COMMA l"
proof -
  define new where "new = (if status j = ZBX_JSON_COMMA then '','' else [])
    @ (if name \<noteq> None then CHR 0x0A # replicate (level j) (CHR 0x09) @ json_insstring name ZBX_JSON_TYPE_STRING @ '':'' else [])
    @ json_insstring s type"
  define len where "len = (if status j = ZBX_JSON_COMMA then 1 else 0)
    + (if name \<noteq> None then json_stringsize name ZBX_JSON_TYPE_STRING + 1 + level j + 1 else 0) + json_stringsize s type"
  have size_new: "length new = len" by (simp add: new_def len_def json_insstring_length)
  have lead: "new = (if st = ZBX_JSON_COMMA then '','' else []) @ (case name of None \<Rightarrow> [] | Some n \<Rightarrow> json_tabs l @ json_quoted n @ '':'')
    @ json_insstring s type"
    using assms by (auto simp: new_def json_at_def json_tabs_def insstring_quoted split: option.split)
  have result: "zbx_json_addstring j name s type
    = (insert_text (json_realloc j (buffer_size j + len + 1)) len new)
        \<lparr>buffer_offset := buffer_offset j + length new, status := ZBX_JSON_COMMA\<rparr>"
    by (simp add: zbx_json_addstring_def new_def len_def Let_def)
  have "json_at (zbx_json_addstring j name s type) (pre @ new) post ZBX_JSON_COMMA l"
    using insert_text_at [OF assms(1) size_new] assms(1) size_new json_grow_fits(2) [of "buffer_size j" len "buffer_allocated j"]
    unfolding result by (auto simp: json_at_def)
  then show ?thesis by (simp only: lead append_assoc)
qed

lemma close_at:
  "json_at j pre (b # post) st (Suc l) \<Longrightarrow> l \<noteq> 0 \<Longrightarrow>
     fst (zbx_json_close j) = SUCCEED \<and> json_at (snd (zbx_json_close j)) (pre @ [b]) post ZBX_JSON_COMMA l"
  by (auto simp: json_at_def zbx_json_close_def)

lemma init_at:
  "json_at (zbx_json_init n) ''{'' ''}'' ZBX_JSON_EMPTY 1"
  "json_at j pre post st l \<Longrightarrow> json_at (zbx_json_clean j) ''{'' ''}'' ZBX_JSON_EMPTY 1"
proof -
  define j0 where "j0 = \<lparr>buffer = [], buffer_allocated = (if ZBX_JSON_STAT_BUF_LEN < n then n else ZBX_JSON_STAT_BUF_LEN),
     buffer_offset = 0, buffer_size = 0, status = ZBX_JSON_EMPTY, level = 0\<rparr>"
  have "json_at j0 [] [] ZBX_JSON_EMPTY 0" by (simp add: j0_def json_at_def ZBX_JSON_STAT_BUF_LEN_def)
  from addobject_at [OF this, of True None] show "json_at (zbx_json_init n) ''{'' ''}'' ZBX_JSON_EMPTY 1"
    by (simp add: zbx_json_init_def zbx_json_addobject_def j0_def json_tabs_def)
next
  assume "json_at j pre post st l"
  then have "json_at (j\<lparr>buffer := [], buffer_offset := 0, buffer_size := 0, status := ZBX_JSON_EMPTY, level := 0\<rparr>) [] [] ZBX_JSON_EMPTY 0"
    by (auto simp: json_at_def)
  from addobject_at [OF this, of True None] show "json_at (zbx_json_clean j) ''{'' ''}'' ZBX_JSON_EMPTY 1"
    by (simp add: zbx_json_clean_def zbx_json_addobject_def json_tabs_def)
qed

text \<open>Writing a value inserts its rendering and leaves everything else.\<close>

lemma write_at:
  "json_at j pre post st l \<Longrightarrow> l \<noteq> 0 \<Longrightarrow>
     json_at (write_value j name v) (pre @ json_lead (st = ZBX_JSON_COMMA) l name v @ render l v) post ZBX_JSON_COMMA l"
  "json_at j pre post st l \<Longrightarrow> l \<noteq> 0 \<Longrightarrow>
     json_at (write_items j vs) (pre @ render_items l (st = ZBX_JSON_COMMA) vs) post (if vs = [] then st else ZBX_JSON_COMMA) l"
  "json_at j pre post st l \<Longrightarrow> l \<noteq> 0 \<Longrightarrow>
     json_at (write_members j ms) (pre @ render_members l (st = ZBX_JSON_COMMA) ms) post (if ms = [] then st else ZBX_JSON_COMMA) l"
proof (induction j name v and j vs and j ms arbitrary: pre post st l and pre post st l and pre post st l rule: write_value_write_items_write_members.induct)
  case (1 j name s)
  from addstring_at [OF 1(1), of name "Some s" ZBX_JSON_TYPE_STRING] 1(2) show ?case
    by (simp add: json_lead_def insstring_quoted split: option.splits if_splits)
next
  case (2 j name s)
  from addstring_at [OF 2(1), of name "Some s" ZBX_JSON_TYPE_INT] 2(2) show ?case
    by (simp add: json_lead_def json_insstring_def split: option.splits if_splits)
next
  case (3 j name)
  have "concat (map json_escape ''null'') = ''null''" by code_simp
  with addstring_at [OF 3(1), of name None ZBX_JSON_TYPE_STRING] 3(2) show ?case
    by (simp add: json_lead_def json_insstring_def split: option.splits if_splits)
next
  case (4 j name vs)
  have "json_at (zbx_json_addarray j name) (pre @ json_lead (st = ZBX_JSON_COMMA) l name (JArray vs) @ ''['') ('']'' @ post) ZBX_JSON_EMPTY (Suc l)"
    using addobject_at [OF 4(2), of False name] by (simp add: zbx_json_addarray_def json_lead_def)
  from 4(1) [OF this] have w: "json_at (write_items (zbx_json_addarray j name) vs)
      (pre @ json_lead (st = ZBX_JSON_COMMA) l name (JArray vs) @ ''['' @ render_items (Suc l) False vs)
      (CHR '']'' # post) (if vs = [] then ZBX_JSON_EMPTY else ZBX_JSON_COMMA) (Suc l)" by simp
  from close_at [OF w 4(3)] show ?case by simp
next
  case (5 j name ms)
  have "json_at (zbx_json_addobject j name) (pre @ json_lead (st = ZBX_JSON_COMMA) l name (JObject ms) @ ''{'') (''}'' @ post) ZBX_JSON_EMPTY (Suc l)"
    using addobject_at [OF 5(2), of True name] by (simp add: zbx_json_addobject_def json_lead_def)
  from 5(1) [OF this] have w: "json_at (write_members (zbx_json_addobject j name) ms)
      (pre @ json_lead (st = ZBX_JSON_COMMA) l name (JObject ms) @ ''{'' @ render_members (Suc l) False ms)
      (CHR ''}'' # post) (if ms = [] then ZBX_JSON_EMPTY else ZBX_JSON_COMMA) (Suc l)" by simp
  from close_at [OF w 5(3)] show ?case by simp
next
  case (7 j v vs)
  from 7(2) [OF 7(1) [OF 7(3,4)] 7(4)] show ?case by (simp split: if_splits)
next
  case (9 j n v ms)
  from 9(2) [OF 9(1) [OF 9(3,4)] 9(4)] show ?case by (simp split: if_splits)
qed simp_all

subsection \<open>Documents\<close>

definition write_document :: "nat \<Rightarrow> (string \<times> jvalue) list \<Rightarrow> json" where
  "write_document allocate0 ms = write_members (zbx_json_init allocate0) ms"

lemma write_document_at:
  "json_at (write_document n ms) (''{'' @ render_members 1 False ms) ''}'' (if ms = [] then ZBX_JSON_EMPTY else ZBX_JSON_COMMA) 1"
  using write_at(3) [OF init_at(1) [of n], of ms] by (simp add: write_document_def)

lemma document_text: "buffer (write_document n ms) = render 0 (JObject ms)"
  using write_document_at [of n ms] by (simp add: json_at_def)

text \<open>C31: whatever the document, writing it member by member produces its rendering, complete with
  all closing brackets, inside the allocated buffer, on the top level, which cannot be closed.\<close>

theorem json_writer_renders:
  "buffer (write_document n ms) = render 0 (JObject ms)
   \<and> length (buffer (write_document n ms)) < buffer_allocated (write_document n ms)
   \<and> level (write_document n ms) = 1
   \<and> zbx_json_close (write_document n ms) = (FAIL, write_document n ms)"
  using write_document_at [of n ms] document_text [of n ms] by (simp add: json_at_def zbx_json_close_def)

end
