(* ===== verification/JsonReader.thy ===== *)
theory JsonReader
  imports JsonWriter ItemKey
begin

section \<open>Reading JSON\<close>

text \<open>
  The reader of \<open>libs/zbxjson/json.c\<close>.  A pointer into the text is the rest of the text from there
  on, so that \<open>p \<le> q\<close> compares lengths the other way round; NULL is \<open>NotFound\<close>
  or \<open>None\<close>.  \<open>Overrun\<close> marks the reads past the terminator that malformed texts
  cause.  A \<open>zbx_json_parse\<close> holds the pointers to the opening and the closing bracket.
\<close>

datatype 'a reading = Found 'a | NotFound | Overrun

record json_parse =
  jp_start :: string
  jp_end :: string

subsection \<open>Brackets\<close>

text \<open>\<open>in_string\<close> is the variable \<open>state\<close>.\<close>

fun rbracket_loop :: "char \<Rightarrow> int \<Rightarrow> bool \<Rightarrow> string \<Rightarrow> string reading" where
  "rbracket_loop rbracket lev in_string [] = NotFound"
| "rbracket_loop rbracket lev in_string (c # p) =
     (if c = CHR 0x22 then rbracket_loop rbracket lev (\<not> in_string) p
      else if c = CHR 0x5C then
        (if in_string then (case p of [] \<Rightarrow> Overrun | d # q \<Rightarrow> rbracket_loop rbracket lev in_string q)
         else rbracket_loop rbracket lev in_string p)
      else if c = CHR ''['' \<or> c = CHR ''{'' then
        rbracket_loop rbracket (if in_string then lev else lev + 1) in_string p
      else if c = CHR '']'' \<or> c = CHR ''}'' then
        (if in_string then rbracket_loop rbracket lev in_string p
         else if lev - 1 = 0 then (if rbracket = c then Found (c # p) else NotFound)
         else rbracket_loop rbracket (lev - 1) in_string p)
      else rbracket_loop rbracket lev in_string p)"

definition json_rbracket :: "string \<Rightarrow> string reading" where
  "json_rbracket p =
     (if p = [] \<or> hd p \<noteq> CHR ''{'' \<and> hd p \<noteq> CHR ''['' then NotFound
      else rbracket_loop (if hd p = CHR ''{'' then CHR ''}'' else CHR '']'') 0 False p)"

text \<open>\<open>zbx_json_open\<close> removes the tabs and newlines of the text in place; the pointers are
  into the text that is left.\<close>

definition strip_layout :: "string \<Rightarrow> string" where
  "strip_layout s = filter (\<lambda>c. c \<noteq> CHR 0x09 \<and> c \<noteq> CHR 0x0A) s"

definition zbx_json_open :: "string \<Rightarrow> json_parse reading" where
  "zbx_json_open text0 =
     (if text0 = [] \<or> hd text0 \<noteq> CHR ''{'' then NotFound
      else (let t = strip_layout text0
            in case json_rbracket t of
                 Found e \<Rightarrow> Found \<lparr>jp_start = t, jp_end = e\<rparr> | NotFound \<Rightarrow> NotFound | Overrun \<Rightarrow> Overrun))"

definition zbx_json_brackets_open :: "string \<Rightarrow> json_parse reading" where
  "zbx_json_brackets_open p =
     (case json_rbracket p of
        Found e \<Rightarrow> Found \<lparr>jp_start = p, jp_end = e\<rparr> | NotFound \<Rightarrow> NotFound | Overrun \<Rightarrow> Overrun)"

subsection \<open>Members\<close>

text \<open>The scan for the comma after which the next member starts; \<open>e\<close> is the length of the
  text from the closing bracket on.\<close>

fun next_loop :: "nat \<Rightarrow> int \<Rightarrow> bool \<Rightarrow> string \<Rightarrow> string option" where
  "next_loop e lev in_string [] = None"
| "next_loop e lev in_string (c # p) =
     (if length (c # p) < e then None
      else if c = CHR 0x22 then next_loop e lev (\<not> in_string) p
      else if c = CHR 0x5C then (if in_string then (case p of [] \<Rightarrow> None | d # q \<Rightarrow> next_loop e lev in_string q) else next_loop e lev in_string p)
      else if c = CHR ''['' \<or> c = CHR ''{'' then next_loop e (if in_string then lev else lev + 1) in_string p
      else if c = CHR '']'' \<or> c = CHR ''}'' then
        (if in_string then next_loop e lev in_string p else if lev = 0 then None else next_loop e (lev - 1) in_string p)
      else if c = CHR '','' \<and> \<not> in_string \<and> lev = 0 then Some p
      else next_loop e lev in_string p)"

definition zbx_json_next :: "json_parse \<Rightarrow> string option \<Rightarrow> string option" where
  "zbx_json_next jp p =
     (if length (jp_start jp) = length (jp_end jp) + 1 then None
      else case p of None \<Rightarrow> Some (tl (jp_start jp)) | Some q \<Rightarrow> next_loop (length (jp_end jp)) 0 False q)"

definition zbx_json_type :: "string \<Rightarrow> json_type" where
  "zbx_json_type p =
     (case p of [] \<Rightarrow> ZBX_JSON_TYPE_UNKNOWN
      | c # q \<Rightarrow>
        if c = CHR 0x22 then ZBX_JSON_TYPE_STRING
        else if is_digit c \<or> c = CHR ''-'' then ZBX_JSON_TYPE_INT
        else if c = CHR ''['' then ZBX_JSON_TYPE_ARRAY
        else if c = CHR ''{'' then ZBX_JSON_TYPE_OBJECT
        else if is_prefix ''null'' p then ZBX_JSON_TYPE_NULL
        else ZBX_JSON_TYPE_UNKNOWN)"

subsection \<open>Values\<close>

text \<open>The loop on a string; \<open>out\<close> are the bytes stored, \<open>len\<close> the size of the buffer,
  at least one.  The result is the bytes stored and the pointer after the closing quote.  After
  \<open>\u\<close> the code advances by two characters and then reads two: the second zero and the
  first digit.\<close>

fun decodestring_loop :: "nat \<Rightarrow> bool \<Rightarrow> string \<Rightarrow> string \<Rightarrow> (string \<times> string) reading" where
  "decodestring_loop len in_string out [] = NotFound"
| "decodestring_loop len in_string out (c # p) =
     (if c = CHR 0x22 then
        (if in_string then Found (out, p) else decodestring_loop len True out p)
      else if in_string \<and> length out < len - 1 then
        (if c = CHR 0x5C then
           (case p of
              [] \<Rightarrow> Overrun
            | d # q \<Rightarrow>
              if d = CHR 0x22 \<or> d = CHR 0x5C \<or> d = CHR ''/'' then decodestring_loop len in_string (out @ [d]) q
              else if d = CHR ''b'' then decodestring_loop len in_string (out @ [CHR 0x08]) q
              else if d = CHR ''f'' then decodestring_loop len in_string (out @ [CHR 0x0C]) q
              else if d = CHR ''n'' then decodestring_loop len in_string (out @ [CHR 0x0A]) q
              else if d = CHR ''r'' then decodestring_loop len in_string (out @ [CHR 0x0D]) q
              else if d = CHR ''t'' then decodestring_loop len in_string (out @ [CHR 0x09]) q
              else if d = CHR ''u'' then
                (case q of
                   x # y # z # r \<Rightarrow>
                     decodestring_loop len in_string (out @ [chr (push_bit 4 (zbx_hex2num y) + zbx_hex2num z)]) r
                 | _ \<Rightarrow> Overrun)
              else decodestring_loop len in_string out q)
         else decodestring_loop len in_string (out @ [c]) p)
      else decodestring_loop len in_string out p)"

definition json_decodestring :: "string \<Rightarrow> nat \<Rightarrow> (string \<times> string) reading" where
  "json_decodestring p len = (if p = [] \<or> hd p \<noteq> CHR 0x22 then NotFound else decodestring_loop len False [] p)"

fun decodeint_loop :: "nat \<Rightarrow> string \<Rightarrow> string \<Rightarrow> (string \<times> string) reading" where
  "decodeint_loop len out [] = NotFound"
| "decodeint_loop len out (c # p) =
     (if \<not> is_digit c \<and> c \<noteq> CHR ''-'' then Found (out, c # p)
      else decodeint_loop len (if length out < len - 1 then out @ [c] else out) p)"

definition zbx_json_decodevalue :: "string \<Rightarrow> nat \<Rightarrow> (string \<times> string) reading" where
  "zbx_json_decodevalue p len =
     (case zbx_json_type p of
        ZBX_JSON_TYPE_STRING \<Rightarrow> json_decodestring p len
      | ZBX_JSON_TYPE_INT \<Rightarrow> decodeint_loop len [] p
      | _ \<Rightarrow> NotFound)"

text \<open>The string a buffer holds ends at the first zero byte.\<close>

definition c_text :: "string \<Rightarrow> string" where
  "c_text s = takeWhile (\<lambda>c. c \<noteq> CHR 0x00) s"

definition zbx_json_next_value :: "json_parse \<Rightarrow> string option \<Rightarrow> nat \<Rightarrow> (string \<times> string) reading" where
  "zbx_json_next_value jp p len =
     (case zbx_json_next jp p of
        None \<Rightarrow> NotFound
      | Some q \<Rightarrow> (case zbx_json_decodevalue q len of Found (s, r) \<Rightarrow> Found (c_text s, q) | NotFound \<Rightarrow> NotFound | Overrun \<Rightarrow> Overrun))"

definition zbx_json_pair_next :: "json_parse \<Rightarrow> string option \<Rightarrow> nat \<Rightarrow> (string \<times> string) reading" where
  "zbx_json_pair_next jp p len =
     (case zbx_json_next jp p of
        None \<Rightarrow> NotFound
      | Some q \<Rightarrow>
        if zbx_json_type q \<noteq> ZBX_JSON_TYPE_STRING then NotFound
        else (case json_decodestring q len of
                Found (name, r) \<Rightarrow> if r \<noteq> [] \<and> hd r = CHR '':'' then Found (c_text name, tl r) else NotFound
              | NotFound \<Rightarrow> NotFound | Overrun \<Rightarrow> Overrun))"

lemma next_loop_shorter: "next_loop e lev in_string p = Some q \<Longrightarrow> length q < length p"
proof (induction "length p" arbitrary: p lev in_string rule: less_induct)
  case less
  have shorter: "next_loop e l b r = Some q \<Longrightarrow> length r < n \<Longrightarrow> n = length p \<Longrightarrow> length q < n" for l b r n
    using less.hyps [of r l b] by simp
  show ?case
    using less.prems by (cases p) (auto split: if_splits list.splits elim!: shorter)
qed

lemma decodestring_shorter: "decodestring_loop len in_string out p = Found (s, q) \<Longrightarrow> length q < length p"
proof (induction "length p" arbitrary: p in_string out rule: less_induct)
  case less
  have shorter: "decodestring_loop len b o' r = Found (s, q) \<Longrightarrow> length r < n \<Longrightarrow> n = length p \<Longrightarrow> length q < n" for b o' r n
    using less.hyps [of r b o'] by simp
  show ?case
    using less.prems by (cases p) (auto split: if_splits list.splits intro: shorter)
qed

lemma pair_next_shorter: "zbx_json_pair_next jp (Some p) len = Found (s, q) \<Longrightarrow> length q < length p"
  by (auto simp: zbx_json_pair_next_def zbx_json_next_def json_decodestring_def
      dest!: next_loop_shorter decodestring_shorter split: option.splits if_splits reading.splits)

text \<open>The search ends because every member found leaves a shorter rest.\<close>

function pair_search :: "json_parse \<Rightarrow> string \<Rightarrow> string \<Rightarrow> string reading" where
  "pair_search jp name p =
     (case zbx_json_pair_next jp (Some p) MAX_STRING_LEN of
        Found (n, q) \<Rightarrow> if name = n then Found q else pair_search jp name q
      | NotFound \<Rightarrow> NotFound | Overrun \<Rightarrow> Overrun)"
  by pat_completeness auto
termination
  by (relation "measure (\<lambda>(jp, name, p). length p)") (auto dest: pair_next_shorter)

declare pair_search.simps [simp del]

definition zbx_json_pair_by_name :: "json_parse \<Rightarrow> string \<Rightarrow> string reading" where
  "zbx_json_pair_by_name jp name =
     (case zbx_json_pair_next jp None MAX_STRING_LEN of
        Found (n, q) \<Rightarrow> if name = n then Found q else pair_search jp name q
      | NotFound \<Rightarrow> NotFound | Overrun \<Rightarrow> Overrun)"

definition zbx_json_value_by_name :: "json_parse \<Rightarrow> string \<Rightarrow> nat \<Rightarrow> string reading" where
  "zbx_json_value_by_name jp name len =
     (case zbx_json_pair_by_name jp name of
        Found p \<Rightarrow> (case zbx_json_decodevalue p len of Found (s, r) \<Rightarrow> Found (c_text s) | NotFound \<Rightarrow> NotFound | Overrun \<Rightarrow> Overrun)
      | NotFound \<Rightarrow> NotFound | Overrun \<Rightarrow> Overrun)"

definition zbx_json_brackets_by_name :: "json_parse \<Rightarrow> string \<Rightarrow> json_parse reading" where
  "zbx_json_brackets_by_name jp name =
     (case zbx_json_pair_by_name jp name of Found p \<Rightarrow> zbx_json_brackets_open p | NotFound \<Rightarrow> NotFound | Overrun \<Rightarrow> Overrun)"

subsection \<open>The text without layout\<close>

fun compact :: "jvalue \<Rightarrow> string"
  and compact_items :: "jvalue list \<Rightarrow> string"
  and compact_members :: "(string \<times> jvalue) list \<Rightarrow> string" where
  "compact (JString s) = json_quoted s"
| "compact (JNumber s) = s"
| "compact JNull = ''null''"
| "compact (JArray vs) = ''['' @ compact_items vs @ '']''"
| "compact (JObject ms) = ''{'' @ compact_members ms @ ''}''"
| "compact_items [] = []"
| "compact_items (v # vs) = compact v @ (if vs = [] then [] else '','' @ compact_items vs)"
| "compact_members [] = []"
| "compact_members ((n, v) # ms) = json_quoted n @ '':'' @ compact v @ (if ms = [] then [] else '','' @ compact_members ms)"

text \<open>Numbers are digits and minus signs, at least one.\<close>

definition number_text :: "string \<Rightarrow> bool" where
  "number_text s \<longleftrightarrow> s \<noteq> [] \<and> list_all (\<lambda>c. is_digit c \<or> c = CHR ''-'') s"

fun wf_value :: "jvalue \<Rightarrow> bool" where
  "wf_value (JString s) = True"
| "wf_value (JNumber s) = number_text s"
| "wf_value JNull = True"
| "wf_value (JArray vs) = (\<forall>v \<in> set vs. wf_value v)"
| "wf_value (JObject ms) = (\<forall>m \<in> set ms. wf_value (snd m))"

subsection \<open>What the scanners skip\<close>

lemma hex_digit_chars: "unat w < 16 \<Longrightarrow> zbx_num2hex w \<in> set ''0123456789abcdef''"
proof (rule small_words [where P = "\<lambda>w. zbx_num2hex w \<in> set ''0123456789abcdef''"])
  show "list_all (\<lambda>n. zbx_num2hex (word_of_nat n) \<in> set ''0123456789abcdef'') [0..<16]" by code_simp
qed

lemma json_escape_cases:
  obtains d where "short_escape c = Some d" "json_escape c = [CHR 0x5C, d]"
  | x y where "short_escape c = None" "byte c < 32" "json_escape c = [CHR 0x5C, CHR ''u'', CHR ''0'', CHR ''0'', x, y]"
      "x \<in> set ''0123456789abcdef''" "y \<in> set ''0123456789abcdef''"
  | "short_escape c = None" "32 \<le> byte c" "json_escape c = [c]" "c \<noteq> CHR 0x22" "c \<noteq> CHR 0x5C" "c \<noteq> CHR 0x09" "c \<noteq> CHR 0x0A"
proof (cases "short_escape c")
  case (Some d)
  then show ?thesis using that(1) by (simp add: json_escape_def)
next
  case None
  show ?thesis
  proof (cases "byte c < 32")
    case True
    then show ?thesis
      using that(2) None nibbles [of "byte c"] hex_digit_chars [of "drop_bit 4 (byte c) AND 0xF"] hex_digit_chars [of "byte c AND 0xF"]
      by (simp add: json_escape_def)
  next
    case False
    then show ?thesis using that(3) None by (auto simp: json_escape_def short_escape_def split: if_splits)
  qed
qed

text \<open>What the two scanners have in common: how they move over a character.  A closing
  bracket is skipped above the level \<open>low\<close>, a comma above \<open>comma_low\<close>; \<open>ok\<close> holds where the text is long enough.\<close>

locale json_scan =
  fixes scan :: "int \<Rightarrow> bool \<Rightarrow> string \<Rightarrow> 'r" and low comma_low :: int and ok :: "string \<Rightarrow> bool"
  assumes ok_Cons: "ok p \<Longrightarrow> ok (c # p)"
    and scan_quote: "ok p \<Longrightarrow> scan l b (CHR 0x22 # p) = scan l (\<not> b) p"
    and scan_escaped: "ok p \<Longrightarrow> scan l True (CHR 0x5C # d # p) = scan l True p"
    and scan_inside: "ok p \<Longrightarrow> c \<notin> {CHR 0x22, CHR 0x5C} \<Longrightarrow> scan l True (c # p) = scan l True p"
    and scan_open: "ok p \<Longrightarrow> c \<in> {CHR ''['', CHR ''{''} \<Longrightarrow> scan l False (c # p) = scan (l + 1) False p"
    and scan_close: "ok p \<Longrightarrow> c \<in> {CHR '']'', CHR ''}''} \<Longrightarrow> low < l \<Longrightarrow> scan l False (c # p) = scan (l - 1) False p"
    and scan_comma: "ok p \<Longrightarrow> comma_low < l \<Longrightarrow> scan l False (CHR '','' # p) = scan l False p"
    and scan_other: "ok p \<Longrightarrow> c \<notin> {CHR 0x22, CHR 0x5C, CHR ''['', CHR ''{'', CHR '']'', CHR ''}'', CHR '',''} \<Longrightarrow>
          scan l False (c # p) = scan l False p"
begin

lemma ok_append: "ok p \<Longrightarrow> ok (s @ p)"
  by (induction s) (simp_all add: ok_Cons)

lemma scan_escape: "ok p \<Longrightarrow> scan l True (json_escape c @ p) = scan l True p"
  by (cases rule: json_escape_cases [of c]) (auto simp: scan_escaped scan_inside ok_Cons)

lemma scan_quoted: "ok p \<Longrightarrow> scan l False (json_quoted s @ p) = scan l False p"
proof -
  assume p: "ok p"
  then have "scan l True (concat (map json_escape s) @ CHR 0x22 # p) = scan l False p"
    by (induction s) (simp_all add: scan_quote scan_escape ok_append ok_Cons)
  then show ?thesis using p by (simp add: json_quoted_def scan_quote ok_append ok_Cons)
qed

lemma scan_text: "ok p \<Longrightarrow> list_all (\<lambda>c. c \<notin> {CHR 0x22, CHR 0x5C, CHR ''['', CHR ''{'', CHR '']'', CHR ''}'', CHR '',''}) s \<Longrightarrow>
    scan l False (s @ p) = scan l False p"
  by (induction s) (simp_all add: scan_other ok_append)

lemma scan_number: "ok p \<Longrightarrow> number_text s \<Longrightarrow> scan l False (s @ p) = scan l False p"
  by (rule scan_text) (auto simp: number_text_def list_all_iff is_digit_def)

lemma scan_value:
  "wf_value v \<Longrightarrow> ok p \<Longrightarrow> low \<le> l \<Longrightarrow> comma_low \<le> l \<Longrightarrow> scan l False (compact v @ p) = scan l False p"
  "\<forall>v \<in> set vs. wf_value v \<Longrightarrow> ok p \<Longrightarrow> low \<le> l \<Longrightarrow> comma_low < l \<Longrightarrow> scan l False (compact_items vs @ p) = scan l False p"
  "\<forall>m \<in> set ms. wf_value (snd m) \<Longrightarrow> ok p \<Longrightarrow> low \<le> l \<Longrightarrow> comma_low < l \<Longrightarrow> scan l False (compact_members ms @ p) = scan l False p"
proof (induction v and vs and ms arbitrary: p l and p l and p l rule: compact_compact_items_compact_members.induct)
  case 3
  then show ?case using scan_text [of p "''null''" l] by simp
next
  case (4 vs)
  then show ?case by (simp add: scan_open scan_close ok_append ok_Cons)
next
  case (5 ms)
  then show ?case by (simp add: scan_open scan_close ok_append ok_Cons)
next
  case (7 v vs)
  then show ?case by (simp add: scan_comma ok_append ok_Cons)
next
  case (9 n v ms)
  then show ?case by (simp add: scan_quoted scan_comma scan_other ok_append ok_Cons)
qed (simp_all add: scan_quoted scan_number)

end

interpretation brackets: json_scan "\<lambda>l b p. rbracket_loop r l b p" 1 0 "\<lambda>p. True" for r
  by unfold_locales auto

interpretation commas: json_scan "\<lambda>l b p. next_loop e l b p" 0 0 "\<lambda>p. e \<le> length p" for e
  by unfold_locales auto

subsection \<open>Layout\<close>

lemma strip_append: "strip_layout (a @ b) = strip_layout a @ strip_layout b"
  by (simp add: strip_layout_def)

lemma strip_escape: "strip_layout (json_escape c) = json_escape c"
  by (cases rule: json_escape_cases [of c]) (auto simp: strip_layout_def short_escape_def split: if_splits)

lemma strip_quoted: "strip_layout (json_quoted s) = json_quoted s"
proof -
  have "strip_layout (concat (map json_escape s)) = concat (map json_escape s)"
    by (induction s) (simp_all add: strip_append strip_escape, simp add: strip_layout_def)
  then show ?thesis by (simp add: json_quoted_def strip_layout_def)
qed

lemma strip_tabs: "strip_layout (json_tabs l) = []"
  by (simp add: json_tabs_def strip_layout_def)

lemma number_char: "is_digit c \<or> c = CHR ''-'' \<Longrightarrow> json_escape c = [c] \<and> c \<noteq> CHR 0x09 \<and> c \<noteq> CHR 0x0A"
proof -
  have "list_all (\<lambda>c. json_escape c = [c] \<and> c \<noteq> CHR 0x09 \<and> c \<noteq> CHR 0x0A) ''0123456789''" by code_simp
  moreover have "json_escape CHR ''-'' = ''-''" by code_simp
  moreover have "is_digit c \<Longrightarrow> c \<in> set ''0123456789''"
  proof -
    assume "is_digit c"
    then have "(of_char c :: nat) \<in> set [48..<58]" unfolding is_digit_iff set_upt by auto
    then have "char_of (of_char c :: nat) \<in> char_of ` set [48..<58]" by (rule imageI)
    also have "char_of ` set [48..<58] = set ''0123456789''" by code_simp
    finally show ?thesis by simp
  qed
  ultimately show "is_digit c \<or> c = CHR ''-'' \<Longrightarrow> ?thesis" unfolding list_all_iff by auto
qed

lemma number_render: "number_text s \<Longrightarrow> strip_layout (concat (map json_escape s)) = s"
proof -
  have "list_all (\<lambda>c. is_digit c \<or> c = CHR ''-'') s \<Longrightarrow> strip_layout (concat (map json_escape s)) = s"
    by (induction s) (simp_all add: strip_append number_char, simp_all add: strip_layout_def number_char)
  then show "number_text s \<Longrightarrow> strip_layout (concat (map json_escape s)) = s" by (simp add: number_text_def)
qed

lemma strip_lead:
  "strip_layout (json_lead comma l name v) = (if comma then '','' else []) @ (case name of None \<Rightarrow> [] | Some n \<Rightarrow> json_quoted n @ '':'')"
  by (simp add: json_lead_def strip_append strip_tabs strip_quoted split: option.split) (simp add: strip_layout_def)

lemma strip_render:
  "wf_value v \<Longrightarrow> strip_layout (render l v) = compact v"
  "\<forall>v \<in> set vs. wf_value v \<Longrightarrow> strip_layout (render_items l comma vs) = (if comma \<and> vs \<noteq> [] then '','' else []) @ compact_items vs"
  "\<forall>m \<in> set ms. wf_value (snd m) \<Longrightarrow> strip_layout (render_members l comma ms) = (if comma \<and> ms \<noteq> [] then '','' else []) @ compact_members ms"
proof (induction l v and l comma vs and l comma ms rule: render_render_items_render_members.induct)
qed (simp_all add: strip_append strip_quoted strip_lead number_render, simp_all add: strip_layout_def)

subsection \<open>Reading back what was written\<close>

text \<open>A pair of pointers to the brackets of a value.\<close>

definition json_view :: "json_parse \<Rightarrow> jvalue \<Rightarrow> bool" where
  "json_view jp v \<longleftrightarrow> \<not> is_scalar v \<and> (\<exists>rest. jp_start jp = compact v @ rest \<and> jp_end jp = last (compact v) # rest)"

lemma rbracket_value:
  assumes "wf_value v" "\<not> is_scalar v"
  shows "json_rbracket (compact v @ rest) = Found (last (compact v) # rest)"
proof (cases v)
  case (JArray vs)
  have "rbracket_loop CHR '']'' 1 False (compact_items vs @ CHR '']'' # rest) = Found (CHR '']'' # rest)"
    using assms JArray by (simp add: brackets.scan_value)
  then show ?thesis by (simp add: json_rbracket_def JArray)
next
  case (JObject ms)
  have "rbracket_loop CHR ''}'' 1 False (compact_members ms @ CHR ''}'' # rest) = Found (CHR ''}'' # rest)"
    using assms JObject by (simp add: brackets.scan_value)
  then show ?thesis by (simp add: json_rbracket_def JObject)
qed (use assms in simp_all)

lemma brackets_open_view:
  assumes "wf_value v" "\<not> is_scalar v"
  shows "\<exists>jp. zbx_json_brackets_open (compact v @ rest) = Found jp \<and> json_view jp v"
  using assms by (auto simp: zbx_json_brackets_open_def rbracket_value json_view_def)

lemma json_open_view:
  assumes "wf_value (JObject ms)"
  shows "\<exists>jp. zbx_json_open (render 0 (JObject ms)) = Found jp \<and> json_view jp (JObject ms)"
proof -
  have "json_rbracket (compact (JObject ms)) = Found [last (compact (JObject ms))]"
    using rbracket_value [OF assms, of "[]"] by simp
  moreover have "render 0 (JObject ms) \<noteq> [] \<and> hd (render 0 (JObject ms)) = CHR ''{''" by simp
  ultimately have "zbx_json_open (render 0 (JObject ms)) = Found \<lparr>jp_start = compact (JObject ms), jp_end = [last (compact (JObject ms))]\<rparr>"
    using strip_render(1) [OF assms, of 0] by (simp only: zbx_json_open_def Let_def reading.case if_False) simp
  moreover have "json_view \<lparr>jp_start = compact (JObject ms), jp_end = [last (compact (JObject ms))]\<rparr> (JObject ms)"
    unfolding json_view_def by (simp del: compact.simps)
  ultimately show ?thesis by blast
qed

text \<open>Text that the reader decodes as it was: of the control characters only those with a short
  escape.\<close>

definition json_text :: "string \<Rightarrow> bool" where
  "json_text s \<longleftrightarrow> list_all (\<lambda>c. short_escape c \<noteq> None \<or> 32 \<le> byte c) s"

lemma json_text_simps [simp]: "json_text []" "json_text (c # s) \<longleftrightarrow> (short_escape c \<noteq> None \<or> 32 \<le> byte c) \<and> json_text s"
  by (simp_all add: json_text_def)

lemma c_text_json_text: "json_text s \<Longrightarrow> c_text s = s"
proof (induction s)
  case (Cons c s)
  have "short_escape CHR 0x00 = None \<and> \<not> 32 \<le> byte CHR 0x00" by code_simp
  with Cons.prems have "c \<noteq> CHR 0x00" by (metis json_text_simps(2))
  with Cons show ?case by (simp add: c_text_def)
qed (simp add: c_text_def)

lemma decode_full:
  "CHR 0x22 \<in> set p \<Longrightarrow> len - 1 \<le> length out \<Longrightarrow> \<exists>r. decodestring_loop len True out p = Found (out, r)"
  by (induction p) auto

lemma decode_escaped:
  assumes "short_escape c \<noteq> None \<or> 32 \<le> byte c" "length out < len - 1"
  shows "decodestring_loop len True out (json_escape c @ p) = decodestring_loop len True (out @ [c]) p"
proof (cases rule: json_escape_cases [of c])
  case (1 d)
  then show ?thesis using assms(2) by (auto simp: short_escape_def split: if_splits)
qed (use assms in \<open>simp_all add: not_le [symmetric]\<close>)

lemma decode_string_loop:
  assumes "json_text s" "length out \<le> len - 1"
  shows "\<exists>r. decodestring_loop len True out (concat (map json_escape s) @ CHR 0x22 # rest) = Found (take (len - 1) (out @ s), r)
    \<and> (length (out @ s) \<le> len - 1 \<longrightarrow> r = rest)"
  using assms
proof (induction s arbitrary: out)
  case (Cons c s)
  show ?case
  proof (cases "length out < len - 1")
    case True
    then show ?thesis
      using Cons.IH [of "out @ [c]"] Cons.prems decode_escaped [of c out len] by simp
  next
    case False
    then have "length out = len - 1" using Cons.prems by simp
    then show ?thesis
      using decode_full [of "concat (map json_escape (c # s)) @ CHR 0x22 # rest" len out] by auto
  qed
qed simp

lemma decode_quoted:
  assumes "json_text s"
  shows "\<exists>r. json_decodestring (json_quoted s @ rest) len = Found (take (len - 1) s, r) \<and> (length s \<le> len - 1 \<longrightarrow> r = rest)"
  using decode_string_loop [OF assms, of "[]" len rest] by (simp add: json_decodestring_def json_quoted_def)

text \<open>What may follow a value.\<close>

definition ends_value :: "string \<Rightarrow> bool" where
  "ends_value t \<longleftrightarrow> t \<noteq> [] \<and> hd t \<in> {CHR '','', CHR ''}'', CHR '']''}"

lemma decode_number:
  assumes "list_all (\<lambda>c. is_digit c \<or> c = CHR ''-'') s" "ends_value t" "length out \<le> len - 1"
  shows "decodeint_loop len out (s @ t) = Found (take (len - 1) (out @ s), t)"
  using assms(1,3)
proof (induction s arbitrary: out)
  case Nil
  then show ?case using assms(2) by (cases t) (auto simp: ends_value_def is_digit_def)
qed (auto simp: take_Cons')

definition scalar_text :: "jvalue \<Rightarrow> string option" where
  "scalar_text v = (case v of JString s \<Rightarrow> Some s | JNumber s \<Rightarrow> Some s | _ \<Rightarrow> None)"

fun readable_value :: "jvalue \<Rightarrow> bool" where
  "readable_value (JString s) = json_text s"
| "readable_value (JNumber s) = number_text s"
| "readable_value v = True"

lemma number_text_first: "number_text s \<Longrightarrow> \<exists>c r. s = c # r \<and> (is_digit c \<or> c = CHR ''-'')"
  by (cases s) (auto simp: number_text_def)

lemma number_json_text: "number_text s \<Longrightarrow> json_text s"
proof -
  have "is_digit c \<or> c = CHR ''-'' \<Longrightarrow> 32 \<le> byte c" for c
    using number_char [of c] by (cases rule: json_escape_cases [of c]) simp_all
  then show "number_text s \<Longrightarrow> json_text s" unfolding number_text_def json_text_def list_all_iff by blast
qed

lemma c_text_take: "json_text s \<Longrightarrow> c_text (take n s) = take n s"
proof (rule c_text_json_text)
  show "json_text s \<Longrightarrow> json_text (take n s)" unfolding json_text_def list_all_iff using set_take_subset [of n s] by blast
qed

lemma decode_scalar:
  assumes "readable_value v" "ends_value t"
  shows "case scalar_text v of
      Some s \<Rightarrow> \<exists>s' r. zbx_json_decodevalue (compact v @ t) len = Found (s', r) \<and> c_text s' = take (len - 1) s
    | None \<Rightarrow> zbx_json_decodevalue (compact v @ t) len = NotFound"
proof (cases v)
  case (JString s)
  then have "zbx_json_type (compact v @ t) = ZBX_JSON_TYPE_STRING" by (simp add: zbx_json_type_def json_quoted_def)
  then show ?thesis
    using JString assms decode_quoted [of s t len] c_text_take [of s] by (auto simp: zbx_json_decodevalue_def scalar_text_def)
next
  case (JNumber s)
  then obtain c r where s: "s = c # r" "is_digit c \<or> c = CHR ''-''" using number_text_first [of s] assms by auto
  then have "zbx_json_type (compact v @ t) = ZBX_JSON_TYPE_INT" using JNumber by (auto simp: zbx_json_type_def is_digit_def)
  then show ?thesis
    using c_text_take [OF number_json_text [of s]] JNumber assms decode_number [of s t "[]" len] by (auto simp: zbx_json_decodevalue_def scalar_text_def number_text_def)
qed (simp_all add: zbx_json_decodevalue_def zbx_json_type_def scalar_text_def is_digit_def)

subsection \<open>Finding a member\<close>

text \<open>The name of a member decodes to itself and leaves the pointer at the colon.\<close>

definition good_names :: "(string \<times> jvalue) list \<Rightarrow> bool" where
  "good_names ms \<longleftrightarrow> (\<forall>m \<in> set ms. json_text (fst m) \<and> length (fst m) < MAX_STRING_LEN)"

text \<open>The text from a member on, before the closing brace and what follows it.\<close>

abbreviation members_from :: "(string \<times> jvalue) list \<Rightarrow> string \<Rightarrow> string" where
  "members_from ms rest \<equiv> compact_members ms @ CHR ''}'' # rest"

definition after_value :: "(string \<times> jvalue) list \<Rightarrow> string \<Rightarrow> string" where
  "after_value ms rest = (if ms = [] then CHR ''}'' # rest else CHR '','' # members_from ms rest)"

lemma ends_after: "ends_value (after_value ms rest)"
  by (simp add: after_value_def ends_value_def)

lemma members_from_Cons:
  "members_from ((n, v) # ms) rest = json_quoted n @ CHR '':'' # compact v @ after_value ms rest"
  by (simp add: after_value_def)

lemma next_after_value:
  assumes "wf_value v"
  shows "next_loop (Suc (length rest)) 0 False (compact v @ after_value ms rest)
    = (if ms = [] then None else Some (members_from ms rest))"
  using assms by (simp add: commas.scan_value after_value_def)

lemma read_member_name:
  assumes "json_text n" "length n < MAX_STRING_LEN"
  shows "zbx_json_type (members_from ((n, v) # ms) rest) = ZBX_JSON_TYPE_STRING"
    "json_decodestring (members_from ((n, v) # ms) rest) MAX_STRING_LEN = Found (n, CHR '':'' # compact v @ after_value ms rest)"
proof -
  show "zbx_json_type (members_from ((n, v) # ms) rest) = ZBX_JSON_TYPE_STRING"
    by (simp add: zbx_json_type_def json_quoted_def)
  show "json_decodestring (members_from ((n, v) # ms) rest) MAX_STRING_LEN = Found (n, CHR '':'' # compact v @ after_value ms rest)"
    using decode_quoted [OF assms(1), of "CHR '':'' # compact v @ after_value ms rest" MAX_STRING_LEN] assms(2)
    unfolding members_from_Cons by auto
qed

text \<open>What a search ends with: the value of the first member of that name.\<close>

definition finds :: "string reading \<Rightarrow> (string \<times> jvalue) list \<Rightarrow> string \<Rightarrow> bool" where
  "finds r ms name \<longleftrightarrow>
     (case map_of ms name of None \<Rightarrow> r = NotFound | Some v \<Rightarrow> (\<exists>t. r = Found (compact v @ t) \<and> ends_value t))"

lemma pair_next_member:
  assumes "good_names ((n, v) # ms)" "zbx_json_next jp q = Some (members_from ((n, v) # ms) rest)"
  shows "zbx_json_pair_next jp q MAX_STRING_LEN = Found (n, compact v @ after_value ms rest)"
  using assms read_member_name [of n v ms rest] c_text_json_text [of n]
  by (simp add: zbx_json_pair_next_def good_names_def del: compact_members.simps)

lemma pair_search_finds:
  assumes "length (jp_start jp) \<noteq> length (jp_end jp) + 1" "length (jp_end jp) = Suc (length rest)"
    and "wf_value v" "\<forall>m \<in> set ms. wf_value (snd m)" "good_names ms"
  shows "finds (pair_search jp name (compact v @ after_value ms rest)) ms name"
  using assms(3-5)
proof (induction ms arbitrary: v)
  case Nil
  then have "zbx_json_next jp (Some (compact v @ after_value [] rest)) = None"
    using next_after_value [of v rest "[]"] assms(1,2) by (simp add: zbx_json_next_def)
  then show ?case by (simp add: finds_def pair_search.simps zbx_json_pair_next_def)
next
  case (Cons m ms)
  obtain n w where m: "m = (n, w)" by (cases m)
  have "zbx_json_next jp (Some (compact v @ after_value (m # ms) rest)) = Some (members_from (m # ms) rest)"
    using next_after_value [of v rest "m # ms"] Cons.prems(1) assms(1,2) by (simp add: zbx_json_next_def)
  from pair_next_member [OF Cons.prems(3) [unfolded m] this [unfolded m]]
  have s: "pair_search jp name (compact v @ after_value (m # ms) rest)
      = (if name = n then Found (compact w @ after_value ms rest) else pair_search jp name (compact w @ after_value ms rest))"
    by (simp add: m pair_search.simps [of jp name "compact v @ _"])
  have "finds (pair_search jp name (compact w @ after_value ms rest)) ms name"
    using Cons.IH [of w] Cons.prems by (simp add: m good_names_def)
  then show ?case using ends_after [of ms rest] unfolding s by (auto simp: m finds_def)
qed

lemma compact_nonempty: "wf_value v \<Longrightarrow> compact v \<noteq> []"
  by (cases v) (auto simp: json_quoted_def number_text_def)

lemma view_object:
  assumes "json_view jp (JObject ms)"
  obtains rest where "jp_start jp = CHR ''{'' # members_from ms rest" "jp_end jp = CHR ''}'' # rest"
    "length (jp_start jp) = length (jp_end jp) + 1 \<longleftrightarrow> ms = []"
proof -
  obtain rest where r: "jp_start jp = CHR ''{'' # members_from ms rest" "jp_end jp = CHR ''}'' # rest"
    using assms by (auto simp: json_view_def)
  moreover have "length (jp_start jp) = length (jp_end jp) + 1 \<longleftrightarrow> ms = []"
    using r by (cases ms) (auto simp: json_quoted_def)
  ultimately show ?thesis by (rule that)
qed

lemma pair_by_name_finds:
  assumes "json_view jp (JObject ms)" "wf_value (JObject ms)" "good_names ms"
  shows "finds (zbx_json_pair_by_name jp name) ms name"
proof (cases rule: view_object [OF assms(1)])
  case (1 rest)
  show ?thesis
  proof (cases ms)
    case Nil
    then show ?thesis
      using 1 by (simp add: finds_def zbx_json_pair_by_name_def zbx_json_pair_next_def zbx_json_next_def)
  next
    case (Cons m ms')
    obtain n v where m: "m = (n, v)" by (cases m)
    have "zbx_json_next jp None = Some (members_from ((n, v) # ms') rest)" using 1 Cons m by (simp add: zbx_json_next_def)
    from pair_next_member [OF assms(3) [unfolded Cons m] this]
    have s: "zbx_json_pair_by_name jp name
        = (if name = n then Found (compact v @ after_value ms' rest) else pair_search jp name (compact v @ after_value ms' rest))"
      by (simp add: zbx_json_pair_by_name_def)
    have "finds (pair_search jp name (compact v @ after_value ms' rest)) ms' name"
      using 1 Cons m assms(2,3) by (intro pair_search_finds) (auto simp: good_names_def)
    then show ?thesis using ends_after [of ms' rest] by (auto simp: s Cons m finds_def)
  qed
qed

text \<open>Walking over an array, as the loops on \<open>zbx_json_next\<close> do: the pointers they
  visit.\<close>

function json_walk :: "json_parse \<Rightarrow> string option \<Rightarrow> string list" where
  "json_walk jp p = (case zbx_json_next jp p of None \<Rightarrow> [] | Some q \<Rightarrow> q # json_walk jp (Some q))"
  by pat_completeness auto
termination
  by (relation "measure (\<lambda>(jp, p). case p of None \<Rightarrow> Suc (length (jp_start jp)) | Some q \<Rightarrow> length q)")
    (auto simp: zbx_json_next_def dest!: next_loop_shorter split: if_splits option.splits)

declare json_walk.simps [simp del]

definition after_item :: "jvalue list \<Rightarrow> string \<Rightarrow> string" where
  "after_item vs rest = (if vs = [] then CHR '']'' # rest else CHR '','' # compact_items vs @ CHR '']'' # rest)"

lemma items_from_Cons: "compact_items (v # vs) @ CHR '']'' # rest = compact v @ after_item vs rest"
  by (simp add: after_item_def)

lemma walk_items:
  assumes "length (jp_start jp) \<noteq> length (jp_end jp) + 1" "length (jp_end jp) = Suc (length rest)"
    and "\<forall>v \<in> set vs. wf_value v" "wf_value v"
  shows "list_all2 (\<lambda>p w. \<exists>t. p = compact w @ t \<and> ends_value t) (json_walk jp (Some (compact v @ after_item vs rest))) vs"
  using assms(3,4)
proof (induction vs arbitrary: v)
  case Nil
  then have "zbx_json_next jp (Some (compact v @ after_item [] rest)) = None"
    using assms(1,2) by (simp add: zbx_json_next_def commas.scan_value after_item_def)
  then show ?case by (simp add: json_walk.simps)
next
  case (Cons w vs)
  then have "zbx_json_next jp (Some (compact v @ after_item (w # vs) rest)) = Some (compact w @ after_item vs rest)"
    using assms(1,2) by (simp add: zbx_json_next_def commas.scan_value after_item_def)
  moreover have "ends_value (after_item vs rest)" by (simp add: after_item_def ends_value_def)
  ultimately show ?case using Cons.IH [of w] Cons.prems by (subst json_walk.simps) auto
qed

lemma json_walk_array:
  assumes "json_view jp (JArray vs)" "wf_value (JArray vs)"
  shows "list_all2 (\<lambda>p w. \<exists>t. p = compact w @ t \<and> ends_value t) (json_walk jp None) vs"
proof -
  obtain rest where r: "jp_start jp = CHR ''['' # compact_items vs @ CHR '']'' # rest" "jp_end jp = CHR '']'' # rest"
    using assms(1) by (auto simp: json_view_def)
  show ?thesis
  proof (cases vs)
    case Nil
    then show ?thesis using r by (simp add: json_walk.simps zbx_json_next_def)
  next
    case (Cons v vs')
    have start: "jp_start jp = CHR ''['' # compact v @ after_item vs' rest" using r by (simp add: Cons after_item_def)
    have ne: "length (jp_start jp) \<noteq> length (jp_end jp) + 1"
      using start r(2) compact_nonempty [of v] assms(2) by (auto simp: Cons after_item_def)
    have "ends_value (after_item vs' rest)" by (simp add: after_item_def ends_value_def)
    moreover have "list_all2 (\<lambda>p w. \<exists>t. p = compact w @ t \<and> ends_value t) (json_walk jp (Some (compact v @ after_item vs' rest))) vs'"
      using assms(2) r(2) by (intro walk_items [OF ne]) (auto simp: Cons)
    ultimately show ?thesis using ne start by (subst json_walk.simps) (auto simp: Cons zbx_json_next_def)
  qed
qed

text \<open>C30: a document that is written, sent and opened gives back every member: for a scalar the
  text that was written, cut to the size of the caller's buffer; for an array or object pointers to its
  brackets; for a name that was not written, an error.  Names are shorter than the reader's buffer,
  and control characters other than backspace, form feed, newline, return and tab are excluded.\<close>

theorem json_roundtrip:
  assumes "wf_value (JObject ms)" "good_names ms" "\<forall>m \<in> set ms. readable_value (snd m)"
  shows "\<exists>jp. zbx_json_open (buffer (write_document n ms)) = Found jp
    \<and> (\<forall>name len. zbx_json_value_by_name jp name len =
         (case map_of ms name of
            None \<Rightarrow> NotFound
          | Some v \<Rightarrow> (case scalar_text v of None \<Rightarrow> NotFound | Some s \<Rightarrow> Found (take (len - 1) s))))
    \<and> (\<forall>name v. map_of ms name = Some v \<and> \<not> is_scalar v \<longrightarrow>
         (\<exists>jp'. zbx_json_brackets_by_name jp name = Found jp' \<and> json_view jp' v))"
proof -
  obtain jp where jp: "zbx_json_open (buffer (write_document n ms)) = Found jp" "json_view jp (JObject ms)"
    using json_open_view [OF assms(1)] by (auto simp: document_text)
  have f: "finds (zbx_json_pair_by_name jp name) ms name" for name
    by (rule pair_by_name_finds [OF jp(2) assms(1,2)])
  have "zbx_json_value_by_name jp name len =
      (case map_of ms name of None \<Rightarrow> NotFound
       | Some v \<Rightarrow> (case scalar_text v of None \<Rightarrow> NotFound | Some s \<Rightarrow> Found (take (len - 1) s)))" for name len
  proof (cases "map_of ms name")
    case (Some v)
    then obtain t where t: "zbx_json_pair_by_name jp name = Found (compact v @ t)" "ends_value t"
      using f [of name] by (auto simp: finds_def)
    have "readable_value v" using assms(3) map_of_SomeD [OF Some] by auto
    from decode_scalar [OF this t(2), of len] show ?thesis
      by (auto simp: zbx_json_value_by_name_def Some t(1) split: option.splits)
  qed (use f [of name] in \<open>simp add: finds_def zbx_json_value_by_name_def\<close>)
  moreover have "\<exists>jp'. zbx_json_brackets_by_name jp name = Found jp' \<and> json_view jp' v"
    if "map_of ms name = Some v" "\<not> is_scalar v" for name v
    using f [of name] that assms(1) map_of_SomeD [OF that(1)] brackets_open_view [of v]
    by (fastforce simp: finds_def zbx_json_brackets_by_name_def)
  ultimately show ?thesis using jp(1) by blast
qed

theorem json_roundtrip_witness:
  "\<exists>jp. zbx_json_open (buffer (write_document 0 [(''request'', JString ''a/b{''), (''clock'', JNumber ''-5''), (''data'', JArray [JNull])])) = Found jp
    \<and> zbx_json_value_by_name jp ''request'' 100 = Found ''a/b{'' \<and> zbx_json_value_by_name jp ''clock'' 2 = Found ''-''
    \<and> zbx_json_value_by_name jp ''missing'' 100 = NotFound
    \<and> (\<exists>jp'. zbx_json_brackets_by_name jp ''data'' = Found jp' \<and> json_view jp' (JArray [JNull]))"
proof -
  let ?ms = "[(''request'', JString ''a/b{''), (''clock'', JNumber ''-5''), (''data'', JArray [JNull])]"
  have "wf_value (JObject ?ms)" by (simp add: number_text_def is_digit_def)
  moreover have "good_names ?ms" "\<forall>m \<in> set ?ms. readable_value (snd m)" by code_simp+
  ultimately show ?thesis
    using json_roundtrip [of ?ms 0] by (fastforce simp: scalar_text_def)
qed

text \<open>The loop on \<open>zbx_json_next\<close> over a written array visits its elements one by one,
  in order, and each pointer stands at the text of its element.\<close>

theorem json_array_elements:
  assumes "json_view jp (JArray vs)" "wf_value (JArray vs)"
  shows "list_all2 (\<lambda>p v. \<exists>t. p = compact v @ t \<and> ends_value t) (json_walk jp None) vs"
  by (rule json_walk_array [OF assms])

theorem json_array_elements_witness:
  "list_all2 (\<lambda>p v. \<exists>t. p = compact v @ t \<and> ends_value t)
     (json_walk \<lparr>jp_start = ''[1,[2,3]]'', jp_end = '']''\<rparr> None) [JNumber ''1'', JArray [JNumber ''2'', JNumber ''3'']]"
  by (rule json_array_elements) (simp_all add: json_view_def number_text_def is_digit_def)

subsection \<open>What goes wrong\<close>

text \<open>A control character without a short escape is written as \<open>u00\<close> and two digits, but
  the reader takes the second zero and the first digit for it and leaves the last digit in the text: byte
  31 comes back as byte 1 followed by the letter f.\<close>

lemma control_character_mangled:
  "zbx_json_decodevalue (json_quoted [CHR 0x1F] @ '','') 10 = Found ([CHR 0x01, CHR ''f''], '','')"
  by code_simp

text \<open>An opened text that ends inside an escape takes the reader past its terminator.\<close>

lemma open_overrun: "zbx_json_open [CHR ''{'', CHR 0x22, CHR 0x5C] = Overrun"
  by code_simp

text \<open>When the caller's buffer is full the reader no longer looks at escapes: the pointer that is
  returned after a member name of that length is not behind the name.\<close>

lemma long_name_lost: "json_decodestring (json_quoted [CHR ''a'', CHR 0x22] @ '':1'') 2 = Found (''a'', [CHR 0x22, CHR '':'', CHR ''1''])"
  by code_simp

end
