(* ===== verification/Services.thy ===== *)
theory Services
  imports TriggerValue
begin

section \<open>IT services\<close>

text \<open>
  The status of the IT services (\<open>libs/zbxdbhigh/host.c\<close>, with the alarms of
  \<open>libs/zbxdbhigh/db.c\<close>): a service takes its status from a trigger or, by its algorithm, from
  the services below it.  A change is carried upwards by a recursion over \<open>services_links\<close>, which
  is given a depth; it returns for some depth when the links have no cycle.  \<open>problem\<close> is the query
  for the priority of an enabled trigger with value TRUE, \<open>fresh\<close> the id \<open>DBget_maxid\<close>
  gives out for \<open>service_alarms\<close>.
\<close>

definition SERVICE_ALGORITHM_NONE :: int where "SERVICE_ALGORITHM_NONE = 0"
definition SERVICE_ALGORITHM_MAX :: int where "SERVICE_ALGORITHM_MAX = 1"
definition SERVICE_ALGORITHM_MIN :: int where "SERVICE_ALGORITHM_MIN = 2"

lemmas service_algorithms = SERVICE_ALGORITHM_NONE_def SERVICE_ALGORITHM_MAX_def SERVICE_ALGORITHM_MIN_def

record service_row =
  sv_status :: int
  sv_algorithm :: int
  sv_triggerid :: "u64 option"

record alarm_row =
  sa_id :: u64
  sa_serviceid :: u64
  sa_clock :: int
  sa_value :: int

text \<open>An update can run out of the depth given to the recursion, or read a trigger id that is NULL,
  which the code hands to \<open>sscanf\<close>.\<close>

datatype service_error = Too_Deep | Null_Trigger

record sdb =
  services :: "(u64 \<times> service_row) list"
  services_links :: "(u64 \<times> u64) list" \<comment> \<open>up, down\<close>
  service_alarms :: "alarm_row list"

definition service :: "sdb \<Rightarrow> u64 \<Rightarrow> service_row option" where
  "service db s = map_of (services db) s"

definition set_service :: "sdb \<Rightarrow> u64 \<Rightarrow> (service_row \<Rightarrow> service_row) \<Rightarrow> sdb" where
  "set_service db s f = db\<lparr>services := map (\<lambda>(i, r). (i, if i = s then f r else r)) (services db)\<rparr>"

subsection \<open>Alarms\<close>

definition alarms_of :: "sdb \<Rightarrow> u64 \<Rightarrow> alarm_row list" where
  "alarms_of db s = sort_key sa_id (filter (\<lambda>a. sa_serviceid a = s) (service_alarms db))"

definition latest_service_alarm :: "sdb \<Rightarrow> u64 \<Rightarrow> int \<Rightarrow> zret" where
  "latest_service_alarm db s st =
     (case rev (alarms_of db s) of [] \<Rightarrow> FAIL | a # _ \<Rightarrow> if sa_value a = st then SUCCEED else FAIL)"

definition DBadd_service_alarm :: "(alarm_row list \<Rightarrow> u64) \<Rightarrow> sdb \<Rightarrow> u64 \<Rightarrow> int \<Rightarrow> int \<Rightarrow> sdb" where
  "DBadd_service_alarm fresh db s st clk =
     (if latest_service_alarm db s st = SUCCEED then db
      else db\<lparr>service_alarms := service_alarms db @
             [\<lparr>sa_id = fresh (service_alarms db), sa_serviceid = s, sa_clock = clk, sa_value = st\<rparr>]\<rparr>)"

subsection \<open>The status of one service\<close>

definition child_statuses :: "sdb \<Rightarrow> u64 \<Rightarrow> int list" where
  "child_statuses db s = [sv_status r. (up, down) \<leftarrow> services_links db, up = s,
     r \<leftarrow> (case service db down of None \<Rightarrow> [] | Some r \<Rightarrow> [r])]"

definition DBget_service_status :: "(u64 \<Rightarrow> int option) \<Rightarrow> sdb \<Rightarrow> u64 \<Rightarrow> int \<Rightarrow> u64 \<Rightarrow> int" where
  "DBget_service_status problem db s algorithm trig =
     (let own = (if trig \<noteq> 0 then (case problem trig of None \<Rightarrow> 0 | Some prio \<Rightarrow> prio) else 0);
          below = sort (child_statuses db s);
          rows = (if algorithm = SERVICE_ALGORITHM_MAX then rev below
                  else if algorithm = SERVICE_ALGORITHM_MIN then below else [])
      in case rows of [] \<Rightarrow> own | st # _ \<Rightarrow> if st \<noteq> 0 then st else own)"

subsection \<open>Carrying a change upwards\<close>

text \<open>One row of the first loop: the services directly above are recomputed one after the
  other.\<close>

definition recompute :: "(alarm_row list \<Rightarrow> u64) \<Rightarrow> (u64 \<Rightarrow> int option) \<Rightarrow> int \<Rightarrow> u64 \<times> int \<Rightarrow> sdb \<Rightarrow> sdb" where
  "recompute fresh problem now row db =
     (let (up, algorithm) = row
      in if algorithm = SERVICE_ALGORITHM_MAX \<or> algorithm = SERVICE_ALGORITHM_MIN then
           (let st = DBget_service_status problem db up algorithm 0
            in set_service (DBadd_service_alarm fresh db up st now) up (\<lambda>r. r\<lparr>sv_status := st\<rparr>))
         else db)"

definition parents :: "sdb \<Rightarrow> u64 \<Rightarrow> u64 list" where
  "parents db s = [up. (up, down) \<leftarrow> services_links db, down = s]"

definition parent_rows :: "sdb \<Rightarrow> u64 \<Rightarrow> (u64 \<times> int) list" where
  "parent_rows db s = [(up, sv_algorithm r). up \<leftarrow> parents db s, r \<leftarrow> (case service db up of None \<Rightarrow> [] | Some r \<Rightarrow> [r])]"

fun rec_loop :: "(u64 \<Rightarrow> sdb \<Rightarrow> service_error + sdb) \<Rightarrow> u64 list \<Rightarrow> sdb \<Rightarrow> service_error + sdb" where
  "rec_loop call [] db = Inr db"
| "rec_loop call (up # ups) db = (case call up db of Inl e \<Rightarrow> Inl e | Inr db1 \<Rightarrow> rec_loop call ups db1)"

fun DBupdate_services_rec :: "nat \<Rightarrow> (alarm_row list \<Rightarrow> u64) \<Rightarrow> (u64 \<Rightarrow> int option) \<Rightarrow> int \<Rightarrow> u64 \<Rightarrow> sdb \<Rightarrow> service_error + sdb" where
  "DBupdate_services_rec 0 fresh problem now s db = Inl Too_Deep"
| "DBupdate_services_rec (Suc n) fresh problem now s db =
     (let db1 = fold (recompute fresh problem now) (parent_rows db s) db
      in rec_loop (DBupdate_services_rec n fresh problem now) (parents db1 s) db1)"

text \<open>The loop of \<open>DBupdate_services\<close> over the services of a trigger.\<close>

definition change_service :: "nat \<Rightarrow> (alarm_row list \<Rightarrow> u64) \<Rightarrow> (u64 \<Rightarrow> int option) \<Rightarrow> int \<Rightarrow> int \<Rightarrow> u64 \<Rightarrow> sdb \<Rightarrow> service_error + sdb" where
  "change_service n fresh problem now st s db =
     DBupdate_services_rec n fresh problem now s
       (DBadd_service_alarm fresh (set_service db s (\<lambda>r. r\<lparr>sv_status := st\<rparr>)) s st now)"

definition DBupdate_services :: "nat \<Rightarrow> (alarm_row list \<Rightarrow> u64) \<Rightarrow> (u64 \<Rightarrow> int option) \<Rightarrow> int \<Rightarrow> u64 \<Rightarrow> int \<Rightarrow> sdb \<Rightarrow> service_error + sdb" where
  "DBupdate_services n fresh problem now trig st db =
     rec_loop (change_service n fresh problem now st) [s. (s, r) \<leftarrow> services db, sv_triggerid r = Some trig] db"

subsection \<open>Recomputing everything\<close>

text \<open>A service with others below it keeps no trigger.\<close>

definition DBclear_parents_from_trigger :: "u64 \<Rightarrow> sdb \<Rightarrow> sdb" where
  "DBclear_parents_from_trigger s db =
     (if s \<noteq> 0 then set_service db s (\<lambda>r. r\<lparr>sv_triggerid := None\<rparr>)
      else fold (\<lambda>p db. set_service db p (\<lambda>r. r\<lparr>sv_triggerid := None\<rparr>))
             [p. (p, r) \<leftarrow> services db, p \<in> fst ` set (services_links db) \<and> sv_triggerid r \<noteq> None] db)"

fun leaf_loop :: "(alarm_row list \<Rightarrow> u64) \<Rightarrow> (u64 \<Rightarrow> int option) \<Rightarrow> int \<Rightarrow> (u64 \<times> service_row) list \<Rightarrow> sdb \<Rightarrow> service_error + sdb" where
  "leaf_loop fresh problem now [] db = Inr db"
| "leaf_loop fresh problem now ((s, r) # rows) db =
     (case sv_triggerid r of
        None \<Rightarrow> Inl Null_Trigger
      | Some trig \<Rightarrow>
        let st = DBget_service_status problem db s (sv_algorithm r) trig
        in leaf_loop fresh problem now rows (DBadd_service_alarm fresh (set_service db s (\<lambda>r. r\<lparr>sv_status := st\<rparr>)) s st now))"

text \<open>For every service with a leaf below it, the leaf with the largest id.\<close>

definition leaf_children :: "sdb \<Rightarrow> u64 \<Rightarrow> u64 list" where
  "leaf_children db p = [down. (up, down) \<leftarrow> services_links db, up = p \<and> down \<notin> fst ` set (services_links db)]"

definition max_leaves :: "sdb \<Rightarrow> u64 list" where
  "max_leaves db = [Max (set (leaf_children db p)). p \<leftarrow> remdups (map fst (services_links db)), leaf_children db p \<noteq> []]"

definition DBupdate_services_status_all :: "nat \<Rightarrow> (alarm_row list \<Rightarrow> u64) \<Rightarrow> (u64 \<Rightarrow> int option) \<Rightarrow> int \<Rightarrow> sdb \<Rightarrow> service_error + sdb" where
  "DBupdate_services_status_all n fresh problem now db =
     (let db1 = DBclear_parents_from_trigger 0 db;
          leaves = filter (\<lambda>(s, r). s \<notin> fst ` set (services_links db1)) (services db1)
      in case leaf_loop fresh problem now leaves db1 of
           Inl e \<Rightarrow> Inl e
         | Inr db2 \<Rightarrow> rec_loop (DBupdate_services_rec n fresh problem now) (max_leaves db2) db2)"

definition DBdelete_service :: "nat \<Rightarrow> (alarm_row list \<Rightarrow> u64) \<Rightarrow> (u64 \<Rightarrow> int option) \<Rightarrow> int \<Rightarrow> u64 \<Rightarrow> sdb \<Rightarrow> service_error + sdb" where
  "DBdelete_service n fresh problem now s db =
     DBupdate_services_status_all n fresh problem now
       (db\<lparr>service_alarms := filter (\<lambda>a. sa_serviceid a \<noteq> s) (service_alarms db),
           services_links := filter (\<lambda>(up, down). down \<noteq> s \<and> up \<noteq> s) (services_links db),
           services := filter (\<lambda>(i, r). i \<noteq> s) (services db)\<rparr>)"

subsection \<open>What an update leaves alone\<close>

text \<open>The links, and the services with their algorithms and triggers.\<close>

definition same_shape :: "sdb \<Rightarrow> sdb \<Rightarrow> bool" where
  "same_shape db db' \<longleftrightarrow> services_links db' = services_links db
     \<and> map (\<lambda>(i, r). (i, sv_algorithm r, sv_triggerid r)) (services db') = map (\<lambda>(i, r). (i, sv_algorithm r, sv_triggerid r)) (services db)"

lemma same_shape_refl [simp]: "same_shape db db"
  by (simp add: same_shape_def)

lemma same_shape_trans [trans]: "same_shape a b \<Longrightarrow> same_shape b c \<Longrightarrow> same_shape a c"
  by (simp add: same_shape_def)

lemma service_alarm [simp]: "service (DBadd_service_alarm fresh db s st clk) = service db"
  "services_links (DBadd_service_alarm fresh db s st clk) = services_links db"
  "services (DBadd_service_alarm fresh db s st clk) = services db"
  by (simp_all add: DBadd_service_alarm_def service_def fun_eq_iff)

lemma service_set [simp]:
  "service (set_service db s f) t = (if t = s then map_option f (service db s) else service db t)"
  "services_links (set_service db s f) = services_links db"
proof -
  have "map_of (map (\<lambda>(i, r). (i, if i = s then f r else r)) xs) t = (if t = s then map_option f (map_of xs s) else map_of xs t)" for xs
    by (induction xs) auto
  then show "service (set_service db s f) t = (if t = s then map_option f (service db s) else service db t)"
    by (simp add: set_service_def service_def)
qed (simp add: set_service_def)

text \<open>Every status is written together with its alarm.\<close>

definition put_status :: "(alarm_row list \<Rightarrow> u64) \<Rightarrow> int \<Rightarrow> u64 \<Rightarrow> int \<Rightarrow> sdb \<Rightarrow> sdb" where
  "put_status fresh now s st db = set_service (DBadd_service_alarm fresh db s st now) s (\<lambda>r. r\<lparr>sv_status := st\<rparr>)"

lemma put_status_alarm_after:
  "DBadd_service_alarm fresh (set_service db s (\<lambda>r. r\<lparr>sv_status := st\<rparr>)) s st now = put_status fresh now s st db"
  by (simp add: put_status_def DBadd_service_alarm_def set_service_def latest_service_alarm_def alarms_of_def split: list.split)

lemma recompute_put:
  "recompute fresh problem now (up, algorithm) db =
     (if algorithm = SERVICE_ALGORITHM_MAX \<or> algorithm = SERVICE_ALGORITHM_MIN
      then put_status fresh now up (DBget_service_status problem db up algorithm 0) db else db)"
  by (simp add: recompute_def put_status_def Let_def)

lemma put_status_simps [simp]:
  "service (put_status fresh now s st db) t = (if t = s then map_option (\<lambda>r. r\<lparr>sv_status := st\<rparr>) (service db s) else service db t)"
  "services_links (put_status fresh now s st db) = services_links db"
  by (simp_all add: put_status_def)

lemma put_status_shape: "same_shape db (put_status fresh now s st db)"
  by (auto simp: same_shape_def put_status_def set_service_def)

text \<open>What a write of the status of a service with others below it keeps, the recursion keeps; what
  every write keeps, every update keeps.\<close>

locale kept_by_recursion =
  fixes P :: "sdb \<Rightarrow> bool" and fresh :: "alarm_row list \<Rightarrow> u64" and now :: int
  assumes put_inner: "P db \<Longrightarrow> s \<in> fst ` set (services_links db) \<Longrightarrow> P (put_status fresh now s st db)"
begin

lemma recompute_keeps:
  "P db \<Longrightarrow> fst row \<in> fst ` set (services_links db) \<Longrightarrow> P (recompute fresh problem now row db)
     \<and> services_links (recompute fresh problem now row db) = services_links db"
  using put_inner [of db "fst row"] by (cases row) (simp add: recompute_put)

lemma recompute_fold_keeps:
  "P db \<Longrightarrow> fst ` set rows \<subseteq> fst ` set (services_links db) \<Longrightarrow> P (fold (recompute fresh problem now) rows db)"
proof (induction rows arbitrary: db)
  case (Cons row rows)
  then show ?case using recompute_keeps [of db row] by simp
qed simp

lemma rec_loop_keeps:
  assumes "\<And>up db db'. P db \<Longrightarrow> call up db = Inr db' \<Longrightarrow> P db'" and "P db" "rec_loop call ups db = Inr db'"
  shows "P db'"
  using assms(2,3)
proof (induction ups arbitrary: db)
  case (Cons up ups)
  then show ?case using assms(1) [of db up] by (auto split: sum.splits)
qed simp

lemma services_rec_keeps: "P db \<Longrightarrow> DBupdate_services_rec n fresh problem now s db = Inr db' \<Longrightarrow> P db'"
proof (induction n arbitrary: s db db')
  case (Suc n)
  have "fst ` set (parent_rows db s) \<subseteq> fst ` set (services_links db)"
    by (force simp: parent_rows_def parents_def)
  note rows = recompute_fold_keeps [OF Suc.prems(1) this]
  show ?case
    by (rule rec_loop_keeps [of "DBupdate_services_rec n fresh problem now"])
      (use Suc rows in \<open>auto simp: Let_def\<close>)
qed simp

end

locale kept_by_updates = kept_by_recursion +
  assumes put: "P db \<Longrightarrow> P (put_status fresh now s st db)"
begin

lemma change_service_keeps: "P db \<Longrightarrow> change_service n fresh problem now st s db = Inr db' \<Longrightarrow> P db'"
  using services_rec_keeps [OF put] by (simp add: change_service_def put_status_alarm_after)

lemma update_services_keeps: "P db \<Longrightarrow> DBupdate_services n fresh problem now trig st db = Inr db' \<Longrightarrow> P db'"
  unfolding DBupdate_services_def by (rule rec_loop_keeps [OF change_service_keeps])

lemma leaf_loop_keeps: "P db \<Longrightarrow> leaf_loop fresh problem now rows db = Inr db' \<Longrightarrow> P db'"
proof (induction rows arbitrary: db)
  case (Cons row rows)
  then show ?case
    by (cases row) (auto simp: put_status_alarm_after Let_def split: option.splits dest!: Cons.IH [OF put])
qed simp

end

interpretation shape: kept_by_updates "same_shape db0" fresh now for db0 fresh now
  by unfold_locales (blast intro: same_shape_trans put_status_shape)+

lemma shape_recompute: "same_shape db (fold (recompute fresh problem now) rows db)"
proof (induction rows arbitrary: db)
  case (Cons row rows)
  have "same_shape db (recompute fresh problem now row db)"
    using put_status_shape by (auto simp: recompute_def put_status_def [symmetric] Let_def split: prod.split)
  from same_shape_trans [OF this Cons.IH] show ?case by simp
qed simp

lemma same_shape_service:
  assumes "same_shape db db'"
  shows "map_option (\<lambda>r. (sv_algorithm r, sv_triggerid r)) (service db' s) = map_option (\<lambda>r. (sv_algorithm r, sv_triggerid r)) (service db s)"
proof -
  have m: "map_option (\<lambda>r. (sv_algorithm r, sv_triggerid r)) (map_of xs s)
    = map_of (map (\<lambda>(i, r). (i, sv_algorithm r, sv_triggerid r)) xs) s" for xs
    by (induction xs) auto
  show ?thesis using assms unfolding same_shape_def service_def m by simp
qed

subsection \<open>Stale services\<close>

text \<open>A service is stale when its status is not the one its algorithm gives for the services below it.\<close>

definition computed :: "sdb \<Rightarrow> u64 \<Rightarrow> int \<Rightarrow> int" where
  "computed db p algorithm = DBget_service_status (\<lambda>_. None) db p algorithm 0"

definition stale :: "sdb \<Rightarrow> u64 set" where
  "stale db = {p. \<exists>r. service db p = Some r \<and> sv_algorithm r \<in> {SERVICE_ALGORITHM_MAX, SERVICE_ALGORITHM_MIN}
     \<and> p \<in> fst ` set (services_links db) \<and> sv_status r \<noteq> computed db p (sv_algorithm r)}"

lemma computed_any: "DBget_service_status problem db p algorithm 0 = computed db p algorithm"
  by (simp add: computed_def DBget_service_status_def)

lemma set_parents: "set (parents db s) = {p. (p, s) \<in> set (services_links db)}"
  by (auto simp: parents_def)

lemma child_statuses_put:
  assumes "p \<notin> set (parents db s)"
  shows "child_statuses (put_status fresh now s st db) p = child_statuses db p"
proof -
  have "concat (map (\<lambda>(up, down). if up = p then map sv_status (case service (put_status fresh now s st db) down of None \<Rightarrow> [] | Some r \<Rightarrow> [r]) else []) L)
      = concat (map (\<lambda>(up, down). if up = p then map sv_status (case service db down of None \<Rightarrow> [] | Some r \<Rightarrow> [r]) else []) L)"
    if "(p, s) \<notin> set L" for L
    using that
  proof (induction L)
    case (Cons l L)
    obtain up down where l: "l = (up, down)" by (cases l)
    show ?case using Cons by (cases "up = p"; cases "down = s") (auto simp: l)
  qed simp
  then show ?thesis using assms by (simp add: child_statuses_def set_parents)
qed

lemma computed_put:
  "p \<notin> set (parents db s) \<Longrightarrow> computed (put_status fresh now s st db) p a = computed db p a"
  by (simp add: computed_def DBget_service_status_def child_statuses_put)

lemma stale_put:
  "stale (put_status fresh now s st db) \<subseteq> (stale db - {s}) \<union> set (parents db s)
     \<union> {p. p = s \<and> (\<exists>r. service db s = Some r \<and> s \<in> fst ` set (services_links db) \<and> st \<noteq> computed db s (sv_algorithm r))}"
proof
  fix p assume p: "p \<in> stale (put_status fresh now s st db)"
  show "p \<in> (stale db - {s}) \<union> set (parents db s) \<union> {p. p = s \<and> (\<exists>r. service db s = Some r \<and> s \<in> fst ` set (services_links db) \<and> st \<noteq> computed db s (sv_algorithm r))}"
  proof (cases "p \<in> set (parents db s)")
    case False
    then show ?thesis using p by (auto simp: stale_def computed_put split: if_splits)
  qed simp
qed

subsection \<open>A change reaches everything above it\<close>

definition above :: "(u64 \<times> u64) list \<Rightarrow> u64 \<Rightarrow> u64 set" where
  "above L s = {p. (p, s) \<in> (set L)\<^sup>+}"

lemma above_unfold: "above L s = {p. (p, s) \<in> set L} \<union> (\<Union>q \<in> {q. (q, s) \<in> set L}. above L q)"
  unfolding above_def by (auto elim: tranclE intro: trancl_into_trancl)

lemma stale_recompute:
  assumes "service db up = Some r" "sv_algorithm r = algorithm"
  shows "stale (recompute fresh problem now (up, algorithm) db) \<subseteq> (stale db - {up}) \<union> set (parents db up)"
proof (cases "algorithm = SERVICE_ALGORITHM_MAX \<or> algorithm = SERVICE_ALGORITHM_MIN")
  case True
  let ?st = "computed db up algorithm"
  have "recompute fresh problem now (up, algorithm) db = put_status fresh now up ?st db"
    using True by (auto simp: recompute_def put_status_def computed_any Let_def)
  then show ?thesis using stale_put [of fresh now up ?st db] assms by auto
next
  case False
  then have "up \<notin> stale db" using assms by (auto simp: stale_def)
  then show ?thesis using False by (auto simp: recompute_def)
qed

lemma stale_recompute_rows:
  assumes "\<forall>(up, a) \<in> set rows. \<exists>r. service db up = Some r \<and> sv_algorithm r = a"
  shows "stale (fold (recompute fresh problem now) rows db) \<subseteq> (stale db - fst ` set rows) \<union> (\<Union>up \<in> fst ` set rows. set (parents db up))"
  using assms
proof (induction rows arbitrary: db)
  case (Cons row rows)
  obtain up a where row: "row = (up, a)" by (cases row)
  let ?db = "recompute fresh problem now (up, a) db"
  have sh: "same_shape db ?db" using shape_recompute [of db fresh problem now "[(up, a)]"] by simp
  have "\<forall>(u, b) \<in> set rows. \<exists>r. service ?db u = Some r \<and> sv_algorithm r = b"
  proof clarify
    fix u b assume "(u, b) \<in> set rows"
    then obtain r where "service db u = Some r" "sv_algorithm r = b" using Cons.prems by auto
    with same_shape_service [OF sh, of u] show "\<exists>r. service ?db u = Some r \<and> sv_algorithm r = b" by auto
  qed
  from Cons.IH [OF this] have rest: "stale (fold (recompute fresh problem now) rows ?db)
      \<subseteq> (stale ?db - fst ` set rows) \<union> (\<Union>u \<in> fst ` set rows. set (parents ?db u))" .
  have "parents ?db u = parents db u" for u using sh by (simp add: same_shape_def parents_def)
  moreover obtain r where "service db up = Some r" "sv_algorithm r = a" using Cons.prems row by auto
  note stale_recompute [OF this, of fresh problem now]
  ultimately show ?case using rest by (auto simp: row)
qed simp

lemma parent_rows_services: "\<forall>(up, a) \<in> set (parent_rows db s). \<exists>r. service db up = Some r \<and> sv_algorithm r = a"
proof clarify
  fix up a assume "(up, a) \<in> set (parent_rows db s)"
  then obtain x where "x \<in> set (case service db up of None \<Rightarrow> [] | Some r \<Rightarrow> [r])" "a = sv_algorithm x"
    by (auto simp: parent_rows_def)
  then show "\<exists>r. service db up = Some r \<and> sv_algorithm r = a" by (cases "service db up") auto
qed

lemma stale_parent_rows: "stale db \<inter> set (parents db s) \<subseteq> fst ` set (parent_rows db s)"
  by (force simp: stale_def parent_rows_def split: option.splits)

lemma parent_rows_parents: "fst ` set (parent_rows db s) \<subseteq> set (parents db s)"
  by (auto simp: parent_rows_def)

lemma stale_rec_loop:
  assumes "\<And>up db db'. services_links db = L \<Longrightarrow> call up db = Inr db' \<Longrightarrow> services_links db' = L \<and> stale db' \<subseteq> stale db - above L up"
    and "services_links db = L" "rec_loop call ups db = Inr db'"
  shows "stale db' \<subseteq> stale db - (\<Union>up \<in> set ups. above L up)"
  using assms(2,3)
proof (induction ups arbitrary: db)
  case (Cons up ups)
  then obtain db1 where c: "call up db = Inr db1" "rec_loop call ups db1 = Inr db'" by (auto split: sum.splits)
  then show ?case using assms(1) [OF Cons.prems(1) c(1)] Cons.IH [of db1] by auto
qed simp

lemma shrink_stale: "A = P \<union> U \<Longrightarrow> S' \<subseteq> S1 - U \<Longrightarrow> S1 \<subseteq> (S - P) \<union> U \<Longrightarrow> S' \<subseteq> S - A"
  by blast

lemma stale_services_rec:
  "services_links db = L \<Longrightarrow> DBupdate_services_rec n fresh problem now s db = Inr db' \<Longrightarrow>
     services_links db' = L \<and> stale db' \<subseteq> stale db - above L s"
proof (induction n arbitrary: s db db')
  case (Suc n)
  let ?db1 = "fold (recompute fresh problem now) (parent_rows db s) db"
  have sh: "same_shape db ?db1" by (rule shape_recompute)
  then have L: "services_links ?db1 = L" "parents ?db1 = parents db"
    using Suc.prems(1) by (auto simp: same_shape_def parents_def fun_eq_iff)
  have r: "rec_loop (DBupdate_services_rec n fresh problem now) (parents db s) ?db1 = Inr db'"
    using Suc.prems(2) L(2) by (simp add: Let_def)
  have "same_shape ?db1 db'" by (rule shape.rec_loop_keeps [OF shape.services_rec_keeps _ r]) simp_all
  then have "services_links db' = L" using L(1) by (simp add: same_shape_def)
  moreover have "stale db' \<subseteq> stale db - above L s"
  proof -
    have direct: "set (parents db up) \<subseteq> above L up" for up
      using Suc.prems(1) above_unfold [of L up] by (auto simp: set_parents)
    have "above L s = set (parents db s) \<union> (\<Union>up \<in> set (parents db s). above L up)"
      using above_unfold [of L s] Suc.prems(1) by (simp add: set_parents)
    moreover have "stale db' \<subseteq> stale ?db1 - (\<Union>up \<in> set (parents db s). above L up)"
      by (rule stale_rec_loop [OF Suc.IH L(1) r])
    moreover have "stale ?db1 \<subseteq> (stale db - set (parents db s)) \<union> (\<Union>up \<in> set (parents db s). above L up)"
    proof
      fix x assume x: "x \<in> stale ?db1"
      consider "x \<in> stale db" "x \<notin> fst ` set (parent_rows db s)"
        | up where "up \<in> fst ` set (parent_rows db s)" "x \<in> set (parents db up)"
        using subsetD [OF stale_recompute_rows [OF parent_rows_services [of db s]] x] by auto
      then show "x \<in> (stale db - set (parents db s)) \<union> (\<Union>up \<in> set (parents db s). above L up)"
      proof cases
        case 1
        then show ?thesis using stale_parent_rows [of db s] by auto
      next
        case 2
        then show ?thesis using parent_rows_parents [of db s] direct by auto
      qed
    qed
    ultimately show ?thesis by (rule shrink_stale)
  qed
  ultimately show ?case ..
qed simp

text \<open>Triggers sit on services with nothing below them.\<close>

definition triggers_on_leaves :: "sdb \<Rightarrow> bool" where
  "triggers_on_leaves db \<longleftrightarrow> (\<forall>s r. (s, r) \<in> set (services db) \<and> sv_triggerid r \<noteq> None \<longrightarrow> s \<notin> fst ` set (services_links db))"

lemma triggers_on_leaves_shape:
  assumes "same_shape db db'" "triggers_on_leaves db"
  shows "triggers_on_leaves db'"
  unfolding triggers_on_leaves_def
proof (intro allI impI notI)
  fix s r assume "(s, r) \<in> set (services db') \<and> sv_triggerid r \<noteq> None" and "s \<in> fst ` set (services_links db')"
  then have r: "(s, r) \<in> set (services db')" "sv_triggerid r \<noteq> None" "s \<in> fst ` set (services_links db')" by simp_all
  have "(s, sv_algorithm r, sv_triggerid r) \<in> set (map (\<lambda>(i, r). (i, sv_algorithm r, sv_triggerid r)) (services db'))"
    using r(1) by force
  then have "(s, sv_algorithm r, sv_triggerid r) \<in> set (map (\<lambda>(i, r). (i, sv_algorithm r, sv_triggerid r)) (services db))"
    using assms(1) by (simp only: same_shape_def)
  then obtain q where q: "(s, q) \<in> set (services db)" "sv_triggerid q = sv_triggerid r" by auto
  then have "s \<notin> fst ` set (services_links db)" using assms(2) r(2) unfolding triggers_on_leaves_def by metis
  then show False using r(3) assms(1) by (simp add: same_shape_def)
qed

lemma stale_change_service:
  assumes "services_links db = L" "s \<notin> fst ` set L" "change_service n fresh problem now st s db = Inr db'"
  shows "services_links db' = L \<and> stale db' \<subseteq> stale db"
proof -
  have r: "DBupdate_services_rec n fresh problem now s (put_status fresh now s st db) = Inr db'"
    using assms(3) by (simp add: change_service_def put_status_alarm_after)
  have "set (parents db s) \<subseteq> above L s" using assms(1) above_unfold [of L s] by (auto simp: set_parents)
  then show ?thesis
    using stale_services_rec [OF _ r, of L] stale_put [of fresh now s st db] assms(1,2) by auto
qed

lemma stale_change_loop:
  "\<forall>s \<in> set ss. s \<notin> fst ` set L \<Longrightarrow> services_links db = L \<Longrightarrow>
     rec_loop (change_service n fresh problem now st) ss db = Inr db' \<Longrightarrow> stale db' \<subseteq> stale db"
proof (induction ss arbitrary: db)
  case (Cons s ss)
  then obtain db1 where c: "change_service n fresh problem now st s db = Inr db1"
    "rec_loop (change_service n fresh problem now st) ss db1 = Inr db'" by (auto split: sum.splits)
  from stale_change_service [OF Cons.prems(2) _ c(1)] Cons.prems(1,2) c(2) Cons.IH [of db1] show ?case by auto
qed simp

lemma update_services_stale:
  assumes "triggers_on_leaves db" "DBupdate_services n fresh problem now trig st db = Inr db'"
  shows "stale db' \<subseteq> stale db"
proof (rule stale_change_loop [OF _ refl])
  show "\<forall>s \<in> set [s. (s, r) \<leftarrow> services db, sv_triggerid r = Some trig]. s \<notin> fst ` set (services_links db)"
    using assms(1) unfolding triggers_on_leaves_def by (auto split: if_splits)
qed (use assms(2) in \<open>simp add: DBupdate_services_def\<close>)

subsection \<open>The recursion returns\<close>

text \<open>Without a cycle in the links, one more round than there are services above is enough.\<close>

lemma above_parents: "above L s \<subseteq> fst ` set L"
proof
  fix p assume "p \<in> above L s"
  then obtain q where "(p, q) \<in> set L" unfolding above_def by (auto dest: tranclD)
  then show "p \<in> fst ` set L" by force
qed

lemma above_less:
  assumes "acyclic (set L)" "(q, s) \<in> set L"
  shows "card (above L q) < card (above L s)"
proof (rule psubset_card_mono)
  show "finite (above L s)" by (rule finite_subset [OF above_parents]) simp
  have "q \<notin> above L q" using assms(1) by (auto simp: above_def acyclic_def)
  then show "above L q \<subset> above L s" using above_unfold [of L s] assms(2) by auto
qed

lemma rec_loop_returns:
  assumes "\<And>up db. up \<in> set ups \<Longrightarrow> services_links db = L \<Longrightarrow> \<exists>db'. call up db = Inr db' \<and> services_links db' = L"
    and "services_links db = L"
  shows "\<exists>db'. rec_loop call ups db = Inr db' \<and> services_links db' = L"
  using assms
proof (induction ups arbitrary: db)
  case (Cons up ups)
  obtain db1 where "call up db = Inr db1" "services_links db1 = L" using Cons.prems(1) [of up db] Cons.prems(2) by auto
  with Cons.IH [of db1] Cons.prems(1) show ?case by auto
qed simp

lemma services_rec_returns:
  assumes "acyclic (set L)"
  shows "services_links db = L \<Longrightarrow> card (above L s) < n \<Longrightarrow>
    \<exists>db'. DBupdate_services_rec n fresh problem now s db = Inr db' \<and> services_links db' = L"
proof (induction n arbitrary: s db)
  case (Suc n)
  let ?db1 = "fold (recompute fresh problem now) (parent_rows db s) db"
  have "same_shape db ?db1" by (rule shape_recompute)
  then have L: "services_links ?db1 = L" using Suc.prems(1) by (simp add: same_shape_def)
  have "\<exists>db'. rec_loop (DBupdate_services_rec n fresh problem now) (parents ?db1 s) ?db1 = Inr db' \<and> services_links db' = L"
  proof (rule rec_loop_returns [OF Suc.IH L])
    fix up assume "up \<in> set (parents ?db1 s)"
    then have "card (above L up) < card (above L s)" using above_less [OF assms, of up s] L by (simp add: set_parents)
    then show "card (above L up) < n" using Suc.prems(2) by simp
  qed
  then show ?case by (simp add: Let_def)
qed simp

lemma above_bound: "card (above L s) < length L + 1"
proof -
  have "card (above L s) \<le> card (set L)" using above_parents [of L s] by (meson List.finite_set card_image_le card_mono finite_imageI le_trans)
  also have "\<dots> \<le> length L" by (rule card_length)
  finally show ?thesis by simp
qed

lemma update_services_returns:
  assumes "acyclic (set (services_links db))" "length (services_links db) < n"
  shows "\<exists>db'. DBupdate_services n fresh problem now trig st db = Inr db'"
proof -
  have "\<exists>db'. change_service n fresh problem now st s d = Inr db' \<and> services_links db' = services_links db"
    if "services_links d = services_links db" for s d
    using services_rec_returns [OF assms(1), of "put_status fresh now s st d" s n] that above_bound [of "services_links db" s] assms(2)
    by (simp add: change_service_def put_status_alarm_after)
  then show ?thesis unfolding DBupdate_services_def using rec_loop_returns [of _ "services_links db"] by blast
qed

interpretation leaf: kept_by_recursion
    "\<lambda>db. services_links db = L \<and> (s \<notin> fst ` set L \<longrightarrow> service db s = r)" fresh now for L s r fresh now
  by unfold_locales auto

lemma rec_loop_leaf:
  assumes "s \<notin> fst ` set L"
  shows "services_links db = L \<Longrightarrow> rec_loop (DBupdate_services_rec n fresh problem now) ups db = Inr db' \<Longrightarrow>
    service db' s = service db s"
proof (induction ups arbitrary: db)
  case (Cons up ups)
  then obtain db1 where c: "DBupdate_services_rec n fresh problem now up db = Inr db1"
    "rec_loop (DBupdate_services_rec n fresh problem now) ups db1 = Inr db'" by (auto split: sum.splits)
  have "services_links db1 = L \<and> (s \<notin> fst ` set L \<longrightarrow> service db1 s = service db s)"
    by (rule leaf.services_rec_keeps [OF _ c(1)]) (simp add: Cons.prems(1))
  then show ?case using Cons.IH [of db1] c(2) assms by simp
qed simp

subsection \<open>Recomputing everything\<close>

lemma clear_fold:
  "fold (\<lambda>p db. set_service db p (\<lambda>r. r\<lparr>sv_triggerid := None\<rparr>)) ps db
   = db\<lparr>services := map (\<lambda>(i, r). (i, if i \<in> set ps then r\<lparr>sv_triggerid := None\<rparr> else r)) (services db)\<rparr>"
  by (induction ps rule: rev_induct) (auto simp: set_service_def comp_def case_prod_unfold)

text \<open>Exactly the services with others below them have lost their trigger.\<close>

lemma clear_services:
  "services_links (DBclear_parents_from_trigger 0 db) = services_links db"
  "map fst (services (DBclear_parents_from_trigger 0 db)) = map fst (services db)"
  "(s, r) \<in> set (services (DBclear_parents_from_trigger 0 db)) \<Longrightarrow>
     \<exists>q. (s, q) \<in> set (services db) \<and> sv_triggerid r = (if s \<in> fst ` set (services_links db) then None else sv_triggerid q)"
proof -
  let ?ps = "[p. (p, r) \<leftarrow> services db, p \<in> fst ` set (services_links db) \<and> sv_triggerid r \<noteq> None]"
  have e: "DBclear_parents_from_trigger 0 db
      = db\<lparr>services := map (\<lambda>(i, r). (i, if i \<in> set ?ps then r\<lparr>sv_triggerid := None\<rparr> else r)) (services db)\<rparr>"
    unfolding DBclear_parents_from_trigger_def by (simp only: clear_fold) simp
  show "services_links (DBclear_parents_from_trigger 0 db) = services_links db" unfolding e by simp
  show "map fst (services (DBclear_parents_from_trigger 0 db)) = map fst (services db)"
    unfolding e by (simp add: comp_def case_prod_unfold)
  assume "(s, r) \<in> set (services (DBclear_parents_from_trigger 0 db))"
  then obtain q where q: "(s, q) \<in> set (services db)" "r = (if s \<in> set ?ps then q\<lparr>sv_triggerid := None\<rparr> else q)"
    unfolding e by auto
  have "s \<in> set ?ps \<Longrightarrow> s \<in> fst ` set (services_links db)" by (auto split: if_splits)
  moreover have "s \<in> fst ` set (services_links db) \<Longrightarrow> sv_triggerid q \<noteq> None \<Longrightarrow> s \<in> set ?ps" using q(1) by force
  ultimately show "\<exists>q. (s, q) \<in> set (services db) \<and> sv_triggerid r = (if s \<in> fst ` set (services_links db) then None else sv_triggerid q)"
    using q by (intro exI [of _ q]) (auto split: if_splits)
qed

lemma clear_triggers_on_leaves: "triggers_on_leaves (DBclear_parents_from_trigger 0 db)"
  unfolding triggers_on_leaves_def clear_services(1) using clear_services(3) [of _ _ db] by (metis (no_types, lifting))

text \<open>A service is above a leaf that the last query selects.\<close>

lemma max_leaf_below:
  assumes "acyclic (set (services_links db))" "p \<in> fst ` set (services_links db)"
  shows "\<exists>d \<in> set (max_leaves db). p \<in> above (services_links db) d"
proof -
  let ?L = "services_links db"
  have "wf ((set ?L)\<inverse>)" using assms(1) by (simp add: finite_acyclic_wf_converse)
  then have "\<exists>u \<in> fst ` set ?L. leaf_children db u \<noteq> [] \<and> (p, u) \<in> (set ?L)\<^sup>*" using assms(2)
  proof (induction p rule: wf_induct_rule)
    case (less p)
    then obtain q where q: "(p, q) \<in> set ?L" by auto
    show ?case
    proof (cases "q \<in> fst ` set ?L")
      case True
      with less.IH [of q] q obtain u where "u \<in> fst ` set ?L" "leaf_children db u \<noteq> []" "(q, u) \<in> (set ?L)\<^sup>*" by auto
      then show ?thesis using q by (meson converse_rtrancl_into_rtrancl)
    next
      case False
      then have "q \<in> set (leaf_children db p)" using q by (auto simp: leaf_children_def)
      then have "leaf_children db p \<noteq> []" by auto
      then show ?thesis using less.prems by blast
    qed
  qed
  then obtain u where u: "u \<in> fst ` set ?L" "leaf_children db u \<noteq> []" "(p, u) \<in> (set ?L)\<^sup>*" by blast
  let ?d = "Max (set (leaf_children db u))"
  have "?d \<in> set (leaf_children db u)" using u(2) by (intro Max_in) auto
  then have "(u, ?d) \<in> set ?L" by (auto simp: leaf_children_def split: if_splits)
  then have "p \<in> above ?L ?d" using u(3) by (simp add: above_def rtrancl_into_trancl1)
  moreover have "?d \<in> set (max_leaves db)" using u(1,2) by (force simp: max_leaves_def)
  ultimately show ?thesis by blast
qed

definition leaf_status :: "(u64 \<Rightarrow> int option) \<Rightarrow> u64 option \<Rightarrow> int" where
  "leaf_status problem t = (case t of None \<Rightarrow> 0 | Some u \<Rightarrow> if u = 0 then 0 else (case problem u of None \<Rightarrow> 0 | Some prio \<Rightarrow> prio))"

lemma status_of_leaf:
  assumes "s \<notin> fst ` set (services_links db)"
  shows "DBget_service_status problem db s algorithm trig = leaf_status problem (Some trig)"
proof -
  have "(up, down) \<in> set (services_links db) \<Longrightarrow> up \<noteq> s" for up down using assms by force
  then have "child_statuses db s = []" unfolding child_statuses_def by (auto intro!: concat_eq_Nil_conv [THEN iffD2])
  then show ?thesis by (simp add: DBget_service_status_def leaf_status_def Let_def)
qed

lemma leaf_loop_statuses:
  assumes "distinct (map fst rows)" "\<forall>(s, r) \<in> set rows. s \<notin> fst ` set (services_links db) \<and> sv_triggerid r \<noteq> None"
  shows "\<exists>db'. leaf_loop fresh problem now rows db = Inr db' \<and> same_shape db db'
    \<and> (\<forall>s. s \<notin> fst ` set rows \<longrightarrow> service db' s = service db s)
    \<and> (\<forall>(s, r) \<in> set rows. service db' s = map_option (\<lambda>q. q\<lparr>sv_status := leaf_status problem (sv_triggerid r)\<rparr>) (service db s))"
  using assms
proof (induction rows arbitrary: db)
  case (Cons row rows)
  obtain s r where row: "row = (s, r)" by (cases row)
  obtain trig where t: "sv_triggerid r = Some trig" using Cons.prems(2) by (auto simp: row)
  have leaf: "s \<notin> fst ` set (services_links db)" using Cons.prems(2) by (simp add: row)
  let ?db = "put_status fresh now s (leaf_status problem (Some trig)) db"
  have step: "leaf_loop fresh problem now (row # rows) db = leaf_loop fresh problem now rows ?db"
    by (simp add: row t status_of_leaf [OF leaf] put_status_alarm_after)
  have "\<forall>(s, r) \<in> set rows. s \<notin> fst ` set (services_links ?db) \<and> sv_triggerid r \<noteq> None" using Cons.prems(2) by auto
  from Cons.IH [OF _ this] Cons.prems(1) obtain db' where db': "leaf_loop fresh problem now rows ?db = Inr db'" "same_shape ?db db'"
    "\<forall>u. u \<notin> fst ` set rows \<longrightarrow> service db' u = service ?db u"
    "\<forall>(u, q) \<in> set rows. service db' u = map_option (\<lambda>q'. q'\<lparr>sv_status := leaf_status problem (sv_triggerid q)\<rparr>) (service ?db u)" by auto
  have ns: "s \<notin> fst ` set rows" using Cons.prems(1) by (simp add: row)
  have "u \<noteq> s" if "(u, q) \<in> set rows" for u q using ns that by force
  then show ?case
    using db' ns same_shape_trans [OF put_status_shape db'(2)] unfolding step
    by (fastforce simp: row t)
qed simp


text \<open>The services 10 (maximum) above 1 and 2, and 20 (minimum) above 10 and 3.\<close>

definition sample_services :: sdb where
  "sample_services = \<lparr>services = [(10, \<lparr>sv_status = 4, sv_algorithm = 1, sv_triggerid = Some 9\<rparr>),
       (20, \<lparr>sv_status = 1, sv_algorithm = 2, sv_triggerid = None\<rparr>), (1, \<lparr>sv_status = 5, sv_algorithm = 0, sv_triggerid = Some 7\<rparr>),
       (2, \<lparr>sv_status = 0, sv_algorithm = 0, sv_triggerid = Some 8\<rparr>), (3, \<lparr>sv_status = 2, sv_algorithm = 0, sv_triggerid = Some 9\<rparr>)],
     services_links = [(10, 1), (10, 2), (20, 10), (20, 3)], service_alarms = []\<rparr>"

lemma sample_acyclic: "acyclic (set (services_links sample_services))"
proof (rule acyclic_subset [OF wf_acyclic [OF wf_measure]])
  show "set (services_links sample_services) \<subseteq> measure (\<lambda>s :: u64. if s = 20 then 0 else if s = 10 then 1 else 2)"
    by (simp add: sample_services_def)
qed


text \<open>A service below which no other hangs and that has no trigger stops the recomputation: its NULL
  trigger id is handed to \<open>sscanf\<close>.\<close>

lemma status_all_null_trigger:
  "DBupdate_services_status_all n fresh problem now
     \<lparr>services = [(1, \<lparr>sv_status = 0, sv_algorithm = 0, sv_triggerid = None\<rparr>)], services_links = [], service_alarms = []\<rparr> = Inl Null_Trigger"
  by (simp add: DBupdate_services_status_all_def DBclear_parents_from_trigger_def)

text \<open>Below a cycle of links the recursion never ends.\<close>

lemma cycle_never_ends:
  assumes "c \<in> above (services_links db) c" "c \<in> above (services_links db) s"
  shows "DBupdate_services_rec n fresh problem now s db = Inl Too_Deep"
proof -
  have stuck: "rec_loop call ups d = Inl Too_Deep"
    if "\<And>up d. services_links d = L \<Longrightarrow> call up d = Inl Too_Deep \<or> (\<exists>d'. call up d = Inr d' \<and> services_links d' = L)"
      "services_links d = L" "u \<in> set ups" "\<And>d. services_links d = L \<Longrightarrow> call u d = Inl Too_Deep" for call L u ups d
    using that(2,3)
  proof (induction ups arbitrary: d)
    case (Cons up ups)
    from that(1) [OF Cons.prems(1), of up] show ?case
      using Cons that(4) by (cases "u = up") (auto split: sum.splits)
  qed simp
  have safe: "DBupdate_services_rec n fresh problem now s d = Inl Too_Deep \<or> (\<exists>d'. DBupdate_services_rec n fresh problem now s d = Inr d' \<and> services_links d' = L)"
    if "services_links d = L" for n s d L
  proof (cases "DBupdate_services_rec n fresh problem now s d")
    case (Inl e)
    have "DBupdate_services_rec n fresh problem now s d \<noteq> Inl Null_Trigger" for s d
    proof (induction n arbitrary: s d)
      case (Suc n)
      have "rec_loop (DBupdate_services_rec n fresh problem now) ups d \<noteq> Inl Null_Trigger" for ups d
        by (induction ups arbitrary: d) (use Suc in \<open>auto split: sum.splits\<close>)
      then show ?case by (simp add: Let_def)
    qed simp
    then show ?thesis using Inl by (cases e) auto
  next
    case (Inr d')
    then show ?thesis using stale_services_rec [OF that Inr] by simp
  qed
  have "c \<in> above L c \<Longrightarrow> services_links d = L \<Longrightarrow> c \<in> above L s \<Longrightarrow> DBupdate_services_rec n fresh problem now s d = Inl Too_Deep" for L s d
  proof (induction n arbitrary: s d)
    case (Suc n)
    let ?d = "fold (recompute fresh problem now) (parent_rows d s) d"
    have L: "services_links ?d = L" using shape_recompute [of d] Suc.prems(2) by (simp add: same_shape_def)
    obtain u where u: "(u, s) \<in> set L" "c \<in> above L u" using Suc.prems above_unfold [of L s] by auto
    show ?case
      using stuck [where call = "DBupdate_services_rec n fresh problem now" and L = L and u = u and ups = "parents ?d s", OF safe L] u L Suc.IH [OF Suc.prems(1)] by (simp add: set_parents Let_def)
  qed simp
  then show ?thesis using assms by blast
qed

subsection \<open>From a trigger to its services\<close>

text \<open>The calls an event makes, as far as the services are concerned.\<close>

fun run_service_calls :: "nat \<Rightarrow> (alarm_row list \<Rightarrow> u64) \<Rightarrow> (u64 \<Rightarrow> int option) \<Rightarrow> int \<Rightarrow> call list \<Rightarrow> sdb \<Rightarrow> service_error + sdb" where
  "run_service_calls n fresh problem now [] db = Inr db"
| "run_service_calls n fresh problem now (ProcessActions e # calls) db = run_service_calls n fresh problem now calls db"
| "run_service_calls n fresh problem now (UpdateServices trig st # calls) db =
     (case DBupdate_services n fresh problem now trig st db of
        Inl e \<Rightarrow> Inl e | Inr db1 \<Rightarrow> run_service_calls n fresh problem now calls db1)"

lemma change_service_leaf:
  assumes "change_service n fresh problem now st s db = Inr db'" "services_links db = L" "u \<notin> fst ` set L"
  shows "service db' u = (if u = s then map_option (\<lambda>r. r\<lparr>sv_status := st\<rparr>) (service db u) else service db u)"
proof -
  have r: "DBupdate_services_rec n fresh problem now s (put_status fresh now s st db) = Inr db'"
    using assms(1) by (simp add: change_service_def put_status_alarm_after)
  have "services_links db' = L \<and> (u \<notin> fst ` set L \<longrightarrow> service db' u = service (put_status fresh now s st db) u)"
    by (rule leaf.services_rec_keeps [OF _ r]) (simp add: assms(2))
  then show ?thesis using assms(3) by simp
qed

lemma change_loop_leaf:
  assumes "u \<notin> fst ` set L"
  shows "services_links db = L \<Longrightarrow> rec_loop (change_service n fresh problem now st) ss db = Inr db' \<Longrightarrow>
    service db' u = (if u \<in> set ss then map_option (\<lambda>r. r\<lparr>sv_status := st\<rparr>) (service db u) else service db u)"
proof (induction ss arbitrary: db)
  case (Cons s ss)
  then obtain db1 where c: "change_service n fresh problem now st s db = Inr db1"
    "rec_loop (change_service n fresh problem now st) ss db1 = Inr db'" by (auto split: sum.splits)
  have "same_shape db db1" by (rule shape.change_service_keeps [OF same_shape_refl c(1)])
  then have "services_links db1 = L" using Cons.prems(1) by (simp add: same_shape_def)
  from Cons.IH [OF this c(2)] change_service_leaf [OF c(1) Cons.prems(1) assms] show ?case
    by (auto simp: option.map_comp comp_def)
qed simp

lemma update_services_leaf:
  assumes "DBupdate_services n fresh problem now trig st db = Inr db'" "triggers_on_leaves db"
    and "service db' s = Some r" "sv_triggerid r = Some trig"
  shows "sv_status r = st"
proof -
  have "same_shape db db'" by (rule shape.update_services_keeps [OF same_shape_refl assms(1)])
  from same_shape_service [OF this, of s] obtain q where q: "service db s = Some q" "sv_triggerid q = Some trig"
    using assms(3,4) by (cases "service db s") auto
  then have in_list: "(s, q) \<in> set (services db)" by (auto simp: service_def dest: map_of_SomeD)
  then have leaf: "s \<notin> fst ` set (services_links db)" using assms(2) q(2) unfolding triggers_on_leaves_def by blast
  have "s \<in> set [s. (s, r) \<leftarrow> services db, sv_triggerid r = Some trig]" using in_list q(2) by force
  then have "service db' s = Some (q\<lparr>sv_status := st\<rparr>)"
    using change_loop_leaf [OF leaf refl] assms(1) q(1) by (simp only: DBupdate_services_def) simp
  then show ?thesis using assms(3) by auto
qed


definition quiet_services :: sdb where
  "quiet_services = \<lparr>services = [(10, \<lparr>sv_status = 0, sv_algorithm = 1, sv_triggerid = None\<rparr>),
       (1, \<lparr>sv_status = 0, sv_algorithm = 0, sv_triggerid = Some 5\<rparr>), (2, \<lparr>sv_status = 0, sv_algorithm = 0, sv_triggerid = Some 8\<rparr>)],
     services_links = [(10, 1), (10, 2)], service_alarms = []\<rparr>"

lemma quiet_facts: "acyclic (set (services_links quiet_services))" "triggers_on_leaves quiet_services" "stale quiet_services = {}"
proof -
  show "acyclic (set (services_links quiet_services))"
  proof (rule acyclic_subset [OF wf_acyclic [OF wf_measure]])
    show "set (services_links quiet_services) \<subseteq> measure (\<lambda>s :: u64. if s = 10 then 0 else 1)" by (simp add: quiet_services_def)
  qed
  show "triggers_on_leaves quiet_services" by (auto simp: triggers_on_leaves_def quiet_services_def)
  show "stale quiet_services = {}"
    by (auto simp: stale_def quiet_services_def service_def computed_def DBget_service_status_def child_statuses_def service_algorithms)
qed


end
