(* ===== verification/ActionTables.thy ===== *)
theory ActionTables
  imports TriggerValue TimePeriod IpList Numbers
begin

section \<open>The tables of actions, escalations and alerts\<close>

text \<open>
  The enumerations of \<open>include/common.h\<close> and the tables that \<open>zabbix_server/actions.c\<close>,
  \<open>operations.c\<close>, \<open>escalator/escalator.c\<close> and \<open>alerter/alerter.c\<close> read
  and write, as lists of rows with the columns they use.  Columns of numbers are numbers; an enumeration
  that is stored as a number and has a default branch in the code stays a number.  \<open>env\<close> collects
  what the C library and the rest of the server answer: the clock (which does not advance during one
  call), \<open>localtime\<close>, the compile-time switch for IPv6, the condition \<open>DB_NODE\<close> on ids
  and the expansion of macros in texts.
\<close>

subsection \<open>Enumerations\<close>

datatype condition_type =
    CONDITION_TYPE_HOST_GROUP | CONDITION_TYPE_HOST | CONDITION_TYPE_TRIGGER | CONDITION_TYPE_TRIGGER_NAME
  | CONDITION_TYPE_TRIGGER_SEVERITY | CONDITION_TYPE_TRIGGER_VALUE | CONDITION_TYPE_TIME_PERIOD
  | CONDITION_TYPE_DHOST_IP | CONDITION_TYPE_DSERVICE_TYPE | CONDITION_TYPE_DSERVICE_PORT
  | CONDITION_TYPE_DSTATUS | CONDITION_TYPE_DUPTIME | CONDITION_TYPE_DVALUE | CONDITION_TYPE_HOST_TEMPLATE
  | CONDITION_TYPE_EVENT_ACKNOWLEDGED | CONDITION_TYPE_APPLICATION

text \<open>The number of a constructor, by which the queries order the conditions.\<close>

primrec condition_code :: "condition_type \<Rightarrow> nat" where
  "condition_code CONDITION_TYPE_HOST_GROUP = 0"
| "condition_code CONDITION_TYPE_HOST = 1"
| "condition_code CONDITION_TYPE_TRIGGER = 2"
| "condition_code CONDITION_TYPE_TRIGGER_NAME = 3"
| "condition_code CONDITION_TYPE_TRIGGER_SEVERITY = 4"
| "condition_code CONDITION_TYPE_TRIGGER_VALUE = 5"
| "condition_code CONDITION_TYPE_TIME_PERIOD = 6"
| "condition_code CONDITION_TYPE_DHOST_IP = 7"
| "condition_code CONDITION_TYPE_DSERVICE_TYPE = 8"
| "condition_code CONDITION_TYPE_DSERVICE_PORT = 9"
| "condition_code CONDITION_TYPE_DSTATUS = 10"
| "condition_code CONDITION_TYPE_DUPTIME = 11"
| "condition_code CONDITION_TYPE_DVALUE = 12"
| "condition_code CONDITION_TYPE_HOST_TEMPLATE = 13"
| "condition_code CONDITION_TYPE_EVENT_ACKNOWLEDGED = 14"
| "condition_code CONDITION_TYPE_APPLICATION = 15"

lemma condition_code_inject: "condition_code a = condition_code b \<Longrightarrow> a = b"
  by (cases a; cases b) simp_all

instantiation condition_type :: linorder
begin

definition less_eq_condition_type :: "condition_type \<Rightarrow> condition_type \<Rightarrow> bool" where
  "less_eq_condition_type a b \<longleftrightarrow> condition_code a \<le> condition_code b"

definition less_condition_type :: "condition_type \<Rightarrow> condition_type \<Rightarrow> bool" where
  "less_condition_type a b \<longleftrightarrow> condition_code a < condition_code b"

instance
  by standard (auto simp: less_eq_condition_type_def less_condition_type_def dest: condition_code_inject)

end

datatype condition_op =
    CONDITION_OPERATOR_EQUAL | CONDITION_OPERATOR_NOT_EQUAL | CONDITION_OPERATOR_LIKE
  | CONDITION_OPERATOR_NOT_LIKE | CONDITION_OPERATOR_IN | CONDITION_OPERATOR_MORE_EQUAL
  | CONDITION_OPERATOR_LESS_EQUAL | CONDITION_OPERATOR_NOT_IN

definition ACTION_EVAL_TYPE_AND_OR :: int where "ACTION_EVAL_TYPE_AND_OR = 0"
definition ACTION_EVAL_TYPE_AND :: int where "ACTION_EVAL_TYPE_AND = 1"
definition ACTION_EVAL_TYPE_OR :: int where "ACTION_EVAL_TYPE_OR = 2"

definition OPERATION_OBJECT_USER :: int where "OPERATION_OBJECT_USER = 0"
definition OPERATION_OBJECT_GROUP :: int where "OPERATION_OBJECT_GROUP = 1"

definition OPERATION_TYPE_MESSAGE :: int where "OPERATION_TYPE_MESSAGE = 0"
definition OPERATION_TYPE_COMMAND :: int where "OPERATION_TYPE_COMMAND = 1"
definition OPERATION_TYPE_HOST_ADD :: int where "OPERATION_TYPE_HOST_ADD = 2"
definition OPERATION_TYPE_HOST_REMOVE :: int where "OPERATION_TYPE_HOST_REMOVE = 3"
definition OPERATION_TYPE_GROUP_ADD :: int where "OPERATION_TYPE_GROUP_ADD = 4"
definition OPERATION_TYPE_GROUP_REMOVE :: int where "OPERATION_TYPE_GROUP_REMOVE = 5"
definition OPERATION_TYPE_TEMPLATE_ADD :: int where "OPERATION_TYPE_TEMPLATE_ADD = 6"
definition OPERATION_TYPE_TEMPLATE_REMOVE :: int where "OPERATION_TYPE_TEMPLATE_REMOVE = 7"

definition TRIGGER_STATUS_DISABLED :: int where "TRIGGER_STATUS_DISABLED = 1"
definition ITEM_STATUS_DISABLED :: int where "ITEM_STATUS_DISABLED = 1"
definition HOST_STATUS_NOT_MONITORED :: int where "HOST_STATUS_NOT_MONITORED = 1"
definition GROUP_STATUS_ACTIVE :: int where "GROUP_STATUS_ACTIVE = 0"
definition GROUP_STATUS_DISABLED :: int where "GROUP_STATUS_DISABLED = 1"
definition MEDIA_STATUS_ACTIVE :: int where "MEDIA_STATUS_ACTIVE = 0"
definition ACTION_STATUS_ACTIVE :: int where "ACTION_STATUS_ACTIVE = 0"
definition DOBJECT_STATUS_UP :: int where "DOBJECT_STATUS_UP = 0"

definition USER_TYPE_SUPER_ADMIN :: int where "USER_TYPE_SUPER_ADMIN = 3"
definition PERM_DENY :: int where "PERM_DENY = 0"
definition PERM_READ_ONLY :: int where "PERM_READ_ONLY = 2"
definition PERM_MAX :: int where "PERM_MAX = 3"

definition ALERT_MAX_RETRIES :: int where "ALERT_MAX_RETRIES = 3"
definition ALERT_SENDTO_LEN :: nat where "ALERT_SENDTO_LEN = 100"
definition ALERT_SUBJECT_LEN :: nat where "ALERT_SUBJECT_LEN = 255"
definition ALERT_ERROR_LEN :: nat where "ALERT_ERROR_LEN = 128"

lemmas eval_types = ACTION_EVAL_TYPE_AND_OR_def ACTION_EVAL_TYPE_AND_def ACTION_EVAL_TYPE_OR_def

lemmas operation_codes = OPERATION_OBJECT_USER_def OPERATION_OBJECT_GROUP_def
  OPERATION_TYPE_MESSAGE_def OPERATION_TYPE_COMMAND_def OPERATION_TYPE_HOST_ADD_def
  OPERATION_TYPE_HOST_REMOVE_def OPERATION_TYPE_GROUP_ADD_def OPERATION_TYPE_GROUP_REMOVE_def
  OPERATION_TYPE_TEMPLATE_ADD_def OPERATION_TYPE_TEMPLATE_REMOVE_def

lemmas table_statuses = TRIGGER_STATUS_DISABLED_def ITEM_STATUS_DISABLED_def HOST_STATUS_NOT_MONITORED_def
  GROUP_STATUS_ACTIVE_def GROUP_STATUS_DISABLED_def MEDIA_STATUS_ACTIVE_def ACTION_STATUS_ACTIVE_def

lemmas permission_codes = USER_TYPE_SUPER_ADMIN_def PERM_DENY_def PERM_READ_ONLY_def PERM_MAX_def

datatype escalation_status =
    ESCALATION_STATUS_ACTIVE | ESCALATION_STATUS_RECOVERY | ESCALATION_STATUS_SLEEP | ESCALATION_STATUS_COMPLETED

datatype alert_status = ALERT_STATUS_NOT_SENT | ALERT_STATUS_SENT | ALERT_STATUS_FAILED

datatype alert_type = ALERT_TYPE_MESSAGE | ALERT_TYPE_COMMAND

subsection \<open>Rows\<close>

text \<open>The table \<open>events\<close> and \<open>DB_EVENT\<close>: a row with what is known of its trigger.\<close>

record event_data = event_row +
  e_acknowledged :: int

record db_event = event_data +
  trigger_description :: string
  trigger_priority :: int

record trigger_info =
  tg_id :: u64
  tg_description :: string
  tg_status :: int
  tg_templateid :: u64
  tg_priority :: int

record item_info =
  it_id :: u64
  it_hostid :: u64
  it_description :: string
  it_status :: int

record host_info =
  h_id :: u64
  h_host :: string
  h_ip :: string
  h_dns :: string
  h_proxy :: u64
  h_status :: int

record dhost_row =
  dh_id :: u64
  dh_druleid :: u64
  dh_ip :: string
  dh_status :: int
  dh_lastup :: int
  dh_lastdown :: int

record dservice_row =
  ds_id :: u64
  ds_dhostid :: u64
  ds_type :: int
  ds_value :: string
  ds_port :: int
  ds_status :: int
  ds_lastup :: int
  ds_lastdown :: int

record user_row =
  u_id :: u64
  u_type :: int
  u_name :: string
  u_surname :: string
  u_alias :: string

record media_row =
  m_userid :: u64
  m_mediatypeid :: u64
  m_sendto :: string
  m_active :: int
  m_severity :: int
  m_period :: string

record condition_row =
  c_type :: condition_type
  c_op :: condition_op
  c_value :: string

record action_row =
  ac_id :: u64
  ac_name :: string
  ac_evaltype :: int
  ac_status :: int
  ac_eventsource :: event_source
  ac_esc_period :: int
  ac_def_shortdata :: string
  ac_def_longdata :: string
  ac_recovery_msg :: int
  ac_r_shortdata :: string
  ac_r_longdata :: string

record operation_row =
  op_id :: u64
  op_actionid :: u64
  op_type :: int
  op_object :: int
  op_objectid :: u64
  op_default_msg :: int
  op_shortdata :: string
  op_longdata :: string
  op_esc_period :: int
  op_evaltype :: int
  op_step_from :: int
  op_step_to :: int

record escalation_row =
  es_id :: u64
  es_actionid :: u64
  es_triggerid :: u64
  es_eventid :: u64
  es_r_eventid :: u64
  es_step :: int
  es_status :: escalation_status
  es_nextcheck :: int

record alert_row =
  al_id :: u64
  al_actionid :: u64
  al_eventid :: u64
  al_userid :: u64
  al_mediatypeid :: u64
  al_sendto :: string
  al_subject :: string
  al_message :: string
  al_clock :: int
  al_status :: alert_status
  al_type :: alert_type
  al_retries :: int
  al_error :: string
  al_step :: int

record world =
  w_triggers :: "trigger_info list"
  w_functions :: "(u64 \<times> u64) list" \<comment> \<open>itemid, triggerid\<close>
  w_items :: "item_info list"
  w_hosts :: "host_info list"
  w_hosts_groups :: "(u64 \<times> u64 \<times> u64) list" \<comment> \<open>hostgroupid, hostid, groupid\<close>
  w_groups :: "(u64 \<times> string) list"
  w_hosts_templates :: "(u64 \<times> u64 \<times> u64) list" \<comment> \<open>hosttemplateid, hostid, templateid\<close>
  w_applications :: "(u64 \<times> string) list"
  w_items_applications :: "(u64 \<times> u64) list" \<comment> \<open>applicationid, itemid\<close>
  w_events :: "event_data list"
  w_drules :: "(u64 \<times> u64) list" \<comment> \<open>druleid, proxy_hostid\<close>
  w_dhosts :: "dhost_row list"
  w_dservices :: "dservice_row list"
  w_users :: "user_row list"
  w_usrgrp :: "(u64 \<times> int) list" \<comment> \<open>usrgrpid, users_status\<close>
  w_users_groups :: "(u64 \<times> u64) list" \<comment> \<open>userid, usrgrpid\<close>
  w_rights :: "(u64 \<times> u64 \<times> int) list" \<comment> \<open>groupid, id, permission\<close>
  w_media :: "media_row list"
  w_actions :: "action_row list"
  w_conditions :: "(u64 \<times> condition_row) list" \<comment> \<open>actionid\<close>
  w_operations :: "operation_row list"
  w_opconditions :: "(u64 \<times> condition_row) list" \<comment> \<open>operationid\<close>
  w_escalations :: "escalation_row list"
  w_alerts :: "alert_row list"
  w_commands :: "string list" \<comment> \<open>handed to \<open>op_run_commands\<close>\<close>

text \<open>\<open>message_macros\<close> is \<open>substitute_macros\<close>, given the event, the action and, for
  recovery messages, the escalation; \<open>description_macros\<close> is
  \<open>substitute_simple_macros\<close> on the description of a trigger.\<close>

record env =
  clock :: int
  localtime :: "int \<Rightarrow> tm"
  have_ipv6 :: bool
  node_local :: "u64 \<Rightarrow> bool"
  description_macros :: "db_event \<Rightarrow> string \<Rightarrow> string"
  message_macros :: "db_event \<Rightarrow> u64 \<Rightarrow> escalation_row option \<Rightarrow> string \<Rightarrow> string"

text \<open>\<open>ZBX_STR2UINT64\<close> and \<open>zbx_atoui64\<close> on digits; a text without a number leaves
  the variable of the first unset and gives zero for the second.\<close>

definition str2uint64 :: "u64 \<Rightarrow> string \<Rightarrow> u64" where
  "str2uint64 unset s =
     (case scan_int s of None \<Rightarrow> unset | Some (v, _) \<Rightarrow> if v \<ge> 2 ^ 64 then - 1 else of_int v)"

subsection \<open>Rows by id\<close>

definition row_by :: "('r \<Rightarrow> u64) \<Rightarrow> 'r list \<Rightarrow> u64 \<Rightarrow> 'r option" where
  "row_by key rows i = List.find (\<lambda>r. key r = i) rows"

lemma row_by_Some: "row_by key rows i = Some r \<Longrightarrow> r \<in> set rows \<and> key r = i"
  by (auto simp: row_by_def find_Some_iff)

lemma row_by_None: "row_by key rows i = None \<longleftrightarrow> i \<notin> key ` set rows"
  by (auto simp: row_by_def find_None_iff)

lemma row_by_code [simp]:
  "row_by key [] i = None"
  "row_by key (r # rs) i = (if key r = i then Some r else row_by key rs i)"
  by (simp_all add: row_by_def)

section \<open>A small configuration\<close>

text \<open>One host with one item and one trigger, one user who is notified by one medium, and an action with two
  steps, for trying the definitions on.\<close>

definition sample_env :: env where
  "sample_env = \<lparr>clock = 1000, localtime = (\<lambda>_. \<lparr>tm_wday = 3, tm_hour = 12, tm_min = 0, tm_sec = 0\<rparr>), have_ipv6 = False,
     node_local = (\<lambda>_. True), description_macros = (\<lambda>_ s. s), message_macros = (\<lambda>_ _ _ s. s)\<rparr>"

definition sample_event :: db_event where
  "sample_event = \<lparr>e_id = 70, e_source = EVENT_SOURCE_TRIGGERS, e_object = EVENT_OBJECT_TRIGGER, e_objectid = 13, e_clock = 990,
     e_value = 1, e_acknowledged = 0, trigger_description = ''disk full'', trigger_priority = 4\<rparr>"

definition sample_operation :: operation_row where
  "sample_operation = \<lparr>op_id = 30, op_actionid = 20, op_type = 0, op_object = 0, op_objectid = 5, op_default_msg = 1,
     op_shortdata = [], op_longdata = [], op_esc_period = 0, op_evaltype = 0, op_step_from = 1, op_step_to = 2\<rparr>"

definition sample_escalation :: escalation_row where
  "sample_escalation = \<lparr>es_id = 40, es_actionid = 20, es_triggerid = 13, es_eventid = 70, es_r_eventid = 0, es_step = 0,
     es_status = ESCALATION_STATUS_ACTIVE, es_nextcheck = 0\<rparr>"

definition sample_world :: world where
  "sample_world = \<lparr>
     w_triggers = [\<lparr>tg_id = 13, tg_description = ''disk full'', tg_status = 0, tg_templateid = 0, tg_priority = 4\<rparr>],
     w_functions = [(12, 13)],
     w_items = [\<lparr>it_id = 12, it_hostid = 11, it_description = ''free'', it_status = 0\<rparr>],
     w_hosts = [\<lparr>h_id = 11, h_host = ''db1'', h_ip = ''10.0.0.1'', h_dns = [], h_proxy = 0, h_status = 0\<rparr>],
     w_hosts_groups = [(1, 11, 2)], w_groups = [(2, ''databases'')], w_hosts_templates = [],
     w_applications = [], w_items_applications = [],
     w_events = [event_data.truncate sample_event,
       (event_data.truncate sample_event)\<lparr>e_id := 71, e_value := 0\<rparr>],
     w_drules = [], w_dhosts = [], w_dservices = [],
     w_users = [\<lparr>u_id = 5, u_type = 1, u_name = ''Ann'', u_surname = ''Lee'', u_alias = ''ann''\<rparr>],
     w_usrgrp = [(3, 0)], w_users_groups = [(5, 3)], w_rights = [(3, 2, 2)],
     w_media = [\<lparr>m_userid = 5, m_mediatypeid = 1, m_sendto = ''ann@example.org'', m_active = 0, m_severity = 63,
       m_period = ''1-7,00:00-23:59''\<rparr>],
     w_actions = [\<lparr>ac_id = 20, ac_name = ''notify'', ac_evaltype = 0, ac_status = 0, ac_eventsource = EVENT_SOURCE_TRIGGERS,
       ac_esc_period = 60, ac_def_shortdata = ''problem'', ac_def_longdata = ''look'', ac_recovery_msg = 1,
       ac_r_shortdata = ''solved'', ac_r_longdata = ''well''\<rparr>],
     w_conditions = [(20, \<lparr>c_type = CONDITION_TYPE_TRIGGER_VALUE, c_op = CONDITION_OPERATOR_EQUAL, c_value = ''1''\<rparr>)],
     w_operations = [sample_operation], w_opconditions = [], w_escalations = [sample_escalation], w_alerts = [], w_commands = []\<rparr>"

end
