(* ===== verification/ActionConditions.thy ===== *)
theory ActionConditions
  imports ActionTables
begin

section \<open>Conditions of actions and operations\<close>

text \<open>
  \<open>check_action_condition\<close> and \<open>check_action_conditions\<close>
  (\<open>zabbix_server/actions.c\<close>) and \<open>check_operation_conditions\<close>
  (\<open>zabbix_server/escalator/escalator.c\<close>): whether an action applies to an event.  A join is a
  list comprehension over the tables; a loop that stops at the first match is \<open>list_ex\<close>.  The
  queries that decide on several conditions order them by type, and the loop groups them by it.
\<close>

abbreviation reply :: "bool \<Rightarrow> zret" where
  "reply b \<equiv> (if b then SUCCEED else FAIL)"

subsection \<open>The queries on the object of the event\<close>

definition trigger_items :: "world \<Rightarrow> u64 \<Rightarrow> item_info list" where
  "trigger_items w x = [it. t \<leftarrow> w_triggers w, tg_id t = x, (itemid, tid) \<leftarrow> w_functions w, tid = tg_id t,
     it \<leftarrow> w_items w, it_id it = itemid]"

definition select_groups :: "world \<Rightarrow> u64 \<Rightarrow> u64 list" where
  "select_groups w x = remdups [g. it \<leftarrow> trigger_items w x, h \<leftarrow> w_hosts w, h_id h = it_hostid it,
     (_, hid, g) \<leftarrow> w_hosts_groups w, hid = h_id h]"

definition select_templates :: "world \<Rightarrow> u64 \<Rightarrow> u64 list" where
  "select_templates w x = remdups [tpl. it \<leftarrow> trigger_items w x, (_, hid, tpl) \<leftarrow> w_hosts_templates w, hid = it_hostid it]"

definition select_hosts :: "world \<Rightarrow> u64 \<Rightarrow> u64 list" where
  "select_hosts w x = remdups [h_id h. it \<leftarrow> trigger_items w x, h \<leftarrow> w_hosts w, h_id h = it_hostid it]"

definition select_applications :: "world \<Rightarrow> u64 \<Rightarrow> string list" where
  "select_applications w x = remdups [nm. it \<leftarrow> trigger_items w x, (aid, iid) \<leftarrow> w_items_applications w, iid = it_id it,
     (a, nm) \<leftarrow> w_applications w, a = aid]"

definition select_dhost :: "world \<Rightarrow> db_event \<Rightarrow> dhost_row option" where
  "select_dhost w ev =
     (if e_object ev = EVENT_OBJECT_DHOST then row_by dh_id (w_dhosts w) (e_objectid ev)
      else case row_by ds_id (w_dservices w) (e_objectid ev) of
             None \<Rightarrow> None | Some s \<Rightarrow> row_by dh_id (w_dhosts w) (ds_dhostid s))"

text \<open>\<open>status, lastup, lastdown\<close> of a discovered host or service.\<close>

definition select_uptime :: "world \<Rightarrow> db_event \<Rightarrow> (int \<times> int \<times> int) option" where
  "select_uptime w ev =
     (if e_object ev = EVENT_OBJECT_DHOST then
        map_option (\<lambda>h. (dh_status h, dh_lastup h, dh_lastdown h)) (row_by dh_id (w_dhosts w) (e_objectid ev))
      else map_option (\<lambda>s. (ds_status s, ds_lastup s, ds_lastdown s)) (row_by ds_id (w_dservices w) (e_objectid ev)))"

subsection \<open>One condition\<close>

text \<open>\<open>strcmp (a, b) <= 0\<close>: the bytes are compared as unsigned numbers.\<close>

fun strcmp_le :: "string \<Rightarrow> string \<Rightarrow> bool" where
  "strcmp_le [] b = True"
| "strcmp_le (c # a) [] = False"
| "strcmp_le (c # a) (d # b) = (if c = d then strcmp_le a b else (of_char c :: nat) < of_char d)"

definition id_condition :: "condition_op \<Rightarrow> u64 \<Rightarrow> u64 list \<Rightarrow> zret" where
  "id_condition p v ids =
     (case p of
        CONDITION_OPERATOR_EQUAL \<Rightarrow> reply (list_ex (\<lambda>i. v = i) ids)
      | CONDITION_OPERATOR_NOT_EQUAL \<Rightarrow> reply (\<not> list_ex (\<lambda>i. v = i) ids)
      | _ \<Rightarrow> FAIL)"

definition trigger_condition :: "world \<Rightarrow> condition_op \<Rightarrow> u64 \<Rightarrow> u64 \<Rightarrow> zret" where
  "trigger_condition w p v x =
     (case p of
        CONDITION_OPERATOR_EQUAL \<Rightarrow>
          (if x = v then SUCCEED else reply (list_ex (\<lambda>t. tg_id t = x \<and> tg_templateid t = v) (w_triggers w)))
      | CONDITION_OPERATOR_NOT_EQUAL \<Rightarrow> reply (x \<noteq> v)
      | _ \<Rightarrow> FAIL)"

definition number_condition :: "condition_op \<Rightarrow> int \<Rightarrow> int \<Rightarrow> zret" where
  "number_condition p x v =
     (case p of
        CONDITION_OPERATOR_EQUAL \<Rightarrow> reply (x = v)
      | CONDITION_OPERATOR_NOT_EQUAL \<Rightarrow> reply (x \<noteq> v)
      | CONDITION_OPERATOR_MORE_EQUAL \<Rightarrow> reply (x \<ge> v)
      | CONDITION_OPERATOR_LESS_EQUAL \<Rightarrow> reply (x \<le> v)
      | _ \<Rightarrow> FAIL)"

definition application_condition :: "condition_op \<Rightarrow> string \<Rightarrow> string list \<Rightarrow> zret" where
  "application_condition p v names =
     (case p of
        CONDITION_OPERATOR_EQUAL \<Rightarrow> reply (list_ex (\<lambda>n. n = v) names)
      | CONDITION_OPERATOR_LIKE \<Rightarrow> reply (list_ex (\<lambda>n. strstr n v \<noteq> None) names)
      | CONDITION_OPERATOR_NOT_LIKE \<Rightarrow> reply (\<not> list_ex (\<lambda>n. strstr n v \<noteq> None) names)
      | _ \<Rightarrow> FAIL)"

definition value_condition :: "condition_op \<Rightarrow> string \<Rightarrow> string \<Rightarrow> zret" where
  "value_condition p v x =
     (case p of
        CONDITION_OPERATOR_EQUAL \<Rightarrow> reply (v = x)
      | CONDITION_OPERATOR_NOT_EQUAL \<Rightarrow> reply (v \<noteq> x)
      | CONDITION_OPERATOR_MORE_EQUAL \<Rightarrow> reply (strcmp_le v x)
      | CONDITION_OPERATOR_LESS_EQUAL \<Rightarrow> reply (strcmp_le x v)
      | CONDITION_OPERATOR_LIKE \<Rightarrow> reply (strstr x v \<noteq> None)
      | CONDITION_OPERATOR_NOT_LIKE \<Rightarrow> reply (strstr x v = None)
      | _ \<Rightarrow> FAIL)"

definition list_condition :: "condition_op \<Rightarrow> zret \<Rightarrow> zret" where
  "list_condition p found =
     (case p of
        CONDITION_OPERATOR_EQUAL \<Rightarrow> reply (found = SUCCEED)
      | CONDITION_OPERATOR_NOT_EQUAL \<Rightarrow> reply (found = FAIL)
      | _ \<Rightarrow> FAIL)"

definition uptime_condition :: "condition_op \<Rightarrow> int \<Rightarrow> int \<Rightarrow> int \<times> int \<times> int \<Rightarrow> zret" where
  "uptime_condition p now v r =
     (let (status, lastup, lastdown) = r; since = (if status = DOBJECT_STATUS_UP then lastup else lastdown)
      in case p of
           CONDITION_OPERATOR_LESS_EQUAL \<Rightarrow> reply (since \<noteq> 0 \<and> now - since \<le> v)
         | CONDITION_OPERATOR_MORE_EQUAL \<Rightarrow> reply (since \<noteq> 0 \<and> now - since \<ge> v)
         | _ \<Rightarrow> FAIL)"

definition trigger_event_condition :: "u64 \<Rightarrow> env \<Rightarrow> world \<Rightarrow> db_event \<Rightarrow> condition_row \<Rightarrow> zret" where
  "trigger_event_condition unset en w ev c =
     (case c_type c of
        CONDITION_TYPE_HOST_GROUP \<Rightarrow> id_condition (c_op c) (str2uint64 unset (c_value c)) (select_groups w (e_objectid ev))
      | CONDITION_TYPE_HOST_TEMPLATE \<Rightarrow> id_condition (c_op c) (str2uint64 0 (c_value c)) (select_templates w (e_objectid ev))
      | CONDITION_TYPE_HOST \<Rightarrow> id_condition (c_op c) (str2uint64 unset (c_value c)) (select_hosts w (e_objectid ev))
      | CONDITION_TYPE_TRIGGER \<Rightarrow> trigger_condition w (c_op c) (str2uint64 unset (c_value c)) (e_objectid ev)
      | CONDITION_TYPE_TRIGGER_NAME \<Rightarrow>
          (let s = description_macros en ev (trigger_description ev)
           in case c_op c of
                CONDITION_OPERATOR_LIKE \<Rightarrow> reply (strstr s (c_value c) \<noteq> None)
              | CONDITION_OPERATOR_NOT_LIKE \<Rightarrow> reply (strstr s (c_value c) = None)
              | _ \<Rightarrow> FAIL)
      | CONDITION_TYPE_TRIGGER_SEVERITY \<Rightarrow> number_condition (c_op c) (trigger_priority ev) (atoi (c_value c))
      | CONDITION_TYPE_TRIGGER_VALUE \<Rightarrow>
          (case c_op c of CONDITION_OPERATOR_EQUAL \<Rightarrow> reply (e_value ev = atoi (c_value c)) | _ \<Rightarrow> FAIL)
      | CONDITION_TYPE_TIME_PERIOD \<Rightarrow>
          (let inside = check_time_period (localtime en) (clock en) (c_value c) 0
           in case c_op c of
                CONDITION_OPERATOR_IN \<Rightarrow> reply inside
              | CONDITION_OPERATOR_NOT_IN \<Rightarrow> reply (\<not> inside)
              | _ \<Rightarrow> FAIL)
      | CONDITION_TYPE_EVENT_ACKNOWLEDGED \<Rightarrow>
          (case row_by e_id (w_events w) (e_id ev) of
             None \<Rightarrow> FAIL
           | Some r \<Rightarrow> (case c_op c of
                 CONDITION_OPERATOR_EQUAL \<Rightarrow> reply (e_acknowledged r = atoi (c_value c)) | _ \<Rightarrow> FAIL))
      | CONDITION_TYPE_APPLICATION \<Rightarrow> application_condition (c_op c) (c_value c) (select_applications w (e_objectid ev))
      | _ \<Rightarrow> FAIL)"

definition discovery_event_condition :: "env \<Rightarrow> world \<Rightarrow> db_event \<Rightarrow> condition_row \<Rightarrow> zret" where
  "discovery_event_condition en w ev c =
     (let known = (e_object ev = EVENT_OBJECT_DHOST \<or> e_object ev = EVENT_OBJECT_DSERVICE);
          service = (e_object ev = EVENT_OBJECT_DSERVICE);
          srv = row_by ds_id (w_dservices w) (e_objectid ev)
      in case c_type c of
           CONDITION_TYPE_DVALUE \<Rightarrow>
             (if service then case srv of None \<Rightarrow> FAIL | Some r \<Rightarrow> value_condition (c_op c) (c_value c) (ds_value r)
              else FAIL)
         | CONDITION_TYPE_DHOST_IP \<Rightarrow>
             (if known then
                case select_dhost w ev of
                  None \<Rightarrow> FAIL | Some h \<Rightarrow> list_condition (c_op c) (ip_in_list (have_ipv6 en) (c_value c) (dh_ip h))
              else FAIL)
         | CONDITION_TYPE_DSERVICE_TYPE \<Rightarrow>
             (case c_op c of
                CONDITION_OPERATOR_EQUAL \<Rightarrow>
                  reply (list_ex (\<lambda>r. ds_type r = atoi (c_value c) \<and> ds_id r = e_objectid ev) (w_dservices w))
              | _ \<Rightarrow> FAIL)
         | CONDITION_TYPE_DSTATUS \<Rightarrow>
             (if known then
                case c_op c of
                  CONDITION_OPERATOR_EQUAL \<Rightarrow> reply (atoi (c_value c) = e_value ev)
                | CONDITION_OPERATOR_NOT_EQUAL \<Rightarrow> reply (atoi (c_value c) \<noteq> e_value ev)
                | _ \<Rightarrow> FAIL
              else FAIL)
         | CONDITION_TYPE_DUPTIME \<Rightarrow>
             (if known then
                case select_uptime w ev of
                  None \<Rightarrow> FAIL | Some r \<Rightarrow> uptime_condition (c_op c) (clock en) (atoi (c_value c)) r
              else FAIL)
         | CONDITION_TYPE_DSERVICE_PORT \<Rightarrow>
             (if service then case srv of
                  None \<Rightarrow> FAIL | Some r \<Rightarrow> list_condition (c_op c) (int_in_list (c_value c) (ds_port r))
              else FAIL)
         | _ \<Rightarrow> FAIL)"

definition check_action_condition :: "u64 \<Rightarrow> env \<Rightarrow> world \<Rightarrow> db_event \<Rightarrow> condition_row \<Rightarrow> zret" where
  "check_action_condition unset en w ev c =
     (case e_source ev of
        EVENT_SOURCE_TRIGGERS \<Rightarrow> trigger_event_condition unset en w ev c
      | EVENT_SOURCE_DISCOVERY \<Rightarrow> discovery_event_condition en w ev c)"

subsection \<open>All conditions\<close>

text \<open>The loop of both functions.  They differ in a type of evaluation that does not exist: the
  operation leaves the loop, the action goes on.  \<open>old\<close> is \<open>old_type\<close>, the
  value \<open>- 1\<close> is \<open>None\<close>.\<close>

fun conditions_loop :: "bool \<Rightarrow> int \<Rightarrow> (condition_row \<Rightarrow> zret) \<Rightarrow> condition_row list \<Rightarrow> condition_type option \<Rightarrow> zret \<Rightarrow> zret" where
  "conditions_loop leaves et check [] old ret = ret"
| "conditions_loop leaves et check (c # cs) old ret =
     (if et = ACTION_EVAL_TYPE_AND_OR then
        (if old = Some (c_type c) then
           conditions_loop leaves et check cs (Some (c_type c)) (if check c = SUCCEED then SUCCEED else ret)
         else if ret = FAIL then ret
         else conditions_loop leaves et check cs (Some (c_type c)) (if check c = FAIL then FAIL else ret))
      else if et = ACTION_EVAL_TYPE_AND then
        (if check c = FAIL then FAIL else conditions_loop leaves et check cs old SUCCEED)
      else if et = ACTION_EVAL_TYPE_OR then
        (if check c = SUCCEED then SUCCEED else conditions_loop leaves et check cs old FAIL)
      else if leaves then FAIL else conditions_loop leaves et check cs old FAIL)"

text \<open>\<open>order by conditiontype\<close>.\<close>

definition rows_of :: "(u64 \<times> condition_row) list \<Rightarrow> u64 \<Rightarrow> condition_row list" where
  "rows_of rows i = sort_key c_type [c. (k, c) \<leftarrow> rows, k = i]"

definition check_action_conditions :: "u64 \<Rightarrow> env \<Rightarrow> world \<Rightarrow> db_event \<Rightarrow> u64 \<Rightarrow> int \<Rightarrow> zret" where
  "check_action_conditions unset en w ev actionid evaltype =
     (let rows = rows_of (w_conditions w) actionid;
          ret = conditions_loop False evaltype (check_action_condition unset en w ev) rows None SUCCEED
      in if rows = [] then SUCCEED else ret)"

definition check_operation_conditions :: "u64 \<Rightarrow> env \<Rightarrow> world \<Rightarrow> db_event \<Rightarrow> u64 \<Rightarrow> int \<Rightarrow> zret" where
  "check_operation_conditions unset en w ev operationid evaltype =
     conditions_loop True evaltype (check_action_condition unset en w ev) (rows_of (w_opconditions w) operationid) None SUCCEED"

section \<open>What the conditions mean\<close>

lemma strcmp_le_refl [simp]: "strcmp_le a a"
  by (induction a) simp_all

lemma strcmp_le_antisym: "strcmp_le a b \<Longrightarrow> strcmp_le b a \<Longrightarrow> a = b"
  by (induction a b rule: strcmp_le.induct) (auto split: if_splits elim: strcmp_le.elims)

lemma strcmp_le_total: "strcmp_le a b \<or> strcmp_le b a"
proof (induction a b rule: strcmp_le.induct)
  case (3 c a d b)
  have "c \<noteq> d \<Longrightarrow> (of_char c :: nat) \<noteq> of_char d" by simp
  with 3 show ?case by (cases "c = d") (auto simp: neq_iff less_char_def)
qed simp_all

lemma strcmp_le_trans: "strcmp_le a b \<Longrightarrow> strcmp_le b c \<Longrightarrow> strcmp_le a c"
proof (induction a arbitrary: b c)
  case (Cons x a)
  then obtain y b' where b: "b = y # b'" by (cases b) auto
  with Cons.prems obtain z c' where c: "c = z # c'" by (cases c) auto
  show ?case using Cons b c by (auto split: if_splits)
qed simp

text \<open>Every condition answers yes or no.\<close>

lemmas condition_defs = check_action_condition_def trigger_event_condition_def discovery_event_condition_def
  id_condition_def trigger_condition_def number_condition_def application_condition_def value_condition_def
  list_condition_def uptime_condition_def

lemma helper_condition_cases:
  "id_condition p v ids \<in> {SUCCEED, FAIL}" "trigger_condition w p v x \<in> {SUCCEED, FAIL}"
  "number_condition p i j \<in> {SUCCEED, FAIL}" "application_condition p n ns \<in> {SUCCEED, FAIL}"
  "value_condition p n m \<in> {SUCCEED, FAIL}" "list_condition p f \<in> {SUCCEED, FAIL}"
  "uptime_condition p i j r \<in> {SUCCEED, FAIL}"
  by (cases p; simp add: condition_defs Let_def split: prod.split)+

lemma trigger_event_condition_cases: "trigger_event_condition u en w ev c \<in> {SUCCEED, FAIL}"
  using helper_condition_cases
  by (cases "c_type c"; cases "c_op c") (simp_all add: trigger_event_condition_def Let_def split: option.split)

lemma discovery_event_condition_cases: "discovery_event_condition en w ev c \<in> {SUCCEED, FAIL}"
  using helper_condition_cases
  by (cases "c_type c"; cases "c_op c") (simp_all add: discovery_event_condition_def Let_def split: option.split)

lemma check_action_condition_cases:
  "check_action_condition u en w ev c = SUCCEED \<or> check_action_condition u en w ev c = FAIL"
  using trigger_event_condition_cases discovery_event_condition_cases
  by (simp add: check_action_condition_def split: event_source.split)

subsection \<open>The loop over the conditions\<close>

text \<open>The meaning of the three types of evaluation, on the set of the conditions: all of them, at least
  one, or for every type that occurs at least one of that type.\<close>

definition conditions_hold :: "int \<Rightarrow> ('c \<Rightarrow> condition_type) \<Rightarrow> ('c \<Rightarrow> bool) \<Rightarrow> 'c set \<Rightarrow> bool" where
  "conditions_hold et ty holds cs \<longleftrightarrow>
     (if et = ACTION_EVAL_TYPE_AND_OR then \<forall>k \<in> ty ` cs. \<exists>c \<in> cs. ty c = k \<and> holds c
      else if et = ACTION_EVAL_TYPE_AND then \<forall>c \<in> cs. holds c
      else cs = {} \<or> et = ACTION_EVAL_TYPE_OR \<and> (\<exists>c \<in> cs. holds c))"

lemma and_or_loop:
  assumes yes_no: "\<And>c. check c = SUCCEED \<or> check c = FAIL"
  shows "sorted (map c_type cs) \<Longrightarrow> (\<And>k. old = Some k \<Longrightarrow> \<forall>c \<in> set cs. k \<le> c_type c) \<Longrightarrow> ret = SUCCEED \<or> ret = FAIL \<Longrightarrow>
    conditions_loop lv ACTION_EVAL_TYPE_AND_OR check cs old ret = SUCCEED \<longleftrightarrow>
      (ret = SUCCEED \<or> (\<exists>c \<in> set cs. old = Some (c_type c) \<and> check c = SUCCEED))
      \<and> (\<forall>c \<in> set cs. old \<noteq> Some (c_type c) \<longrightarrow> (\<exists>d \<in> set cs. c_type d = c_type c \<and> check d = SUCCEED))"
proof (induction cs arbitrary: old ret)
  case (Cons c cs)
  note IH = Cons.IH [of "Some (c_type c)"]
  have below: "\<forall>d \<in> set cs. c_type c \<le> c_type d" and s: "sorted (map c_type cs)" using Cons.prems(1) by auto
  show ?case
  proof (cases "old = Some (c_type c)")
    case True
    then show ?thesis using IH [of "if check c = SUCCEED then SUCCEED else ret"] Cons.prems(3) below s by auto
  next
    case False
    have other: "old \<noteq> Some (c_type d)" if "d \<in> set (c # cs)" for d
    proof
      assume o: "old = Some (c_type d)"
      then have "c_type d \<le> c_type c" using Cons.prems(2) by auto
      then show False using below that False o by auto
    qed
    show ?thesis
    proof (cases "ret = FAIL")
      case True
      then show ?thesis using False other by (auto simp: eval_types)
    next
      case ok: False
      have "conditions_loop lv ACTION_EVAL_TYPE_AND_OR check (c # cs) old ret
          = conditions_loop lv ACTION_EVAL_TYPE_AND_OR check cs (Some (c_type c)) (check c)"
        using False ok Cons.prems(3) yes_no [of c] by (auto simp: eval_types)
      then show ?thesis using IH [of "check c"] below s yes_no other ok Cons.prems(3) by (auto simp: eval_types)
    qed
  qed
qed auto

lemma and_loop:
  "conditions_loop lv ACTION_EVAL_TYPE_AND check cs old SUCCEED = (if \<exists>c \<in> set cs. check c = FAIL then FAIL else SUCCEED)"
  by (induction cs) (simp_all add: eval_types)

lemma or_loop:
  "conditions_loop lv ACTION_EVAL_TYPE_OR check cs old FAIL = (if \<exists>c \<in> set cs. check c = SUCCEED then SUCCEED else FAIL)"
  by (induction cs) (simp_all add: eval_types)

lemma unknown_loop:
  "et \<notin> {ACTION_EVAL_TYPE_AND_OR, ACTION_EVAL_TYPE_AND, ACTION_EVAL_TYPE_OR} \<Longrightarrow>
    conditions_loop lv et check cs old FAIL = FAIL"
  by (induction cs; cases lv) simp_all

lemma conditions_loop_iff:
  assumes yes_no: "\<And>c. check c = SUCCEED \<or> check c = FAIL" and s: "sorted (map c_type cs)"
  shows "conditions_loop lv et check cs None SUCCEED = SUCCEED
    \<longleftrightarrow> conditions_hold et c_type (\<lambda>c. check c = SUCCEED) (set cs)"
proof (cases cs)
  case (Cons c cs')
  have no: "check d = FAIL \<longleftrightarrow> check d \<noteq> SUCCEED" for d using yes_no [of d] by auto
  consider "et = ACTION_EVAL_TYPE_AND_OR" | "et = ACTION_EVAL_TYPE_AND" | "et = ACTION_EVAL_TYPE_OR"
    | "et \<notin> {ACTION_EVAL_TYPE_AND_OR, ACTION_EVAL_TYPE_AND, ACTION_EVAL_TYPE_OR}" by auto
  then show ?thesis
  proof cases
    case 1
    then show ?thesis using and_or_loop [of check cs None SUCCEED lv] yes_no s by (simp add: conditions_hold_def)
  next
    case 2
    then show ?thesis unfolding 2 and_loop using no by (auto simp: conditions_hold_def eval_types)
  next
    case 3
    have "conditions_loop lv ACTION_EVAL_TYPE_OR check (c # cs') None SUCCEED
        = conditions_loop lv ACTION_EVAL_TYPE_OR check (c # cs') None FAIL" by (simp add: eval_types)
    then show ?thesis unfolding Cons 3 or_loop
      by (auto simp: conditions_hold_def or_loop eval_types split: if_splits)
  next
    case 4
    then have "conditions_loop lv et check (c # cs') None SUCCEED = FAIL" by (simp add: unknown_loop)
    then show ?thesis using 4 Cons by (auto simp: conditions_hold_def)
  qed
qed (simp add: conditions_hold_def)

lemma set_rows_of: "set (rows_of rows i) = {c. (i, c) \<in> set rows}"
  by (auto simp: rows_of_def)

lemma sorted_rows_of: "sorted (map c_type (rows_of rows i))"
  by (simp add: rows_of_def)

text \<open>C17: an action or an operation applies to an event exactly when its conditions hold as its type of
  evaluation says: all of them, one of them, or for each type of condition one of that type; without
  conditions it applies.  The answer does not depend on the order in which the database returns the
  conditions of one type.
\<close>

theorem check_conditions_correct:
  "(check_action_conditions u en w ev a et = SUCCEED \<longleftrightarrow>
     conditions_hold et c_type (\<lambda>c. check_action_condition u en w ev c = SUCCEED) {c. (a, c) \<in> set (w_conditions w)})
   \<and> (check_operation_conditions u en w ev a et = SUCCEED \<longleftrightarrow>
     conditions_hold et c_type (\<lambda>c. check_action_condition u en w ev c = SUCCEED) {c. (a, c) \<in> set (w_opconditions w)})"
proof -
  note loop = conditions_loop_iff [OF check_action_condition_cases sorted_rows_of]
  have "rows_of (w_conditions w) a = [] \<Longrightarrow>
      conditions_hold et c_type (\<lambda>c. check_action_condition u en w ev c = SUCCEED) {c. (a, c) \<in> set (w_conditions w)}"
    unfolding set_rows_of [symmetric] by (simp add: conditions_hold_def)
  then show ?thesis
    by (auto simp: check_action_conditions_def check_operation_conditions_def Let_def loop set_rows_of)
qed

lemma check_conditions_cases:
  "check_action_conditions u en w ev a et \<in> {SUCCEED, FAIL} \<and> check_operation_conditions u en w ev a et \<in> {SUCCEED, FAIL}"
proof -
  have "conditions_loop lv et check cs old ret \<in> {SUCCEED, FAIL}" if "ret \<in> {SUCCEED, FAIL}" for lv check cs old ret
    using that by (induction lv et check cs old ret rule: conditions_loop.induct) auto
  then show ?thesis by (simp add: check_action_conditions_def check_operation_conditions_def Let_def)
qed

subsection \<open>Conditions on the hosts of a trigger\<close>

definition trigger_on :: "world \<Rightarrow> u64 \<Rightarrow> item_info \<Rightarrow> bool" where
  "trigger_on w x it \<longleftrightarrow> x \<in> tg_id ` set (w_triggers w) \<and> it \<in> set (w_items w) \<and> (it_id it, x) \<in> set (w_functions w)"

lemma set_trigger_items: "set (trigger_items w x) = {it. trigger_on w x it}"
  by (auto simp: trigger_items_def trigger_on_def image_iff)

lemma set_select_groups:
  "set (select_groups w x) = {g. \<exists>it h k. trigger_on w x it \<and> h \<in> set (w_hosts w) \<and> h_id h = it_hostid it
     \<and> (k, h_id h, g) \<in> set (w_hosts_groups w)}"
  by (fastforce simp: select_groups_def set_trigger_items)

lemma set_select_templates:
  "set (select_templates w x) = {p. \<exists>it k. trigger_on w x it \<and> (k, it_hostid it, p) \<in> set (w_hosts_templates w)}"
  by (fastforce simp: select_templates_def set_trigger_items)

lemma set_select_hosts:
  "set (select_hosts w x) = {i. \<exists>it h. trigger_on w x it \<and> h \<in> set (w_hosts w) \<and> h_id h = i \<and> it_hostid it = i}"
  by (auto simp: select_hosts_def set_trigger_items) (metis (mono_tags, lifting) IntI disjoint_iff mem_Collect_eq)

lemma id_condition_iff:
  "id_condition CONDITION_OPERATOR_EQUAL v ids = SUCCEED \<longleftrightarrow> v \<in> set ids"
  "id_condition CONDITION_OPERATOR_NOT_EQUAL v ids = SUCCEED \<longleftrightarrow> v \<notin> set ids"
  by (auto simp: id_condition_def list_ex_iff)

subsection \<open>A condition and its negation\<close>

text \<open>The pairs of operators that negate each other and that the code knows for a type.\<close>

fun negations :: "condition_type \<Rightarrow> (condition_op \<times> condition_op) list" where
  "negations CONDITION_TYPE_HOST_GROUP = [(CONDITION_OPERATOR_EQUAL, CONDITION_OPERATOR_NOT_EQUAL)]"
| "negations CONDITION_TYPE_HOST_TEMPLATE = [(CONDITION_OPERATOR_EQUAL, CONDITION_OPERATOR_NOT_EQUAL)]"
| "negations CONDITION_TYPE_HOST = [(CONDITION_OPERATOR_EQUAL, CONDITION_OPERATOR_NOT_EQUAL)]"
| "negations CONDITION_TYPE_TRIGGER_NAME = [(CONDITION_OPERATOR_LIKE, CONDITION_OPERATOR_NOT_LIKE)]"
| "negations CONDITION_TYPE_TRIGGER_SEVERITY = [(CONDITION_OPERATOR_EQUAL, CONDITION_OPERATOR_NOT_EQUAL)]"
| "negations CONDITION_TYPE_TIME_PERIOD = [(CONDITION_OPERATOR_IN, CONDITION_OPERATOR_NOT_IN)]"
| "negations CONDITION_TYPE_APPLICATION = [(CONDITION_OPERATOR_LIKE, CONDITION_OPERATOR_NOT_LIKE)]"
| "negations CONDITION_TYPE_DVALUE = [(CONDITION_OPERATOR_EQUAL, CONDITION_OPERATOR_NOT_EQUAL),
     (CONDITION_OPERATOR_LIKE, CONDITION_OPERATOR_NOT_LIKE)]"
| "negations CONDITION_TYPE_DHOST_IP = [(CONDITION_OPERATOR_EQUAL, CONDITION_OPERATOR_NOT_EQUAL)]"
| "negations CONDITION_TYPE_DSTATUS = [(CONDITION_OPERATOR_EQUAL, CONDITION_OPERATOR_NOT_EQUAL)]"
| "negations CONDITION_TYPE_DSERVICE_PORT = [(CONDITION_OPERATOR_EQUAL, CONDITION_OPERATOR_NOT_EQUAL)]"
| "negations _ = []"

text \<open>The condition looks at something the event has.\<close>

definition subject_known :: "world \<Rightarrow> db_event \<Rightarrow> condition_type \<Rightarrow> bool" where
  "subject_known w ev k \<longleftrightarrow>
     (case e_source ev of
        EVENT_SOURCE_TRIGGERS \<Rightarrow> k \<in> {CONDITION_TYPE_HOST_GROUP, CONDITION_TYPE_HOST_TEMPLATE, CONDITION_TYPE_HOST,
          CONDITION_TYPE_TRIGGER_NAME, CONDITION_TYPE_TRIGGER_SEVERITY, CONDITION_TYPE_TIME_PERIOD, CONDITION_TYPE_APPLICATION}
      | EVENT_SOURCE_DISCOVERY \<Rightarrow> (
          if k \<in> {CONDITION_TYPE_DVALUE, CONDITION_TYPE_DSERVICE_PORT} then
            e_object ev = EVENT_OBJECT_DSERVICE \<and> row_by ds_id (w_dservices w) (e_objectid ev) \<noteq> None
          else if k = CONDITION_TYPE_DHOST_IP then e_object ev \<noteq> EVENT_OBJECT_TRIGGER \<and> select_dhost w ev \<noteq> None
          else k = CONDITION_TYPE_DSTATUS \<and> e_object ev \<noteq> EVENT_OBJECT_TRIGGER))"

lemma ranges_loop_cases: "ranges_loop m s = SUCCEED \<or> ranges_loop m s = FAIL"
proof (induction m s rule: ranges_loop.induct)
  case (1 m s)
  then show ?case by (subst (1 2) ranges_loop.simps) (auto split: option.split)
qed

lemma ip_in_list_cases: "ip_in_list b l s = SUCCEED \<or> ip_in_list b l s = FAIL"
  using ranges_loop_cases by (auto simp: ip_in_list_def ip_in_list_ipv6_def Let_def split: option.split)

lemma int_in_list_cases: "int_in_list l v = SUCCEED \<or> int_in_list l v = FAIL"
proof (induction l v rule: int_in_list.induct)
  case (1 l v)
  then show ?case by (subst (1 2) int_in_list.simps) (auto simp: Let_def split: option.split)
qed

lemma list_condition_negated:
  "found = SUCCEED \<or> found = FAIL \<Longrightarrow>
    list_condition CONDITION_OPERATOR_EQUAL found = SUCCEED \<longleftrightarrow> list_condition CONDITION_OPERATOR_NOT_EQUAL found = FAIL"
  by (auto simp: list_condition_def)



text \<open>A trigger that comes from a template satisfies both: that it is the trigger of the template (by its
  template) and that it is not (by its id).\<close>

lemma templated_trigger_both:
  assumes "t \<in> set (w_triggers w)" and "tg_id t \<noteq> tg_templateid t"
  shows "trigger_condition w CONDITION_OPERATOR_EQUAL (tg_templateid t) (tg_id t) = SUCCEED
    \<and> trigger_condition w CONDITION_OPERATOR_NOT_EQUAL (tg_templateid t) (tg_id t) = SUCCEED"
  using assms by (auto simp: trigger_condition_def list_ex_iff)

end
