(* ===== verification/Escalator.thy ===== *)
theory Escalator
  imports ActionConditions
begin

section \<open>Escalations\<close>

text \<open>
  \<open>zabbix_server/escalator/escalator.c\<close> and the three routines on the table
  \<open>escalations\<close> of \<open>libs/zbxdbhigh/db.c\<close>.  An escalation carries out the operations of
  an action step by step; when the problem is over it is turned into a recovery.  The texts stored in
  \<open>alerts\<close> are those the database reads back from the escaped literals.  \<open>fresh\<close> is the id
  \<open>DBget_maxid\<close> gives for a table of that contents.
\<close>

subsection \<open>Permissions\<close>

definition check_perm2system :: "world \<Rightarrow> u64 \<Rightarrow> zret" where
  "check_perm2system w userid =
     (if length [g. (g, st) \<leftarrow> w_usrgrp w, (u, ug) \<leftarrow> w_users_groups w, u = userid, g = ug, st = GROUP_STATUS_DISABLED] > 0
      then FAIL else SUCCEED)"

definition get_host_permision :: "world \<Rightarrow> u64 \<Rightarrow> u64 \<Rightarrow> int" where
  "get_host_permision w userid hostid =
     (case row_by u_id (w_users w) userid of
        None \<Rightarrow> PERM_DENY
      | Some usr \<Rightarrow>
          if u_type usr = - 1 then PERM_DENY
          else if u_type usr = USER_TYPE_SUPER_ADMIN then PERM_MAX
          else case [p. (g, i, p) \<leftarrow> w_rights w, (_, hid, hg) \<leftarrow> w_hosts_groups w, i = hg, hid = hostid,
                       (u, ug) \<leftarrow> w_users_groups w, g = ug, u = userid] of
                 [] \<Rightarrow> PERM_DENY
               | p # ps \<Rightarrow> fold min ps p)"

definition get_trigger_permision :: "world \<Rightarrow> u64 \<Rightarrow> u64 \<Rightarrow> int" where
  "get_trigger_permision w userid trig =
     fold (\<lambda>hostid perm. let host_perm = get_host_permision w userid hostid in if perm < host_perm then host_perm else perm)
       (remdups [it_hostid it. f \<leftarrow> w_functions w, snd f = trig, it \<leftarrow> w_items w, it_id it = fst f])
       PERM_DENY"

subsection \<open>The messages of one step\<close>

type_synonym user_msg = "u64 \<times> string \<times> string"

definition add_user_msg :: "world \<Rightarrow> u64 \<Rightarrow> string \<Rightarrow> string \<Rightarrow> u64 \<Rightarrow> user_msg list \<Rightarrow> user_msg list" where
  "add_user_msg w trig subject message userid msgs =
     (if check_perm2system w userid \<noteq> SUCCEED then msgs
      else if PERM_READ_ONLY > get_trigger_permision w userid trig then msgs
      else if list_ex (\<lambda>(u, s, m). u = userid \<and> s = subject \<and> m = message) msgs then msgs
      else (userid, subject, message) # msgs)"

definition group_users :: "world \<Rightarrow> u64 \<Rightarrow> u64 list" where
  "group_users w grp = [u. (u, ug) \<leftarrow> w_users_groups w, ug = grp, (g, st) \<leftarrow> w_usrgrp w, g = ug, st = GROUP_STATUS_ACTIVE]"

definition add_object_msg :: "world \<Rightarrow> u64 \<Rightarrow> operation_row \<Rightarrow> string \<Rightarrow> string \<Rightarrow> user_msg list \<Rightarrow> user_msg list" where
  "add_object_msg w trig oper subject message msgs =
     (if op_object oper = OPERATION_OBJECT_USER then add_user_msg w trig subject message (op_objectid oper) msgs
      else if op_object oper = OPERATION_OBJECT_GROUP then
        fold (add_user_msg w trig subject message) (group_users w (op_objectid oper)) msgs
      else msgs)"

subsection \<open>Alerts\<close>

text \<open>The part of \<open>DB_ACTION\<close> that the escalator fills in.\<close>

record db_action =
  actionid :: u64
  esc_period :: int
  shortdata :: string
  longdata :: string
  recovery_msg :: int

type_synonym fresh_id = "alert_row list \<Rightarrow> u64"

definition stored :: "nat \<Rightarrow> string \<Rightarrow> string" where
  "stored n s = take n (drop_cr s)"

definition insert_alert :: "fresh_id \<Rightarrow> alert_row \<Rightarrow> world \<Rightarrow> world" where
  "insert_alert fresh al w = w\<lparr>w_alerts := w_alerts w @ [al\<lparr>al_id := fresh (w_alerts w)\<rparr>]\<rparr>"

definition blank_alert :: "env \<Rightarrow> escalation_row \<Rightarrow> db_event \<Rightarrow> db_action \<Rightarrow> alert_row" where
  "blank_alert en esc ev act =
     \<lparr>al_id = 0, al_actionid = actionid act, al_eventid = e_id ev, al_userid = 0, al_mediatypeid = 0, al_sendto = [],
      al_subject = [], al_message = [], al_clock = clock en, al_status = ALERT_STATUS_NOT_SENT,
      al_type = ALERT_TYPE_MESSAGE, al_retries = 0, al_error = [], al_step = es_step esc\<rparr>"

definition add_command_alert :: "env \<Rightarrow> fresh_id \<Rightarrow> escalation_row \<Rightarrow> db_event \<Rightarrow> db_action \<Rightarrow> string \<Rightarrow> world \<Rightarrow> world" where
  "add_command_alert en fresh esc ev act command w =
     (let w1 = insert_alert fresh ((blank_alert en esc ev act)\<lparr>al_message := drop_cr command,
                 al_status := ALERT_STATUS_SENT, al_type := ALERT_TYPE_COMMAND\<rparr>) w
      in w1\<lparr>w_commands := w_commands w1 @ [command]\<rparr>)"

text \<open>\<open>(1 << priority) & severity\<close>; the priority is between 0 and 5.\<close>

definition severity_matches :: "int \<Rightarrow> int \<Rightarrow> bool" where
  "severity_matches priority severity \<longleftrightarrow> bit severity (nat priority)"

definition media_matches :: "env \<Rightarrow> db_event \<Rightarrow> media_row \<Rightarrow> bool" where
  "media_matches en ev md \<longleftrightarrow> severity_matches (trigger_priority ev) (m_severity md)
     \<and> check_time_period (localtime en) (clock en) (m_period md) 0"

definition add_media_alert :: "env \<Rightarrow> fresh_id \<Rightarrow> db_event \<Rightarrow> alert_row \<Rightarrow> media_row \<Rightarrow> world \<Rightarrow> world" where
  "add_media_alert en fresh ev al md w =
     (if \<not> severity_matches (trigger_priority ev) (m_severity md) then w
      else if \<not> check_time_period (localtime en) (clock en) (m_period md) 0 then w
      else insert_alert fresh (al\<lparr>al_mediatypeid := m_mediatypeid md, al_sendto := stored ALERT_SENDTO_LEN (m_sendto md)\<rparr>) w)"

definition no_media_error :: "world \<Rightarrow> u64 \<Rightarrow> string" where
  "no_media_error w userid =
     (case row_by u_id (w_users w) userid of
        None \<Rightarrow> ''No media defined''
      | Some usr \<Rightarrow> take 2047 (''No media defined for user '' @ u_name usr @ '' '' @ u_surname usr @ '' ('' @ u_alias usr @ '')''))"

definition add_message_alert :: "env \<Rightarrow> fresh_id \<Rightarrow> escalation_row \<Rightarrow> db_event \<Rightarrow> db_action \<Rightarrow> user_msg \<Rightarrow> world \<Rightarrow> world" where
  "add_message_alert en fresh esc ev act msg w =
     (let (userid, subject, message) = msg;
          medias = filter (\<lambda>md. m_active md = MEDIA_STATUS_ACTIVE \<and> m_userid md = userid) (w_media w);
          al = (blank_alert en esc ev act)\<lparr>al_userid := userid, al_subject := stored ALERT_SUBJECT_LEN subject,
                 al_message := drop_cr message\<rparr>
      in if medias = [] then
           insert_alert fresh (al\<lparr>al_retries := ALERT_MAX_RETRIES, al_status := ALERT_STATUS_FAILED,
             al_error := drop_cr (no_media_error w userid)\<rparr>) w
         else fold (add_media_alert en fresh ev al) medias w)"

subsection \<open>The operations of a step\<close>

definition shorter_period :: "int \<Rightarrow> int \<Rightarrow> int" where
  "shorter_period old p = (if old = 0 \<or> old > p then p else old)"

definition operation_step :: "u64 \<Rightarrow> env \<Rightarrow> fresh_id \<Rightarrow> escalation_row \<Rightarrow> db_event \<Rightarrow> db_action \<Rightarrow> operation_row
    \<Rightarrow> int \<times> user_msg list \<times> world \<Rightarrow> int \<times> user_msg list \<times> world" where
  "operation_step u en fresh esc ev act oper st =
     (let (period, msgs, w) = st in
      if check_operation_conditions u en w ev (op_id oper) (op_evaltype oper) = SUCCEED then
        (let sd = message_macros en ev (actionid act) None (op_shortdata oper);
             ld = message_macros en ev (actionid act) None (op_longdata oper);
             period1 = shorter_period period (op_esc_period oper)
         in if op_type oper = OPERATION_TYPE_MESSAGE then
              (period1,
               (if op_default_msg oper = 0 then add_object_msg w (e_objectid ev) oper sd ld msgs
                else add_object_msg w (e_objectid ev) oper (shortdata act) (longdata act) msgs), w)
            else if op_type oper = OPERATION_TYPE_COMMAND then (period1, msgs, add_command_alert en fresh esc ev act ld w)
            else (period1, msgs, w))
      else (period, msgs, w))"

definition select_operations :: "world \<Rightarrow> db_action \<Rightarrow> int \<Rightarrow> operation_row list" where
  "select_operations w act step =
     filter (\<lambda>oper. op_actionid oper = actionid act \<and> op_type oper \<in> {OPERATION_TYPE_MESSAGE, OPERATION_TYPE_COMMAND}
       \<and> (esc_period act = 0 \<or> op_step_from oper \<le> step \<and> (op_step_to oper = 0 \<or> op_step_to oper \<ge> step))) (w_operations w)"

definition later_operations :: "world \<Rightarrow> db_action \<Rightarrow> int \<Rightarrow> operation_row list" where
  "later_operations w act step = filter (\<lambda>oper. op_actionid oper = actionid act \<and> op_step_from oper > step) (w_operations w)"

definition resting_status :: "db_action \<Rightarrow> escalation_status" where
  "resting_status act = (if recovery_msg act = 1 then ESCALATION_STATUS_SLEEP else ESCALATION_STATUS_COMPLETED)"

definition execute_operations :: "u64 \<Rightarrow> env \<Rightarrow> fresh_id \<Rightarrow> db_event \<Rightarrow> db_action \<Rightarrow> escalation_row \<Rightarrow> world
    \<Rightarrow> escalation_row \<times> world" where
  "execute_operations u en fresh ev act esc w =
     (let esc1 = (if esc_period act = 0 then esc else esc\<lparr>es_step := es_step esc + 1\<rparr>);
          rows = select_operations w act (es_step esc1);
          (period, msgs, w1) = fold (operation_step u en fresh esc1 ev act) rows (0, [], w);
          w2 = fold (add_message_alert en fresh esc1 ev act) msgs w1
      in (if esc_period act = 0 then esc1\<lparr>es_status := resting_status act\<rparr>
          else if rows \<noteq> [] \<or> later_operations w2 act (es_step esc1) \<noteq> [] then
            esc1\<lparr>es_nextcheck := clock en + (if period \<noteq> 0 then period else esc_period act)\<rparr>
          else esc1\<lparr>es_status := resting_status act\<rparr>, w2))"

definition message_users :: "world \<Rightarrow> u64 \<Rightarrow> u64 \<Rightarrow> u64 list" where
  "message_users w act ev = remdups [al_userid al. al \<leftarrow> w_alerts w, al_actionid al = act, al_eventid al = ev,
     al_type al = ALERT_TYPE_MESSAGE]"

definition process_recovery_msg :: "env \<Rightarrow> fresh_id \<Rightarrow> db_event \<Rightarrow> db_action \<Rightarrow> escalation_row \<Rightarrow> world
    \<Rightarrow> escalation_row \<times> world" where
  "process_recovery_msg en fresh r_event act esc w =
     (if recovery_msg act = 1 then
        (let users = message_users w (actionid act) (es_eventid esc);
             esc1 = (if users = [] then esc else esc\<lparr>es_step := 0\<rparr>)
         in (esc1\<lparr>es_status := ESCALATION_STATUS_COMPLETED\<rparr>,
             fold (\<lambda>usr. add_message_alert en fresh (esc\<lparr>es_step := 0\<rparr>) r_event act (usr, shortdata act, longdata act)) users w))
      else (esc\<lparr>es_status := ESCALATION_STATUS_COMPLETED\<rparr>, w))"

subsection \<open>One escalation\<close>

definition TRIGGER_DESCRIPTION_LEN :: nat where "TRIGGER_DESCRIPTION_LEN = 255"

definition get_event_info :: "world \<Rightarrow> u64 \<Rightarrow> db_event option" where
  "get_event_info w eventid =
     (case row_by e_id (w_events w) eventid of
        None \<Rightarrow> None
      | Some r \<Rightarrow>
          let (description, prio) =
            (if e_object r = EVENT_OBJECT_TRIGGER then
               case row_by tg_id (w_triggers w) (e_objectid r) of
                 None \<Rightarrow> ([], 0)
               | Some t \<Rightarrow> (take TRIGGER_DESCRIPTION_LEN (tg_description t), tg_priority t)
             else ([], 0))
          in Some (event_data.extend r \<lparr>trigger_description = description, trigger_priority = prio\<rparr>))"

definition first_or_none :: "'a list \<Rightarrow> 'a option" where
  "first_or_none xs = (case xs of [] \<Rightarrow> None | x # _ \<Rightarrow> Some x)"

text \<open>Why an escalation is cancelled before its action is looked at: the first of the three queries that
  finds something.\<close>

definition cancel_reason :: "world \<Rightarrow> u64 \<Rightarrow> string option" where
  "cancel_reason w trig =
     (case row_by tg_id (w_triggers w) trig of
        None \<Rightarrow> Some (''Trigger ['' @ show_u64 trig @ ''] deleted.'')
      | Some t \<Rightarrow>
          if tg_status t = TRIGGER_STATUS_DISABLED then Some (''Trigger '' @ [CHR 0x27] @ tg_description t @ [CHR 0x27] @ '' disabled.'')
          else case first_or_none [it. it \<leftarrow> trigger_items w trig, it_status it = ITEM_STATUS_DISABLED] of
                 Some it \<Rightarrow> Some (''Item '' @ [CHR 0x27] @ it_description it @ [CHR 0x27] @ '' disabled.'')
               | None \<Rightarrow>
                   map_option (\<lambda>h. ''Host '' @ [CHR 0x27] @ h_host h @ [CHR 0x27] @ '' disabled.'')
                     (first_or_none [h. it \<leftarrow> trigger_items w trig, h \<leftarrow> w_hosts w, h_id h = it_hostid it,
                        h_status h = HOST_STATUS_NOT_MONITORED]))"

definition load_action :: "escalation_status \<Rightarrow> string option \<Rightarrow> action_row \<Rightarrow> db_action \<times> string option" where
  "load_action st error0 row =
     (let error = (if ac_status row \<noteq> ACTION_STATUS_ACTIVE
                   then Some (''Action '' @ [CHR 0x27] @ ac_name row @ [CHR 0x27] @ '' disabled.'') else error0);
          (sd, ld) = (if st = ESCALATION_STATUS_ACTIVE then (ac_def_shortdata row, ac_def_longdata row)
                      else (ac_r_shortdata row, ac_r_longdata row))
      in (\<lparr>actionid = ac_id row, esc_period = ac_esc_period row, shortdata = sd,
           longdata = (case error of None \<Rightarrow> ld
                       | Some e \<Rightarrow> ''NOTE: Escalation cancelled: '' @ e @ [CHR 0x0A] @ ld),
           recovery_msg = ac_recovery_msg row\<rparr>, error))"

definition expand_action :: "env \<Rightarrow> db_event \<Rightarrow> escalation_row option \<Rightarrow> db_action \<Rightarrow> db_action" where
  "expand_action en ev esc act =
     act\<lparr>shortdata := message_macros en ev (actionid act) esc (shortdata act),
         longdata := message_macros en ev (actionid act) esc (longdata act)\<rparr>"

definition run_escalation :: "u64 \<Rightarrow> env \<Rightarrow> fresh_id \<Rightarrow> db_action \<Rightarrow> escalation_row \<Rightarrow> world \<Rightarrow> escalation_row \<times> world" where
  "run_escalation u en fresh act esc w =
     (if es_status esc = ESCALATION_STATUS_ACTIVE then
        case get_event_info w (es_eventid esc) of
          None \<Rightarrow> (esc, w)
        | Some ev \<Rightarrow> execute_operations u en fresh ev (expand_action en ev None act) esc w
      else
        case get_event_info w (es_r_eventid esc) of
          None \<Rightarrow> (esc, w)
        | Some ev \<Rightarrow> process_recovery_msg en fresh ev (expand_action en ev (Some esc) act) esc w)"

definition execute_escalation :: "u64 \<Rightarrow> env \<Rightarrow> fresh_id \<Rightarrow> escalation_row \<Rightarrow> world \<Rightarrow> escalation_row \<times> world" where
  "execute_escalation u en fresh esc w =
     (if es_status esc \<notin> {ESCALATION_STATUS_ACTIVE, ESCALATION_STATUS_RECOVERY} then (esc, w)
      else let error0 = cancel_reason w (es_triggerid esc) in
        case row_by ac_id (w_actions w) (es_actionid esc) of
          None \<Rightarrow> (esc\<lparr>es_status := ESCALATION_STATUS_COMPLETED\<rparr>, w)
        | Some row \<Rightarrow>
            let (act, error) = load_action (es_status esc) error0 row;
                (esc1, w1) = run_escalation u en fresh act esc w
            in (if error = None then esc1 else esc1\<lparr>es_status := ESCALATION_STATUS_COMPLETED\<rparr>, w1))"

subsection \<open>The table\<close>

definition DBstart_escalation :: "(escalation_row list \<Rightarrow> u64) \<Rightarrow> u64 \<Rightarrow> u64 \<Rightarrow> u64 \<Rightarrow> world \<Rightarrow> world" where
  "DBstart_escalation fresh act trig ev w =
     w\<lparr>w_escalations := w_escalations w @
        [\<lparr>es_id = fresh (w_escalations w), es_actionid = act, es_triggerid = trig, es_eventid = ev, es_r_eventid = 0,
          es_step = 0, es_status = ESCALATION_STATUS_ACTIVE, es_nextcheck = 0\<rparr>]\<rparr>"

definition stop_row :: "u64 \<Rightarrow> u64 \<Rightarrow> u64 \<Rightarrow> escalation_row \<Rightarrow> escalation_row" where
  "stop_row act trig ev r =
     (if es_actionid r = act \<and> es_triggerid r = trig then
        r\<lparr>es_r_eventid := ev, es_status := ESCALATION_STATUS_RECOVERY, es_nextcheck := 0\<rparr> else r)"

definition DBstop_escalation :: "u64 \<Rightarrow> u64 \<Rightarrow> u64 \<Rightarrow> world \<Rightarrow> world" where
  "DBstop_escalation act trig ev w = w\<lparr>w_escalations := map (stop_row act trig ev) (w_escalations w)\<rparr>"

definition DBremove_escalation :: "u64 \<Rightarrow> world \<Rightarrow> world" where
  "DBremove_escalation i w = w\<lparr>w_escalations := filter (\<lambda>r. es_id r \<noteq> i) (w_escalations w)\<rparr>"

definition update_row :: "escalation_row \<Rightarrow> escalation_row \<Rightarrow> escalation_row" where
  "update_row esc r =
     (if es_id r = es_id esc then
        r\<lparr>es_status := es_status esc, es_step := es_step esc, es_nextcheck := es_nextcheck esc\<rparr> else r)"

definition process_escalation :: "u64 \<Rightarrow> env \<Rightarrow> fresh_id \<Rightarrow> escalation_row \<Rightarrow> world \<Rightarrow> world" where
  "process_escalation u en fresh row w =
     (let (esc, w1) = execute_escalation u en fresh (row\<lparr>es_nextcheck := 0\<rparr>) w
      in if es_status esc = ESCALATION_STATUS_COMPLETED then DBremove_escalation (es_id esc) w1
         else w1\<lparr>w_escalations := map (update_row esc) (w_escalations w1)\<rparr>)"

definition due :: "env \<Rightarrow> int \<Rightarrow> escalation_row \<Rightarrow> bool" where
  "due en now r \<longleftrightarrow> es_status r \<in> {ESCALATION_STATUS_ACTIVE, ESCALATION_STATUS_RECOVERY} \<and> es_nextcheck r \<le> now
     \<and> node_local en (es_id r)"

definition process_escalations :: "u64 \<Rightarrow> env \<Rightarrow> fresh_id \<Rightarrow> int \<Rightarrow> world \<Rightarrow> world" where
  "process_escalations u en fresh now w =
     fold (process_escalation u en fresh) (filter (due en now) (w_escalations w)) w"

section \<open>What the escalator changes\<close>

text \<open>Alerts and commands are only appended; the configuration stays.\<close>

definition grows :: "world \<Rightarrow> world \<Rightarrow> bool" where
  "grows w w' \<longleftrightarrow> (\<exists>as cs. w' = w\<lparr>w_alerts := w_alerts w @ as, w_commands := w_commands w @ cs\<rparr>)"

lemma growsI: "w' = w\<lparr>w_alerts := w_alerts w @ as, w_commands := w_commands w @ cs\<rparr> \<Longrightarrow> grows w w'"
  by (auto simp: grows_def)

lemma grows_refl [simp, intro]: "grows w w"
  by (rule growsI [where as = "[]" and cs = "[]"]) (cases w, simp)

lemma grows_trans: "grows w1 w2 \<Longrightarrow> grows w2 w3 \<Longrightarrow> grows w1 w3"
  by (force simp: grows_def)

lemma grows_fold:
  assumes "\<And>x w. x \<in> set xs \<Longrightarrow> grows w (f x w)"
  shows "grows w (fold f xs w)"
  using assms
proof (induction xs arbitrary: w)
  case (Cons x xs)
  have "grows w (f x w)" by (rule Cons.prems) simp
  moreover have "grows (f x w) (fold f xs (f x w))" by (rule Cons.IH) (simp add: Cons.prems)
  ultimately show ?case by (simp add: grows_trans)
qed simp

lemma grows_insert_alert [intro]: "grows w (insert_alert fresh al w)"
  unfolding insert_alert_def by (rule growsI [where as = "[al\<lparr>al_id := fresh (w_alerts w)\<rparr>]" and cs = "[]"]) (cases w, simp)

lemma grows_command_alert [intro]: "grows w (add_command_alert en fresh esc ev act command w)"
  unfolding add_command_alert_def Let_def
  by (rule grows_trans [OF grows_insert_alert], rule growsI [where as = "[]" and cs = "[command]"]) (cases w, simp add: insert_alert_def)

lemma grows_media_alert [intro]: "grows w (add_media_alert en fresh ev al md w)"
  by (auto simp: add_media_alert_def)

lemma grows_message_alert [intro]: "grows w (add_message_alert en fresh esc ev act msg w)"
  by (auto simp: add_message_alert_def Let_def split: prod.split intro: grows_fold)

text \<open>Nothing but the alerts, commands and escalations is read differently afterwards.\<close>

definition same_config :: "world \<Rightarrow> world \<Rightarrow> bool" where
  "same_config w w' \<longleftrightarrow>
     (\<exists>as cs es. w' = w\<lparr>w_alerts := as, w_commands := cs, w_escalations := es\<rparr>)"

lemma same_config_refl [simp]: "same_config w w"
  unfolding same_config_def by (rule exI [of _ "w_alerts w"], rule exI [of _ "w_commands w"], rule exI [of _ "w_escalations w"]) simp

lemma same_config_trans: "same_config w1 w2 \<Longrightarrow> same_config w2 w3 \<Longrightarrow> same_config w1 w3"
  by (force simp: same_config_def)

lemma grows_same_config: "grows w w' \<Longrightarrow> same_config w w'"
  unfolding same_config_def
  by (rule exI [of _ "w_alerts w'"], rule exI [of _ "w_commands w'"], rule exI [of _ "w_escalations w"]) (auto simp: grows_def)

lemma grows_escalations: "grows w w' \<Longrightarrow> w_escalations w' = w_escalations w"
  by (auto simp: grows_def)

lemma same_config_facts:
  assumes "same_config w w'"
  shows "trigger_items w' = trigger_items w" "check_action_condition u en w' = check_action_condition u en w"
    "check_operation_conditions u en w' = check_operation_conditions u en w"
    "get_trigger_permision w' = get_trigger_permision w" "check_perm2system w' = check_perm2system w"
    "group_users w' = group_users w" "get_event_info w' = get_event_info w" "cancel_reason w' = cancel_reason w"
    "select_operations w' = select_operations w" "later_operations w' = later_operations w"
    "w_actions w' = w_actions w" "w_media w' = w_media w" "w_events w' = w_events w" "w_operations w' = w_operations w"
proof -
  obtain as cs es where w': "w' = w\<lparr>w_alerts := as, w_commands := cs, w_escalations := es\<rparr>"
    using assms by (auto simp: same_config_def)
  have tables: "w_triggers w' = w_triggers w" "w_functions w' = w_functions w" "w_items w' = w_items w"
    "w_hosts w' = w_hosts w" "w_hosts_groups w' = w_hosts_groups w" "w_hosts_templates w' = w_hosts_templates w"
    "w_applications w' = w_applications w" "w_items_applications w' = w_items_applications w"
    "w_events w' = w_events w" "w_dhosts w' = w_dhosts w" "w_dservices w' = w_dservices w" "w_users w' = w_users w"
    "w_usrgrp w' = w_usrgrp w" "w_users_groups w' = w_users_groups w" "w_rights w' = w_rights w"
    "w_opconditions w' = w_opconditions w" "w_operations w' = w_operations w"
    by (simp_all add: w')
  show items: "trigger_items w' = trigger_items w" by (intro ext) (unfold trigger_items_def tables, rule refl)
  have selects: "select_groups w' = select_groups w" "select_templates w' = select_templates w"
    "select_hosts w' = select_hosts w" "select_applications w' = select_applications w"
    "select_dhost w' = select_dhost w" "select_uptime w' = select_uptime w" "trigger_condition w' = trigger_condition w"
    by (intro ext; unfold select_groups_def select_templates_def select_hosts_def select_applications_def
      select_dhost_def select_uptime_def trigger_condition_def items tables, rule refl)+
  show check: "check_action_condition u en w' = check_action_condition u en w"
    by (intro ext) (unfold check_action_condition_def trigger_event_condition_def discovery_event_condition_def
      selects tables, rule refl)
  show "check_operation_conditions u en w' = check_operation_conditions u en w"
    by (intro ext) (unfold check_operation_conditions_def check tables, rule refl)
  show "get_trigger_permision w' = get_trigger_permision w"
    by (intro ext) (unfold get_trigger_permision_def get_host_permision_def tables, rule refl)
  show "cancel_reason w' = cancel_reason w"
    by (intro ext) (unfold cancel_reason_def items tables, rule refl)
  show "check_perm2system w' = check_perm2system w" "group_users w' = group_users w" "get_event_info w' = get_event_info w"
    "select_operations w' = select_operations w" "later_operations w' = later_operations w"
    by (intro ext; unfold check_perm2system_def group_users_def get_event_info_def select_operations_def
      later_operations_def tables, rule refl)+
  show "w_actions w' = w_actions w" "w_media w' = w_media w"
    "w_events w' = w_events w" "w_operations w' = w_operations w"
    by (simp_all add: w')
qed

lemmas grows_config = same_config_facts [OF grows_same_config]

lemma add_msg_config:
  assumes "grows w w'"
  shows "add_user_msg w' = add_user_msg w" "add_object_msg w' = add_object_msg w"
proof -
  show usr: "add_user_msg w' = add_user_msg w"
    by (intro ext) (simp add: add_user_msg_def grows_config [OF assms])
  show "add_object_msg w' = add_object_msg w"
    by (intro ext) (simp add: add_object_msg_def usr grows_config [OF assms])
qed

section \<open>The messages of a step\<close>

definition allowed :: "world \<Rightarrow> u64 \<Rightarrow> u64 \<Rightarrow> bool" where
  "allowed w trig usr \<longleftrightarrow> check_perm2system w usr = SUCCEED \<and> PERM_READ_ONLY \<le> get_trigger_permision w usr trig"

definition recipients :: "world \<Rightarrow> operation_row \<Rightarrow> u64 list" where
  "recipients w oper =
     (if op_object oper = OPERATION_OBJECT_USER then [op_objectid oper]
      else if op_object oper = OPERATION_OBJECT_GROUP then group_users w (op_objectid oper) else [])"

definition message_text :: "env \<Rightarrow> db_event \<Rightarrow> db_action \<Rightarrow> operation_row \<Rightarrow> string \<times> string" where
  "message_text en ev act oper =
     (if op_default_msg oper = 0 then
        (message_macros en ev (actionid act) None (op_shortdata oper), message_macros en ev (actionid act) None (op_longdata oper))
      else (shortdata act, longdata act))"

definition applies :: "u64 \<Rightarrow> env \<Rightarrow> world \<Rightarrow> db_event \<Rightarrow> operation_row \<Rightarrow> bool" where
  "applies u en w ev oper \<longleftrightarrow> check_operation_conditions u en w ev (op_id oper) (op_evaltype oper) = SUCCEED"

lemma add_user_msg_iff:
  "set (add_user_msg w x s m usr msgs) = set msgs \<union> (if allowed w x usr then {(usr, s, m)} else {})"
  "distinct msgs \<Longrightarrow> distinct (add_user_msg w x s m usr msgs)"
  by (auto simp: add_user_msg_def allowed_def list_ex_iff)

lemma add_object_msg_iff:
  "set (add_object_msg w x oper s m msgs) = set msgs \<union> {(usr, s, m) | usr. usr \<in> set (recipients w oper) \<and> allowed w x usr}
   \<and> (distinct msgs \<longrightarrow> distinct (add_object_msg w x oper s m msgs))"
proof -
  have "set (fold (add_user_msg w x s m) us msgs) = set msgs \<union> {(usr, s, m) | usr. usr \<in> set us \<and> allowed w x usr}
     \<and> (distinct msgs \<longrightarrow> distinct (fold (add_user_msg w x s m) us msgs))" for us
    by (induction us arbitrary: msgs) (auto simp: add_user_msg_iff)
  then show ?thesis by (auto simp: add_object_msg_def recipients_def add_user_msg_iff)
qed

lemma operation_step_cases:
  assumes "grows w0 w"
  shows "operation_step u en fresh esc ev act oper (period, msgs, w) =
    (if \<not> applies u en w0 ev oper then (period, msgs, w)
     else (shorter_period period (op_esc_period oper),
       (if op_type oper = OPERATION_TYPE_MESSAGE then
          (case message_text en ev act oper of (s, m) \<Rightarrow> add_object_msg w0 (e_objectid ev) oper s m msgs) else msgs),
       (if op_type oper = OPERATION_TYPE_COMMAND then
          add_command_alert en fresh esc ev act (message_macros en ev (actionid act) None (op_longdata oper)) w else w)))"
  by (auto simp: operation_step_def applies_def message_text_def Let_def operation_codes
      grows_config [OF assms] add_msg_config [OF assms])

text \<open>All operations of a step, with \<open>w0\<close> the world at its beginning.\<close>

definition step_messages :: "u64 \<Rightarrow> env \<Rightarrow> world \<Rightarrow> db_event \<Rightarrow> db_action \<Rightarrow> operation_row list \<Rightarrow> user_msg set" where
  "step_messages u en w ev act rows =
     {(usr, message_text en ev act oper) | usr oper. oper \<in> set rows \<and> applies u en w ev oper
        \<and> op_type oper = OPERATION_TYPE_MESSAGE \<and> usr \<in> set (recipients w oper) \<and> allowed w (e_objectid ev) usr}"

definition step_commands :: "u64 \<Rightarrow> env \<Rightarrow> world \<Rightarrow> db_event \<Rightarrow> db_action \<Rightarrow> operation_row list \<Rightarrow> string list" where
  "step_commands u en w ev act rows =
     map (\<lambda>oper. message_macros en ev (actionid act) None (op_longdata oper))
       (filter (\<lambda>oper. applies u en w ev oper \<and> op_type oper = OPERATION_TYPE_COMMAND) rows)"

lemma w_commands_alerts [simp]:
  "w_commands (insert_alert fresh al w) = w_commands w"
  "w_commands (add_command_alert en fresh esc ev act command w) = w_commands w @ [command]"
  "w_commands (add_message_alert en fresh esc ev act msg w) = w_commands w"
proof -
  show [simp]: "w_commands (insert_alert fresh al w) = w_commands w" for al w by (simp add: insert_alert_def)
  show "w_commands (add_command_alert en fresh esc ev act command w) = w_commands w @ [command]"
    by (simp add: add_command_alert_def Let_def)
  have "w_commands (fold (add_media_alert en fresh ev al) ms w) = w_commands w" for al ms w
    by (induction ms arbitrary: w) (simp_all add: add_media_alert_def)
  then show "w_commands (add_message_alert en fresh esc ev act msg w) = w_commands w"
    by (simp add: add_message_alert_def Let_def split: prod.split)
qed

lemma operations_fold:
  assumes "grows w0 w"
  shows "\<exists>msgs' w'. fold (operation_step u en fresh esc ev act) rows (period, msgs, w)
      = (foldl shorter_period period (map op_esc_period (filter (applies u en w0 ev) rows)), msgs', w')
    \<and> grows w w' \<and> (distinct msgs \<longrightarrow> distinct msgs') \<and> set msgs' = set msgs \<union> step_messages u en w0 ev act rows
    \<and> w_commands w' = w_commands w @ step_commands u en w0 ev act rows"
  using assms
proof (induction rows arbitrary: period msgs w)
  case Nil
  then show ?case by (simp add: step_messages_def step_commands_def)
next
  case (Cons oper rows)
  define ld where "ld = message_macros en ev (actionid act) None (op_longdata oper)"
  show ?case
  proof (cases "applies u en w0 ev oper")
    case False
    then have "step_messages u en w0 ev act (oper # rows) = step_messages u en w0 ev act rows"
      "step_commands u en w0 ev act (oper # rows) = step_commands u en w0 ev act rows"
      by (auto simp: step_messages_def step_commands_def)
    then show ?thesis using Cons.IH [OF Cons.prems, of period msgs] False by (simp add: operation_step_cases [OF Cons.prems])
  next
    case True
    define msgs1 where "msgs1 = (if op_type oper = OPERATION_TYPE_MESSAGE then
        case message_text en ev act oper of (s, m) \<Rightarrow> add_object_msg w0 (e_objectid ev) oper s m msgs else msgs)"
    define w1 where "w1 = (if op_type oper = OPERATION_TYPE_COMMAND then add_command_alert en fresh esc ev act ld w else w)"
    have w1: "grows w w1" "grows w0 w1" "w_commands w1 = w_commands w @ step_commands u en w0 ev act [oper]"
      using grows_trans [OF Cons.prems grows_command_alert] Cons.prems True
      by (auto simp: w1_def step_commands_def ld_def)
    have msgs1: "distinct msgs \<longrightarrow> distinct msgs1" "set msgs1 = set msgs \<union> step_messages u en w0 ev act [oper]"
      using True by (cases "message_text en ev act oper"; auto simp: msgs1_def step_messages_def add_object_msg_iff)+
    have step: "operation_step u en fresh esc ev act oper (period, msgs, w)
        = (shorter_period period (op_esc_period oper), msgs1, w1)"
      using True by (simp add: operation_step_cases [OF Cons.prems] msgs1_def w1_def ld_def)
    obtain msgs' w' where rest: "fold (operation_step u en fresh esc ev act) rows (shorter_period period (op_esc_period oper), msgs1, w1)
        = (foldl shorter_period (shorter_period period (op_esc_period oper)) (map op_esc_period (filter (applies u en w0 ev) rows)), msgs', w')"
      "grows w1 w'" "distinct msgs1 \<longrightarrow> distinct msgs'" "set msgs' = set msgs1 \<union> step_messages u en w0 ev act rows"
      "w_commands w' = w_commands w1 @ step_commands u en w0 ev act rows"
      using Cons.IH [OF w1(2), of "shorter_period period (op_esc_period oper)" msgs1] by blast
    have "step_messages u en w0 ev act (oper # rows) = step_messages u en w0 ev act [oper] \<union> step_messages u en w0 ev act rows"
      "step_commands u en w0 ev act (oper # rows) = step_commands u en w0 ev act [oper] @ step_commands u en w0 ev act rows"
      by (auto simp: step_messages_def step_commands_def)
    then show ?thesis
      using True step rest msgs1 w1 grows_trans [OF w1(1) rest(2)] by (intro exI [of _ msgs'] exI [of _ w']) auto
  qed
qed

subsection \<open>The delay to the next step\<close>

lemma takeWhile_rev_snoc [simp]:
  "takeWhile P (rev (xs @ [x])) = (if P x then x # takeWhile P (rev xs) else [])"
  by simp

text \<open>The shortest of the periods that come after the last operation without a period; with one that has
  none at the end, the period of the action.\<close>

lemma step_period:
  "\<forall>p \<in> set ps. 0 \<le> p \<Longrightarrow> foldl shorter_period 0 ps =
     (let qs = takeWhile (\<lambda>p. p \<noteq> 0) (rev ps) in if qs = [] then 0 else Min (set qs))"
proof (induction ps rule: rev_induct)
  case (snoc p ps)
  define qs where "qs = takeWhile (\<lambda>p. p \<noteq> 0) (rev ps)"
  have pos: "\<forall>q \<in> set qs. 0 < q" using snoc.prems
    by (auto simp: qs_def dest!: set_takeWhileD) (metis less_eq_int_code(1) order_le_less set_rev)
  define m where "m = Min (set qs)"
  have "0 < m" if "qs \<noteq> []"
  proof -
    have "m \<in> set qs" unfolding m_def using that by (intro Min_in) auto
    with pos show ?thesis by auto
  qed
  moreover have "qs \<noteq> [] \<Longrightarrow> Min (insert p (set qs)) = min p m" unfolding m_def by (intro Min_insert) auto
  ultimately show ?case using snoc
    by (cases "qs = []"; cases "p = 0") (auto simp: Let_def qs_def [symmetric] m_def [symmetric] shorter_period_def min_def)
qed simp

lemma step_period_all: "ps \<noteq> [] \<Longrightarrow> \<forall>p \<in> set ps. 0 < p \<Longrightarrow> foldl shorter_period 0 ps = Min (set ps)"
proof -
  assume a: "ps \<noteq> []" "\<forall>p \<in> set ps. 0 < p"
  then have all: "takeWhile (\<lambda>p. p \<noteq> 0) (rev ps) = rev ps" by (intro takeWhile_eq_all_conv [THEN iffD2]) auto
  have "\<forall>p \<in> set ps. 0 \<le> p" using a by auto
  from step_period [OF this] a(1) show ?thesis by (simp add: all)
qed

lemma step_period_order_matters:
  "foldl shorter_period 0 [5, 0, 7] = 7" "foldl shorter_period 0 [0, 5, 7] = 5" "foldl shorter_period 0 [5, 7, 0] = 0"
  by (simp_all add: shorter_period_def)

subsection \<open>The alerts of a step\<close>

abbreviation no_id :: "alert_row \<Rightarrow> alert_row" where
  "no_id al \<equiv> al\<lparr>al_id := 0\<rparr>"

text \<open>The alerts one message makes: one for every active medium that takes the severity now, or one failed
  alert for a user without active media.\<close>

definition message_alerts :: "env \<Rightarrow> world \<Rightarrow> escalation_row \<Rightarrow> db_event \<Rightarrow> db_action \<Rightarrow> user_msg \<Rightarrow> alert_row list" where
  "message_alerts en w esc ev act msg =
     (let (userid, subject, message) = msg;
          medias = filter (\<lambda>md. m_active md = MEDIA_STATUS_ACTIVE \<and> m_userid md = userid) (w_media w);
          al = (blank_alert en esc ev act)\<lparr>al_userid := userid, al_subject := stored ALERT_SUBJECT_LEN subject,
                 al_message := drop_cr message\<rparr>
      in if medias = [] then [al\<lparr>al_retries := ALERT_MAX_RETRIES, al_status := ALERT_STATUS_FAILED,
                                al_error := drop_cr (no_media_error w userid)\<rparr>]
         else map (\<lambda>md. al\<lparr>al_mediatypeid := m_mediatypeid md, al_sendto := stored ALERT_SENDTO_LEN (m_sendto md)\<rparr>)
                (filter (media_matches en ev) medias))"

definition command_alert :: "env \<Rightarrow> escalation_row \<Rightarrow> db_event \<Rightarrow> db_action \<Rightarrow> string \<Rightarrow> alert_row" where
  "command_alert en esc ev act command =
     (blank_alert en esc ev act)\<lparr>al_message := drop_cr command, al_status := ALERT_STATUS_SENT, al_type := ALERT_TYPE_COMMAND\<rparr>"

lemma no_id_insert: "al_id al = 0 \<Longrightarrow> map no_id (w_alerts (insert_alert fresh al w)) = map no_id (w_alerts w) @ [al]"
  by (simp add: insert_alert_def)

lemma blank_id [simp]: "al_id (blank_alert en esc ev act) = 0"
  by (simp add: blank_alert_def)

lemma media_alerts_fold:
  "al_id al = 0 \<Longrightarrow> map no_id (w_alerts (fold (add_media_alert en fresh ev al) ms w)) = map no_id (w_alerts w) @
     map (\<lambda>md. al\<lparr>al_mediatypeid := m_mediatypeid md, al_sendto := stored ALERT_SENDTO_LEN (m_sendto md)\<rparr>)
       (filter (media_matches en ev) ms)"
  by (induction ms arbitrary: w) (simp_all add: add_media_alert_def media_matches_def no_id_insert)

lemma no_media_error_config: "same_config w w' \<Longrightarrow> no_media_error w' = no_media_error w"
  by (auto simp: same_config_def no_media_error_def fun_eq_iff)

lemma message_alerts_config: "same_config w w' \<Longrightarrow> message_alerts en w' = message_alerts en w"
  unfolding message_alerts_def fun_eq_iff by (simp add: no_media_error_config same_config_facts cong: if_cong split: prod.split)

lemma add_message_alert_appends:
  "map no_id (w_alerts (add_message_alert en fresh esc ev act msg w)) = map no_id (w_alerts w) @ message_alerts en w esc ev act msg"
  by (cases msg) (simp add: add_message_alert_def message_alerts_def Let_def no_id_insert media_alerts_fold)

lemma message_alerts_fold:
  "map no_id (w_alerts (fold (add_message_alert en fresh esc ev act) msgs w))
     = map no_id (w_alerts w) @ concat (map (message_alerts en w esc ev act) msgs)"
proof (induction msgs arbitrary: w)
  case (Cons msg msgs)
  then show ?case
    by (simp add: add_message_alert_appends message_alerts_config [OF grows_same_config [OF grows_message_alert]])
qed simp

lemma command_alert_appends:
  "map no_id (w_alerts (add_command_alert en fresh esc ev act command w)) = map no_id (w_alerts w) @ [command_alert en esc ev act command]"
  by (simp add: add_command_alert_def command_alert_def Let_def no_id_insert)

lemma operation_commands_fold:
  "grows w0 w \<Longrightarrow> map no_id (w_alerts (snd (snd (fold (operation_step u en fresh esc ev act) rows (period, msgs, w)))))
     = map no_id (w_alerts w) @ map (command_alert en esc ev act) (step_commands u en w0 ev act rows)"
proof (induction rows arbitrary: period msgs w)
  case (Cons oper rows)
  note grown = grows_trans [OF Cons.prems grows_command_alert]
  show ?case
    using Cons.IH [OF Cons.prems] Cons.IH [OF grown]
    by (simp add: operation_step_cases [OF Cons.prems] step_commands_def command_alert_appends)
qed (simp add: step_commands_def)

text \<open>The escalation and the operations of the step.\<close>

definition stepped :: "db_action \<Rightarrow> escalation_row \<Rightarrow> escalation_row" where
  "stepped act esc = (if esc_period act = 0 then esc else esc\<lparr>es_step := es_step esc + 1\<rparr>)"

definition step_rows :: "world \<Rightarrow> db_action \<Rightarrow> escalation_row \<Rightarrow> operation_row list" where
  "step_rows w act esc = select_operations w act (es_step (stepped act esc))"

lemma execute_operations_grows: "grows w (snd (execute_operations u en fresh ev act esc w))"
proof -
  let ?rows = "select_operations w act (es_step (stepped act esc))"
  obtain msgs w1 where ops: "fold (operation_step u en fresh (stepped act esc) ev act) ?rows (0, [], w)
      = (foldl shorter_period 0 (map op_esc_period (filter (applies u en w ev) ?rows)), msgs, w1)" and g: "grows w w1"
    using operations_fold [OF grows_refl, of u en fresh "stepped act esc" ev act ?rows 0 "[]" w] by blast
  have "grows w1 (fold (add_message_alert en fresh (stepped act esc) ev act) msgs w1)"
    by (rule grows_fold) (rule grows_message_alert)
  with g ops show ?thesis by (simp add: execute_operations_def stepped_def [symmetric] Let_def grows_trans)
qed

text \<open>C20: one step of an escalation runs the commands of the operations that apply, in their order, and sends
  the message of every such operation once to every recipient who may see the trigger and is not in a
  disabled group: to each active medium that accepts the severity at this time, or as a failed alert when
  the user has no active medium.  The operations are those of the action that cover the step.
\<close>

theorem execute_operations_alerts:
  "\<exists>msgs. distinct msgs \<and> set msgs = step_messages u en w ev act (step_rows w act esc)
    \<and> map no_id (w_alerts (snd (execute_operations u en fresh ev act esc w))) = map no_id (w_alerts w)
        @ map (command_alert en (stepped act esc) ev act) (step_commands u en w ev act (step_rows w act esc))
        @ concat (map (message_alerts en w (stepped act esc) ev act) msgs)
    \<and> w_commands (snd (execute_operations u en fresh ev act esc w)) = w_commands w @ step_commands u en w ev act (step_rows w act esc)"
proof -
  obtain msgs w1 where ops: "fold (operation_step u en fresh (stepped act esc) ev act) (step_rows w act esc) (0, [], w)
      = (foldl shorter_period 0 (map op_esc_period (filter (applies u en w ev) (step_rows w act esc))), msgs, w1)"
    and w1: "grows w w1" "distinct msgs" "set msgs = step_messages u en w ev act (step_rows w act esc)"
      "w_commands w1 = w_commands w @ step_commands u en w ev act (step_rows w act esc)"
    using operations_fold [OF grows_refl, of u en fresh "stepped act esc" ev act "step_rows w act esc" 0 "[]" w] by auto
  have commands: "map no_id (w_alerts w1) = map no_id (w_alerts w)
      @ map (command_alert en (stepped act esc) ev act) (step_commands u en w ev act (step_rows w act esc))"
    using operation_commands_fold [OF grows_refl, of u en fresh "stepped act esc" ev act "step_rows w act esc" 0 "[]" w] ops by simp
  have result: "snd (execute_operations u en fresh ev act esc w) = fold (add_message_alert en fresh (stepped act esc) ev act) msgs w1"
    using ops by (simp add: execute_operations_def stepped_def [symmetric] step_rows_def [symmetric] Let_def)
  have "w_commands (fold (add_message_alert en fresh e ev act) ms x) = w_commands x" for e ms x
    by (induction ms arbitrary: x) simp_all
  then show ?thesis unfolding result using w1 commands message_alerts_config [OF grows_same_config [OF w1(1)]]
    by (intro exI [of _ msgs]) (simp add: message_alerts_fold)
qed

section \<open>Progress of an escalation\<close>

lemma load_action_simps [simp]:
  "actionid (fst (load_action st e row)) = ac_id row" "esc_period (fst (load_action st e row)) = ac_esc_period row"
  "recovery_msg (fst (load_action st e row)) = ac_recovery_msg row"
  "snd (load_action st e row) = None \<longleftrightarrow> ac_status row = ACTION_STATUS_ACTIVE \<and> e = None"
  by (simp_all add: load_action_def Let_def split: if_split prod.split)

lemma expand_action_simps [simp]:
  "actionid (expand_action en ev oe act) = actionid act" "esc_period (expand_action en ev oe act) = esc_period act"
  "recovery_msg (expand_action en ev oe act) = recovery_msg act"
  by (simp_all add: expand_action_def)

definition covers :: "operation_row \<Rightarrow> int \<Rightarrow> bool" where
  "covers oper step \<longleftrightarrow> op_type oper \<in> {OPERATION_TYPE_MESSAGE, OPERATION_TYPE_COMMAND}
     \<and> op_step_from oper \<le> step \<and> (op_step_to oper = 0 \<or> step \<le> op_step_to oper)"

text \<open>Some operation of the action is for this step or a later one.\<close>

definition work_left :: "world \<Rightarrow> u64 \<Rightarrow> int \<Rightarrow> bool" where
  "work_left w act step \<longleftrightarrow> (\<exists>oper \<in> set (w_operations w). op_actionid oper = act \<and> (covers oper step \<or> step < op_step_from oper))"

lemma execute_operations_result:
  fixes esc act defines "esc1 \<equiv> stepped act esc"
  shows "fst (execute_operations u en fresh ev act esc w) =
    (if esc_period act \<noteq> 0 \<and> work_left w (actionid act) (es_step esc1) then
       esc1\<lparr>es_nextcheck := clock en +
         (let p = foldl shorter_period 0 (map op_esc_period (filter (applies u en w ev) (select_operations w act (es_step esc1))))
          in if p \<noteq> 0 then p else esc_period act)\<rparr>
     else esc1\<lparr>es_status := resting_status act\<rparr>)"
proof -
  let ?rows = "select_operations w act (es_step esc1)"
  obtain msgs w1 where ops: "fold (operation_step u en fresh esc1 ev act) ?rows (0, [], w)
      = (foldl shorter_period 0 (map op_esc_period (filter (applies u en w ev) ?rows)), msgs, w1)" and g: "grows w w1"
    using operations_fold [OF grows_refl, of u en fresh esc1 ev act ?rows 0 "[]" w] by blast
  have "grows w1 (fold (add_message_alert en fresh esc1 ev act) msgs w1)"
    by (rule grows_fold) (rule grows_message_alert)
  then have later: "later_operations (fold (add_message_alert en fresh esc1 ev act) msgs w1) = later_operations w"
    using grows_config(10) [OF grows_trans [OF g]] by blast
  have "?rows \<noteq> [] \<or> later_operations w act (es_step esc1) \<noteq> [] \<longleftrightarrow> work_left w (actionid act) (es_step esc1)"
    if "esc_period act \<noteq> 0"
    using that by (auto simp: select_operations_def later_operations_def work_left_def covers_def filter_empty_conv)
  then show ?thesis using ops later
    by (simp add: execute_operations_def stepped_def [symmetric] esc1_def [symmetric] Let_def)
qed

lemma run_escalation_grows: "grows w (snd (run_escalation u en fresh act esc w))"
proof -
  have "grows w (snd (process_recovery_msg en fresh ev a esc w))" for ev a
    by (auto simp: process_recovery_msg_def Let_def intro!: grows_fold)
  then show ?thesis
    by (simp add: run_escalation_def execute_operations_grows split: option.split)
qed

lemma execute_escalation_grows: "grows w (snd (execute_escalation u en fresh esc w))"
  using run_escalation_grows [of w u en fresh _ esc]
  by (auto simp: execute_escalation_def Let_def split: option.split prod.split) (metis snd_conv)+

lemma escalation_ids:
  "es_id (fst (execute_escalation u en fresh esc w)) = es_id esc"
proof -
  have "es_id (fst (run_escalation u en fresh act esc w)) = es_id esc" for act
    by (simp add: run_escalation_def execute_operations_result process_recovery_msg_def stepped_def Let_def split: option.split)
  then show ?thesis by (auto simp: execute_escalation_def Let_def split: option.split prod.split) (metis fst_conv)+
qed

subsection \<open>The rows of the table\<close>

abbreviation escalation_of :: "world \<Rightarrow> u64 \<Rightarrow> escalation_row option" where
  "escalation_of w i \<equiv> row_by es_id (w_escalations w) i"

lemma update_row_simps [simp]:
  "es_id (update_row esc r) = es_id r" "es_id r \<noteq> es_id esc \<Longrightarrow> update_row esc r = r"
  "es_actionid (update_row esc r) = es_actionid r" "es_triggerid (update_row esc r) = es_triggerid r"
  "es_eventid (update_row esc r) = es_eventid r" "es_r_eventid (update_row esc r) = es_r_eventid r"
  by (simp_all add: update_row_def)

lemma row_by_update: "row_by es_id (map (update_row esc) rows) i = map_option (update_row esc) (row_by es_id rows i)"
  by (induction rows) simp_all

lemma row_by_remove: "row_by es_id (filter (\<lambda>r. es_id r \<noteq> j) rows) i = (if i = j then None else row_by es_id rows i)"
  by (induction rows) auto

lemma process_escalation_table:
  fixes u en fresh r w defines "esc \<equiv> fst (execute_escalation u en fresh (r\<lparr>es_nextcheck := 0\<rparr>) w)"
  shows "w_escalations (process_escalation u en fresh r w) =
    (if es_status esc = ESCALATION_STATUS_COMPLETED then filter (\<lambda>x. es_id x \<noteq> es_id r) (w_escalations w)
     else map (update_row esc) (w_escalations w))"
proof -
  have "es_id esc = es_id r" unfolding esc_def by (simp add: escalation_ids)
  moreover have "w_escalations (snd (execute_escalation u en fresh (r\<lparr>es_nextcheck := 0\<rparr>) w)) = w_escalations w"
    by (rule grows_escalations) (rule execute_escalation_grows)
  ultimately show ?thesis
    by (cases "execute_escalation u en fresh (r\<lparr>es_nextcheck := 0\<rparr>) w") (simp add: process_escalation_def esc_def DBremove_escalation_def)
qed

lemma process_escalation_row:
  fixes u en fresh r w defines "esc \<equiv> fst (execute_escalation u en fresh (r\<lparr>es_nextcheck := 0\<rparr>) w)"
  shows "escalation_of (process_escalation u en fresh r w) i =
    (if i \<noteq> es_id r then escalation_of w i
     else if es_status esc = ESCALATION_STATUS_COMPLETED then None
     else map_option (update_row esc) (escalation_of w i))"
proof (cases "i = es_id r")
  case True
  then show ?thesis by (simp add: process_escalation_table esc_def [symmetric] row_by_update row_by_remove)
next
  case False
  have id: "es_id esc = es_id r" unfolding esc_def by (simp add: escalation_ids)
  have "map_option (update_row esc) (escalation_of w i) = escalation_of w i"
    using False id by (cases "escalation_of w i") (auto dest: row_by_Some)
  then show ?thesis using False by (simp add: process_escalation_table esc_def [symmetric] row_by_update row_by_remove)
qed

text \<open>What a pass leaves: the configuration, and the alerts made so far.\<close>

definition extends :: "world \<Rightarrow> world \<Rightarrow> bool" where
  "extends w w' \<longleftrightarrow> same_config w w' \<and> (\<exists>as. w_alerts w' = w_alerts w @ as) \<and> (\<exists>cs. w_commands w' = w_commands w @ cs)"

lemma extends_refl [simp]: "extends w w"
  by (simp add: extends_def)

lemma extends_trans: "extends w1 w2 \<Longrightarrow> extends w2 w3 \<Longrightarrow> extends w1 w3"
  by (auto simp: extends_def intro: same_config_trans)

lemma grows_extends: "grows w w' \<Longrightarrow> extends w w'"
  unfolding extends_def by (intro conjI grows_same_config) (auto simp: grows_def)

lemma extends_escalations: "extends w (w\<lparr>w_escalations := es\<rparr>)"
proof -
  have "same_config w (w\<lparr>w_escalations := es\<rparr>)"
    unfolding same_config_def by (rule exI [of _ "w_alerts w"], rule exI [of _ "w_commands w"], rule exI [of _ es]) simp
  then show ?thesis by (simp add: extends_def)
qed

lemma process_escalation_extends: "extends w (process_escalation u en fresh r w)"
proof -
  obtain esc w1 where e: "execute_escalation u en fresh (r\<lparr>es_nextcheck := 0\<rparr>) w = (esc, w1)" by (cases "execute_escalation u en fresh (r\<lparr>es_nextcheck := 0\<rparr>) w")
  then have "extends w w1" using execute_escalation_grows [of w u en fresh "r\<lparr>es_nextcheck := 0\<rparr>"] by (simp add: grows_extends)
  then show ?thesis using e extends_escalations [of w1] by (auto simp: process_escalation_def DBremove_escalation_def intro: extends_trans)
qed

lemma process_rows:
  "extends w (fold (process_escalation u en fresh) rows w)
   \<and> (i \<notin> es_id ` set rows \<longrightarrow> escalation_of (fold (process_escalation u en fresh) rows w) i = escalation_of w i)
   \<and> (distinct (map es_id (w_escalations w)) \<longrightarrow> distinct (map es_id (w_escalations (fold (process_escalation u en fresh) rows w))))"
proof (induction rows arbitrary: w)
  case (Cons r rows)
  let ?w1 = "process_escalation u en fresh r w"
  have "distinct (map es_id (w_escalations w)) \<Longrightarrow> distinct (map es_id (w_escalations ?w1))"
    by (auto simp: process_escalation_table distinct_map_filter comp_def)
  with Cons.IH [of ?w1] show ?case
    using extends_trans [OF process_escalation_extends, of u en fresh r w] by (auto simp: process_escalation_row)
qed simp

text \<open>A due row is handled once in a pass, in a world with the same configuration and all earlier alerts.\<close>

lemma pass_row:
  assumes ids: "distinct (map es_id (w_escalations w))" and r: "escalation_of w i = Some r" and d: "due en now r"
  shows "\<exists>w1. extends w w1 \<and> escalation_of w1 i = Some r
    \<and> extends (process_escalation u en fresh r w1) (process_escalations u en fresh now w)
    \<and> escalation_of (process_escalations u en fresh now w) i = escalation_of (process_escalation u en fresh r w1) i"
proof -
  have r': "r \<in> set (w_escalations w)" "es_id r = i" using row_by_Some [OF r] by auto
  then have "r \<in> set (filter (due en now) (w_escalations w))" using d by simp
  then obtain xs ys where rows: "filter (due en now) (w_escalations w) = xs @ r # ys" by (meson split_list)
  have "distinct (map es_id (filter (due en now) (w_escalations w)))" using ids by (rule distinct_map_filter)
  then have other: "i \<notin> es_id ` set xs" "i \<notin> es_id ` set ys" using r' rows by auto
  let ?w1 = "fold (process_escalation u en fresh) xs w"
  show ?thesis
    using process_rows [of w u en fresh xs i] process_rows [of "process_escalation u en fresh r ?w1" u en fresh ys i] other r
    by (intro exI [of _ ?w1]) (simp add: process_escalations_def rows)
qed

lemma pass_other:
  assumes "escalation_of w i = Some r" "\<not> due en now r" "distinct (map es_id (w_escalations w))"
  shows "escalation_of (process_escalations u en fresh now w) i = Some r"
proof -
  have "x = r" if "x \<in> set (w_escalations w)" "es_id x = i" for x
    using that row_by_Some [OF assms(1)] assms(3) by (auto simp: distinct_map dest: inj_onD)
  then have "i \<notin> es_id ` set (filter (due en now) (w_escalations w))" using assms(2) by auto
  then show ?thesis using process_rows [of w u en fresh "filter (due en now) (w_escalations w)" i] assms(1)
    by (simp add: process_escalations_def)
qed

subsection \<open>An active escalation comes to its end\<close>

lemma shorter_period_le: "\<forall>p \<in> set ps. p \<le> D \<Longrightarrow> p0 \<le> D \<Longrightarrow> foldl shorter_period p0 ps \<le> (D :: int)"
  by (induction ps arbitrary: p0) (auto simp: shorter_period_def)

text \<open>The periods of the actions and of the operations are at most \<open>D\<close>.\<close>

definition periods_below :: "world \<Rightarrow> int \<Rightarrow> bool" where
  "periods_below w D \<longleftrightarrow> 0 \<le> D \<and> (\<forall>row \<in> set (w_actions w). ac_esc_period row \<le> D) \<and> (\<forall>oper \<in> set (w_operations w). op_esc_period oper \<le> D)"

text \<open>No operation of the action is for all later steps, and none is for a step after \<open>N\<close>.\<close>

definition steps_until :: "world \<Rightarrow> u64 \<Rightarrow> int \<Rightarrow> bool" where
  "steps_until w act N \<longleftrightarrow> (\<forall>oper \<in> set (w_operations w). op_actionid oper = act \<longrightarrow>
     op_step_from oper \<le> N \<and> op_step_to oper \<noteq> 0 \<and> op_step_to oper \<le> N)"

lemma work_left_bound: "steps_until w act N \<Longrightarrow> work_left w act step \<Longrightarrow> step \<le> N"
  by (force simp: steps_until_def work_left_def covers_def)

lemma execute_active:
  assumes a: "es_status esc = ESCALATION_STATUS_ACTIVE" and ev: "get_event_info w (es_eventid esc) \<noteq> None"
    and D: "periods_below w D" and res: "fst (execute_escalation u en fresh esc w) = esc'"
  shows "es_status esc' \<in> {ESCALATION_STATUS_COMPLETED, ESCALATION_STATUS_SLEEP} \<or>
    es_status esc' = ESCALATION_STATUS_ACTIVE \<and> es_step esc' = es_step esc + 1 \<and> work_left w (es_actionid esc) (es_step esc + 1)
      \<and> es_nextcheck esc' \<le> clock en + D"
proof (cases "row_by ac_id (w_actions w) (es_actionid esc)")
  case None
  with a res show ?thesis by (auto simp: execute_escalation_def Let_def)
next
  case (Some row)
  obtain event where event: "get_event_info w (es_eventid esc) = Some event" using ev by auto
  define act where "act = expand_action en event None (fst (load_action ESCALATION_STATUS_ACTIVE (cancel_reason w (es_triggerid esc)) row))"
  have row: "row \<in> set (w_actions w)" "ac_id row = es_actionid esc" using row_by_Some [OF Some] by auto
  define ran where "ran = fst (execute_operations u en fresh event act esc w)"
  have "esc' = ran \<or> es_status esc' = ESCALATION_STATUS_COMPLETED"
    using a res Some event by (auto simp: execute_escalation_def run_escalation_def Let_def act_def ran_def split: prod.splits if_splits)
  moreover have le: "foldl shorter_period 0 (map op_esc_period (filter (applies u en w event) rows)) \<le> D"
    if "set rows \<subseteq> set (w_operations w)" for rows
    using that D by (intro shorter_period_le) (auto simp: periods_below_def)
  have "foldl shorter_period 0 (map op_esc_period (filter (applies u en w event) (select_operations w act s))) \<le> D" for s
    by (rule le) (auto simp: select_operations_def)
  then have "es_status ran \<in> {ESCALATION_STATUS_COMPLETED, ESCALATION_STATUS_SLEEP} \<or>
    es_status ran = ESCALATION_STATUS_ACTIVE \<and> es_step ran = es_step esc + 1 \<and> work_left w (es_actionid esc) (es_step esc + 1)
      \<and> es_nextcheck ran \<le> clock en + D"
    using a D row by (auto simp: ran_def execute_operations_result stepped_def resting_status_def act_def Let_def periods_below_def)
  ultimately show ?thesis by auto
qed

lemma execute_not_active:
  "es_status esc \<noteq> ESCALATION_STATUS_ACTIVE \<Longrightarrow> es_status (fst (execute_escalation u en fresh esc w)) \<noteq> ESCALATION_STATUS_ACTIVE"
  by (auto simp: execute_escalation_def run_escalation_def process_recovery_msg_def Let_def split: option.split prod.split)

lemma extends_facts:
  assumes "extends w w'"
  shows "get_event_info w' = get_event_info w" "w_operations w' = w_operations w" "periods_below w' D \<longleftrightarrow> periods_below w D"
    "steps_until w' act N \<longleftrightarrow> steps_until w act N" "work_left w' act step \<longleftrightarrow> work_left w act step"
  using assms same_config_facts [of w w'] by (simp_all add: extends_def periods_below_def steps_until_def work_left_def)

lemma update_row_status: "es_id r = es_id esc \<Longrightarrow> es_status (update_row esc r) = es_status esc \<and> es_step (update_row esc r) = es_step esc
    \<and> es_nextcheck (update_row esc r) = es_nextcheck esc"
  by (simp add: update_row_def)

lemma pass_distinct: "distinct (map es_id (w_escalations w)) \<Longrightarrow> distinct (map es_id (w_escalations (process_escalations u en fresh now w)))"
  using process_rows [of w u en fresh] by (simp add: process_escalations_def)

lemma pass_extends: "extends w (process_escalations u en fresh now w)"
  using process_rows [of w u en fresh] by (simp add: process_escalations_def)

lemma pass_active:
  assumes ids: "distinct (map es_id (w_escalations w))" and r: "escalation_of w i = Some r"
    and a: "es_status r = ESCALATION_STATUS_ACTIVE" and d: "due en now r"
    and ev: "get_event_info w (es_eventid r) \<noteq> None" and D: "periods_below w D"
    and r': "escalation_of (process_escalations u en fresh now w) i = Some r'"
  shows "es_status r' \<noteq> ESCALATION_STATUS_ACTIVE \<or>
    es_step r' = es_step r + 1 \<and> work_left w (es_actionid r) (es_step r + 1) \<and> es_nextcheck r' \<le> clock en + D
      \<and> es_actionid r' = es_actionid r \<and> es_eventid r' = es_eventid r"
proof -
  obtain w1 where w1: "extends w w1" "escalation_of w1 i = Some r"
    "escalation_of (process_escalations u en fresh now w) i = escalation_of (process_escalation u en fresh r w1) i"
    using pass_row [OF ids r d] by blast
  define esc where "esc = fst (execute_escalation u en fresh (r\<lparr>es_nextcheck := 0\<rparr>) w1)"
  have i: "es_id r = i" using row_by_Some [OF r] by simp
  have id: "es_id esc = es_id r" by (simp add: esc_def escalation_ids)
  have "r' = update_row esc r" "es_status esc \<noteq> ESCALATION_STATUS_COMPLETED"
    using r' w1 i by (auto simp: process_escalation_row esc_def split: if_splits)
  then show ?thesis
    using execute_active [of "r\<lparr>es_nextcheck := 0\<rparr>" w1 D u en fresh esc] a ev D id
    by (auto simp: esc_def extends_facts [OF w1(1)] update_row_status)
qed

lemma pass_not_active:
  assumes ids: "distinct (map es_id (w_escalations w))"
    and r: "\<And>r. escalation_of w i = Some r \<Longrightarrow> es_status r \<noteq> ESCALATION_STATUS_ACTIVE"
    and r': "escalation_of (process_escalations u en fresh now w) i = Some r'"
  shows "es_status r' \<noteq> ESCALATION_STATUS_ACTIVE"
proof (cases "escalation_of w i")
  case None
  then have "i \<notin> es_id ` set (filter (due en now) (w_escalations w))" by (auto simp: row_by_None)
  then show ?thesis using process_rows [of w u en fresh "filter (due en now) (w_escalations w)" i] None r'
    by (simp add: process_escalations_def)
next
  case (Some r0)
  show ?thesis
  proof (cases "due en now r0")
    case True
    obtain w1 where w1: "escalation_of w1 i = Some r0"
      "escalation_of (process_escalations u en fresh now w) i = escalation_of (process_escalation u en fresh r0 w1) i"
      using pass_row [OF ids Some True] by blast
    have i: "es_id r0 = i" using row_by_Some [OF Some] by simp
    show ?thesis using execute_not_active [of "r0\<lparr>es_nextcheck := 0\<rparr>" u en fresh w1] r [OF Some] r' w1 i
      by (auto simp: process_escalation_row escalation_ids update_row_status split: if_splits)
  next
    case False
    then show ?thesis using pass_other [OF Some False ids] r [OF Some] r' by auto
  qed
qed

text \<open>Passes, each not before the delay of the last one is over.\<close>

fun spaced :: "int \<Rightarrow> int \<Rightarrow> (env \<times> int) list \<Rightarrow> bool" where
  "spaced D t [] = True"
| "spaced D t ((en, now) # ps) = (t \<le> now \<and> spaced D (clock en + D) ps)"

definition passes :: "u64 \<Rightarrow> fresh_id \<Rightarrow> (env \<times> int) list \<Rightarrow> world \<Rightarrow> world" where
  "passes u fresh ps w = fold (\<lambda>(en, now). process_escalations u en fresh now) ps w"

lemma passes_not_active:
  "distinct (map es_id (w_escalations w)) \<Longrightarrow> (\<And>r. escalation_of w i = Some r \<Longrightarrow> es_status r \<noteq> ESCALATION_STATUS_ACTIVE) \<Longrightarrow>
   escalation_of (passes u fresh ps w) i = Some r' \<Longrightarrow> es_status r' \<noteq> ESCALATION_STATUS_ACTIVE"
proof (induction ps arbitrary: w)
  case (Cons p ps)
  obtain en now where p: "p = (en, now)" by (cases p)
  show ?case
  proof (rule Cons.IH)
    show "distinct (map es_id (w_escalations (process_escalations u en fresh now w)))" by (rule pass_distinct [OF Cons.prems(1)])
    show "es_status r \<noteq> ESCALATION_STATUS_ACTIVE" if "escalation_of (process_escalations u en fresh now w) i = Some r" for r
      using pass_not_active [OF Cons.prems(1) Cons.prems(2) that] .
    show "escalation_of (passes u fresh ps (process_escalations u en fresh now w)) i = Some r'"
      using Cons.prems(3) by (simp add: passes_def p)
  qed
qed (simp add: passes_def)

lemma escalation_ends_rows:
  assumes "distinct (map es_id (w_escalations w))" "escalation_of w i = Some r"
    "get_event_info w (es_eventid r) \<noteq> None" "periods_below w D" "steps_until w (es_actionid r) N"
    "spaced D t ps" "es_nextcheck r \<le> t" "\<forall>(en, now) \<in> set ps. node_local en i" "N - es_step r < int (length ps)" "es_step r \<le> N"
    "escalation_of (passes u fresh ps w) i = Some r'"
  shows "es_status r' \<noteq> ESCALATION_STATUS_ACTIVE"
  using assms
proof (induction ps arbitrary: w r t)
  case (Cons p ps)
  obtain en now where p: "p = (en, now)" by (cases p)
  let ?w1 = "process_escalations u en fresh now w"
  have rest: "escalation_of (passes u fresh ps ?w1) i = Some r'" using Cons.prems(11) by (simp add: passes_def p)
  note ids1 = pass_distinct [OF Cons.prems(1), of u en fresh now]
  have keep: ?case if "\<And>r. escalation_of ?w1 i = Some r \<Longrightarrow> es_status r \<noteq> ESCALATION_STATUS_ACTIVE"
    using passes_not_active [OF ids1 that rest] .
  show ?case
  proof (cases "es_status r = ESCALATION_STATUS_ACTIVE")
    case False
    show ?thesis by (rule keep, rule pass_not_active [OF Cons.prems(1)]) (use Cons.prems(2) False in auto)
  next
    case True
    have i: "es_id r = i" using row_by_Some [OF Cons.prems(2)] by simp
    have d: "due en now r" using True Cons.prems(6-8) i by (auto simp: due_def p)
    show ?thesis
    proof (cases "escalation_of ?w1 i")
      case None
      then show ?thesis by (intro keep) simp
    next
      case (Some r1)
      show ?thesis
      proof (cases "es_status r1 = ESCALATION_STATUS_ACTIVE")
        case False
        then show ?thesis using Some by (intro keep) simp
      next
        case active: True
        from pass_active [OF Cons.prems(1,2) True d Cons.prems(3,4) Some] active
        have r1: "es_step r1 = es_step r + 1" "work_left w (es_actionid r) (es_step r + 1)" "es_nextcheck r1 \<le> clock en + D"
          "es_actionid r1 = es_actionid r" "es_eventid r1 = es_eventid r" by auto
        have "es_step r + 1 \<le> N" by (rule work_left_bound [OF Cons.prems(5) r1(2)])
        with Cons.prems r1 rest show ?thesis
          by (intro Cons.IH [OF ids1 Some]) (auto simp: p extends_facts [OF pass_extends])
      qed
    qed
  qed
qed simp

text \<open>C21: when the operations of the action end with step \<open>N\<close>, an active escalation whose event exists is
  active no longer after as many passes as there are steps left and one: it has been removed, or it sleeps
  until the problem is over, however the conditions of the operations turn out.
\<close>

theorem escalation_ends:
  assumes "distinct (map es_id (w_escalations w))" and "escalation_of w i = Some r"
    and "get_event_info w (es_eventid r) \<noteq> None" and "periods_below w D" and "steps_until w (es_actionid r) N"
    and "spaced D (es_nextcheck r) ps" and "\<forall>(en, now) \<in> set ps. node_local en i"
    and "N - es_step r < int (length ps)" and "es_step r \<le> N"
  shows "case escalation_of (passes u fresh ps w) i of None \<Rightarrow> True | Some r' \<Rightarrow> es_status r' \<noteq> ESCALATION_STATUS_ACTIVE"
  using escalation_ends_rows [OF assms(1-6) order_refl assms(7-9)] by (auto split: option.split)

subsection \<open>Recovery\<close>

text \<open>A message for the user would go out now, or be recorded as failed.\<close>

definition reachable_user :: "env \<Rightarrow> world \<Rightarrow> db_event \<Rightarrow> u64 \<Rightarrow> bool" where
  "reachable_user en w ev usr \<longleftrightarrow>
     (let medias = filter (\<lambda>md. m_active md = MEDIA_STATUS_ACTIVE \<and> m_userid md = usr) (w_media w)
      in medias = [] \<or> list_ex (media_matches en ev) medias)"

definition alert_for :: "world \<Rightarrow> u64 \<Rightarrow> u64 \<Rightarrow> u64 \<Rightarrow> bool" where
  "alert_for w act ev usr \<longleftrightarrow> (\<exists>al \<in> set (w_alerts w). al_actionid al = act \<and> al_eventid al = ev \<and> al_userid al = usr
     \<and> al_type al = ALERT_TYPE_MESSAGE)"

lemma message_users_iff: "usr \<in> set (message_users w act ev) \<longleftrightarrow> alert_for w act ev usr"
  by (auto simp: message_users_def alert_for_def)

lemma alert_for_no_id: "alert_for w act ev usr \<longleftrightarrow> (\<exists>al \<in> set (map no_id (w_alerts w)). al_actionid al = act \<and> al_eventid al = ev
    \<and> al_userid al = usr \<and> al_type al = ALERT_TYPE_MESSAGE)"
  by (simp add: alert_for_def)

lemma alert_for_extends: "extends w w' \<Longrightarrow> alert_for w act ev usr \<Longrightarrow> alert_for w' act ev usr"
  by (auto simp: extends_def alert_for_def)

lemma message_alerts_for:
  assumes "reachable_user en w ev usr"
  shows "\<exists>al \<in> set (message_alerts en w esc ev act (usr, s, m)). al_actionid al = actionid act \<and> al_eventid al = e_id ev
    \<and> al_userid al = usr \<and> al_type al = ALERT_TYPE_MESSAGE"
  using assms by (auto simp: message_alerts_def reachable_user_def Let_def blank_alert_def list_ex_iff filter_empty_conv)

lemma get_event_info_id: "get_event_info w i = Some ev \<Longrightarrow> e_id ev = i"
  by (auto simp: get_event_info_def Let_def event_data.defs dest!: row_by_Some split: option.splits prod.splits)

lemma execute_recovery:
  assumes st: "es_status esc = ESCALATION_STATUS_RECOVERY"
    and ev: "get_event_info w (es_r_eventid esc) = Some ev"
  shows "es_status (fst (execute_escalation u en fresh esc w)) = ESCALATION_STATUS_COMPLETED"
    and "row_by ac_id (w_actions w) (es_actionid esc) = Some row \<Longrightarrow> ac_recovery_msg row = 1 \<Longrightarrow>
      alert_for w (es_actionid esc) (es_eventid esc) usr \<Longrightarrow> reachable_user en w ev usr \<Longrightarrow>
      alert_for (snd (execute_escalation u en fresh esc w)) (es_actionid esc) (es_r_eventid esc) usr"
proof -
  show "es_status (fst (execute_escalation u en fresh esc w)) = ESCALATION_STATUS_COMPLETED"
    using st ev by (auto simp: execute_escalation_def run_escalation_def process_recovery_msg_def Let_def split: option.split prod.split)
next
  assume row: "row_by ac_id (w_actions w) (es_actionid esc) = Some row" "ac_recovery_msg row = 1"
    and told: "alert_for w (es_actionid esc) (es_eventid esc) usr" and reach: "reachable_user en w ev usr"
  obtain a err where load: "load_action ESCALATION_STATUS_RECOVERY (cancel_reason w (es_triggerid esc)) row = (a, err)"
    by (cases "load_action ESCALATION_STATUS_RECOVERY (cancel_reason w (es_triggerid esc)) row")
  have a: "actionid a = ac_id row" "recovery_msg a = ac_recovery_msg row"
    using load_action_simps(1,3) [of ESCALATION_STATUS_RECOVERY "cancel_reason w (es_triggerid esc)" row] by (simp_all add: load)
  define act where "act = expand_action en ev (Some esc) a"
  have id: "actionid act = es_actionid esc" using row_by_Some [OF row(1)] a by (simp add: act_def)
  define users where "users = message_users w (actionid act) (es_eventid esc)"
  have usr: "usr \<in> set users" using told by (simp add: users_def message_users_iff id)
  have after: "snd (execute_escalation u en fresh esc w) =
      fold (add_message_alert en fresh (esc\<lparr>es_step := 0\<rparr>) ev act) (map (\<lambda>x. (x, shortdata act, longdata act)) users) w"
    using st ev row a by (simp add: execute_escalation_def load run_escalation_def process_recovery_msg_def Let_def act_def
      users_def fold_map comp_def)
  obtain al where al: "al \<in> set (message_alerts en w (esc\<lparr>es_step := 0\<rparr>) ev act (usr, shortdata act, longdata act))"
    "al_actionid al = es_actionid esc" "al_eventid al = es_r_eventid esc" "al_userid al = usr" "al_type al = ALERT_TYPE_MESSAGE"
    using message_alerts_for [OF reach, of "esc\<lparr>es_step := 0\<rparr>" act "shortdata act" "longdata act"] id get_event_info_id [OF ev] by auto
  show "alert_for (snd (execute_escalation u en fresh esc w)) (es_actionid esc) (es_r_eventid esc) usr"
    unfolding alert_for_no_id after message_alerts_fold using al usr by (intro bexI [of _ al]) auto
qed


subsection \<open>Cancelled escalations\<close>


lemma cancel_reason_iff:
  "cancel_reason w x = None \<longleftrightarrow>
     (\<exists>t. row_by tg_id (w_triggers w) x = Some t \<and> tg_status t \<noteq> TRIGGER_STATUS_DISABLED)
     \<and> (\<forall>it. trigger_on w x it \<longrightarrow> it_status it \<noteq> ITEM_STATUS_DISABLED
          \<and> (\<forall>h \<in> set (w_hosts w). h_id h = it_hostid it \<longrightarrow> h_status h \<noteq> HOST_STATUS_NOT_MONITORED))"
proof -
  have none: "first_or_none xs = None \<longleftrightarrow> set xs = {}" for xs :: "'a list" by (simp add: first_or_none_def split: list.split)
  have items: "set [it. it \<leftarrow> trigger_items w x, it_status it = ITEM_STATUS_DISABLED]
      = {it. trigger_on w x it \<and> it_status it = ITEM_STATUS_DISABLED}"
    by (auto simp: set_trigger_items)
  have hosts: "set [h. it \<leftarrow> trigger_items w x, h \<leftarrow> w_hosts w, h_id h = it_hostid it, h_status h = HOST_STATUS_NOT_MONITORED]
      = {h. \<exists>it. trigger_on w x it \<and> h \<in> set (w_hosts w) \<and> h_id h = it_hostid it \<and> h_status h = HOST_STATUS_NOT_MONITORED}"
    by (auto simp: set_trigger_items)
  have items': "first_or_none [it. it \<leftarrow> trigger_items w x, it_status it = ITEM_STATUS_DISABLED] = None
      \<longleftrightarrow> (\<forall>it. trigger_on w x it \<longrightarrow> it_status it \<noteq> ITEM_STATUS_DISABLED)"
    by (subst none, subst items) auto
  have hosts': "first_or_none [h. it \<leftarrow> trigger_items w x, h \<leftarrow> w_hosts w, h_id h = it_hostid it, h_status h = HOST_STATUS_NOT_MONITORED] = None
      \<longleftrightarrow> (\<forall>it h. trigger_on w x it \<longrightarrow> h \<in> set (w_hosts w) \<longrightarrow> h_id h = it_hostid it \<longrightarrow> h_status h \<noteq> HOST_STATUS_NOT_MONITORED)"
    by (subst none, subst hosts) auto
  show ?thesis unfolding cancel_reason_def
    using items' hosts' by (auto split: option.split)
qed

section \<open>The processes together\<close>

text \<open>
  The escalator works on the rows it has selected while other processes start and stop escalations.  A state
  is the database and the rows still to be handled in this pass, as they were when they were selected.
\<close>

inductive escalator_step :: "u64 \<Rightarrow> world \<times> escalation_row list \<Rightarrow> world \<times> escalation_row list \<Rightarrow> bool" for u where
  start: "fresh (w_escalations w) \<notin> es_id ` set (w_escalations w) \<Longrightarrow>
    escalator_step u (w, rows) (DBstart_escalation fresh act trig ev w, rows)"
| stop: "escalator_step u (w, rows) (DBstop_escalation act trig ev w, rows)"
| select: "escalator_step u (w, []) (w, filter (due en now) (w_escalations w))"
| handle: "escalator_step u (w, r # rows) (process_escalation u en fresh r w, rows)"

inductive_simps escalator_step_pending: "escalator_step u (w, r # rows) s"
inductive_cases escalator_step_elim: "escalator_step u (w, rows) (w', rows')"

definition escalator_reachable :: "u64 \<Rightarrow> world \<Rightarrow> escalation_row list \<Rightarrow> bool" where
  "escalator_reachable u w rows \<longleftrightarrow> (\<exists>w0. w_escalations w0 = [] \<and> (escalator_step u)\<^sup>*\<^sup>* (w0, []) (w, rows))"

definition escalations_wf :: "world \<times> escalation_row list \<Rightarrow> bool" where
  "escalations_wf s \<longleftrightarrow> distinct (map es_id (w_escalations (fst s)))
     \<and> (\<forall>r \<in> set (w_escalations (fst s)). es_status r \<noteq> ESCALATION_STATUS_COMPLETED)
     \<and> distinct (map es_id (snd s))
     \<and> (\<forall>r \<in> set (snd s). es_status r \<in> {ESCALATION_STATUS_ACTIVE, ESCALATION_STATUS_RECOVERY})"

lemma stop_row_id [simp]: "es_id (stop_row act trig ev r) = es_id r"
  by (simp add: stop_row_def)

lemma stop_row_status: "es_status r \<noteq> ESCALATION_STATUS_COMPLETED \<Longrightarrow> es_status (stop_row act trig ev r) \<noteq> ESCALATION_STATUS_COMPLETED"
  by (simp add: stop_row_def)

lemma escalator_step_wf: "escalator_step u s s' \<Longrightarrow> escalations_wf s \<Longrightarrow> escalations_wf s'"
proof (induction rule: escalator_step.induct)
  case (select w en now)
  then show ?case by (auto simp: escalations_wf_def due_def distinct_map_filter)
next
  case (handle w r rows en fresh)
  let ?esc = "fst (execute_escalation u en fresh (r\<lparr>es_nextcheck := 0\<rparr>) w)"
  have "es_status (update_row ?esc x) \<noteq> ESCALATION_STATUS_COMPLETED"
    if "es_status ?esc \<noteq> ESCALATION_STATUS_COMPLETED" "x \<in> set (w_escalations w)" for x
    using that handle by (auto simp: update_row_def escalations_wf_def)
  then show ?case using handle
    by (auto simp: escalations_wf_def process_escalation_table distinct_map_filter comp_def)
qed (auto simp: escalations_wf_def DBstart_escalation_def DBstop_escalation_def stop_row_status comp_def)

text \<open>C24: whatever the interleaving of the escalator with the processes that start and stop escalations, the
  table never holds a completed escalation or two escalations with one id, and the escalator only works on
  active and recovering ones.
\<close>

theorem escalations_well_formed:
  assumes "escalator_reachable u w rows"
  shows "escalations_wf (w, rows)"
proof -
  obtain w0 where w0: "w_escalations w0 = []" "(escalator_step u)\<^sup>*\<^sup>* (w0, []) (w, rows)"
    using assms by (auto simp: escalator_reachable_def)
  from w0(2) show ?thesis
  proof (induction rule: rtranclp_induct)
    case base
    then show ?case using w0(1) by (simp add: escalations_wf_def)
  next
    case (step y z)
    then show ?case by (blast intro: escalator_step_wf)
  qed
qed

text \<open>
  An escalation that is stopped after it was selected and before it is handled: the escalator writes back
  the status it found, so the recovery is forgotten; if the last step is over, for good.
\<close>

lemma stopped_while_selected:
  fixes u en fresh r w act trig ev defines "w1 \<equiv> DBstop_escalation act trig ev w"
    and "esc \<equiv> fst (execute_escalation u en fresh (r\<lparr>es_nextcheck := 0\<rparr>) (DBstop_escalation act trig ev w))"
  assumes r: "escalation_of w (es_id r) = Some r" "es_actionid r = act" "es_triggerid r = trig"
    and sleeps: "es_status esc = ESCALATION_STATUS_SLEEP"
  shows "escalation_of w1 (es_id r) = Some (r\<lparr>es_r_eventid := ev, es_status := ESCALATION_STATUS_RECOVERY, es_nextcheck := 0\<rparr>)
    \<and> (\<exists>r'. escalation_of (process_escalation u en fresh r w1) (es_id r) = Some r' \<and> es_r_eventid r' = ev
         \<and> es_status r' = ESCALATION_STATUS_SLEEP \<and> \<not> due en' now r')"
proof -
  have "row_by es_id (map (stop_row act trig ev) rows) i = map_option (stop_row act trig ev) (row_by es_id rows i)" for rows i
    by (induction rows) simp_all
  then have stopped: "escalation_of w1 (es_id r) = Some (stop_row act trig ev r)"
    using r by (simp add: w1_def DBstop_escalation_def)
  have "es_id esc = es_id r" by (simp add: esc_def escalation_ids)
  then have "escalation_of (process_escalation u en fresh r w1) (es_id r) = Some (update_row esc (stop_row act trig ev r))
      \<and> es_status (update_row esc (stop_row act trig ev r)) = ESCALATION_STATUS_SLEEP"
    using sleeps stopped by (simp add: process_escalation_row esc_def w1_def update_row_def)
  with stopped r show ?thesis by (auto simp: stop_row_def due_def)
qed

text \<open>An active escalation whose event is gone is due in every pass and never changes.\<close>

lemma missing_event_stays:
  assumes "es_status r = ESCALATION_STATUS_ACTIVE" and "get_event_info w (es_eventid r) = None"
    and "cancel_reason w (es_triggerid r) = None" and "row_by ac_id (w_actions w) (es_actionid r) = Some row"
    and "ac_status row = ACTION_STATUS_ACTIVE"
  shows "execute_escalation u en fresh r w = (r, w)"
  using assms by (auto simp: execute_escalation_def run_escalation_def load_action_def Let_def)

section \<open>Permissions\<close>

definition hosts_with_trigger :: "world \<Rightarrow> u64 \<Rightarrow> u64 set" where
  "hosts_with_trigger w x = {it_hostid it | it. it \<in> set (w_items w) \<and> (it_id it, x) \<in> set (w_functions w)}"

definition rights_of :: "world \<Rightarrow> u64 \<Rightarrow> u64 \<Rightarrow> int set" where
  "rights_of w usr h = {p | p g k grp. (grp, g, p) \<in> set (w_rights w) \<and> (k, h, g) \<in> set (w_hosts_groups w)
     \<and> (usr, grp) \<in> set (w_users_groups w)}"

lemma get_host_permision_min:
  assumes "row_by u_id (w_users w) usr = Some x" "u_type x \<notin> {- 1, USER_TYPE_SUPER_ADMIN}"
  shows "get_host_permision w usr h = (if rights_of w usr h = {} then PERM_DENY else Min (rights_of w usr h))"
proof -
  define ps where "ps = [p. (g, i, p) \<leftarrow> w_rights w, (_, hid, hg) \<leftarrow> w_hosts_groups w, i = hg, hid = h,
                       (u, ug) \<leftarrow> w_users_groups w, g = ug, u = usr]"
  have rights: "set ps = rights_of w usr h" by (fastforce simp: ps_def rights_of_def)
  have least: "fold min qs p = Min (set (p # qs))" for p :: int and qs
    by (rule Min.set_eq_fold [symmetric])
  have "get_host_permision w usr h = (case ps of [] \<Rightarrow> PERM_DENY | p # qs \<Rightarrow> fold min qs p)"
    using assms by (simp add: get_host_permision_def ps_def)
  then show ?thesis by (cases ps) (simp_all add: rights [symmetric] least del: fold_simps)
qed

lemma get_trigger_permision_max:
  "get_trigger_permision w usr x = Max (insert PERM_DENY (get_host_permision w usr ` hosts_with_trigger w x))"
proof -
  let ?hs = "remdups [it_hostid it. f \<leftarrow> w_functions w, snd f = x, it \<leftarrow> w_items w, it_id it = fst f]"
  have set: "set ?hs = hosts_with_trigger w x"
    by (auto simp: hosts_with_trigger_def) (force simp: image_iff)
  have larger: "(\<lambda>hostid perm. let p = get_host_permision w usr hostid in if perm < p then p else perm)
      = (\<lambda>hostid. max (get_host_permision w usr hostid))"
    by (auto simp: fun_eq_iff max_def Let_def)
  have "fold (\<lambda>hostid. max (get_host_permision w usr hostid)) hs perm = Max (set (perm # map (get_host_permision w usr) hs))" for hs perm
    unfolding Max.set_eq_fold by (simp add: fold_map comp_def)
  then show ?thesis unfolding get_trigger_permision_def larger by (simp only: set_simps set_map set)
qed

text \<open>C25: a message about a trigger is meant for a user exactly when none of the groups of the user is
  disabled, and the user is an administrator of everything or has the right to read, in the least of all
  rights of the user's groups, on a host of the trigger.
\<close>

theorem allowed_iff:
  assumes usr: "row_by u_id (w_users w) usr = Some x" "u_type x \<noteq> - 1"
  shows "allowed w trig usr \<longleftrightarrow>
    \<not> (\<exists>g. (usr, g) \<in> set (w_users_groups w) \<and> (g, GROUP_STATUS_DISABLED) \<in> set (w_usrgrp w))
    \<and> (\<exists>h \<in> hosts_with_trigger w trig. u_type x = USER_TYPE_SUPER_ADMIN
         \<or> rights_of w usr h \<noteq> {} \<and> (\<forall>p \<in> rights_of w usr h. PERM_READ_ONLY \<le> p))"
proof -
  have fin: "finite (rights_of w usr h)" for h
  proof -
    have "rights_of w usr h \<subseteq> (\<lambda>(g, i, p). p) ` set (w_rights w)" by (force simp: rights_of_def)
    then show ?thesis by (rule finite_subset) simp
  qed
  have finh: "finite (hosts_with_trigger w trig)"
  proof -
    have "hosts_with_trigger w trig \<subseteq> it_hostid ` set (w_items w)" by (auto simp: hosts_with_trigger_def)
    then show ?thesis by (rule finite_subset) simp
  qed
  have host: "PERM_READ_ONLY \<le> get_host_permision w usr h \<longleftrightarrow> u_type x = USER_TYPE_SUPER_ADMIN
      \<or> rights_of w usr h \<noteq> {} \<and> (\<forall>p \<in> rights_of w usr h. PERM_READ_ONLY \<le> p)" for h
  proof (cases "u_type x = USER_TYPE_SUPER_ADMIN")
    case True
    then show ?thesis using usr by (simp add: get_host_permision_def permission_codes)
  next
    case False
    then show ?thesis using get_host_permision_min [OF usr(1), of h] usr(2) fin [of h] by (simp add: permission_codes)
  qed
  have "PERM_READ_ONLY \<le> get_trigger_permision w usr trig
      \<longleftrightarrow> (\<exists>h \<in> hosts_with_trigger w trig. PERM_READ_ONLY \<le> get_host_permision w usr h)"
    using finh by (auto simp: get_trigger_permision_max Max_ge_iff permission_codes)
  moreover have "set [g. (g, st) \<leftarrow> w_usrgrp w, (u, ug) \<leftarrow> w_users_groups w, u = usr, g = ug, st = GROUP_STATUS_DISABLED]
      = {g. (usr, g) \<in> set (w_users_groups w) \<and> (g, GROUP_STATUS_DISABLED) \<in> set (w_usrgrp w)}"
    by auto
  then have "check_perm2system w usr = SUCCEED \<longleftrightarrow>
      \<not> (\<exists>g. (usr, g) \<in> set (w_users_groups w) \<and> (g, GROUP_STATUS_DISABLED) \<in> set (w_usrgrp w))"
    unfolding check_perm2system_def by (simp only: length_greater_0_conv set_empty [symmetric]) auto
  ultimately show ?thesis unfolding allowed_def host by simp
qed

section \<open>The theorems on the small configuration\<close>

lemma sample_ids: "distinct (map es_id (w_escalations sample_world))" "escalation_of sample_world 40 = Some sample_escalation"
  by (simp_all add: sample_world_def sample_escalation_def)

lemma sample_events: "get_event_info sample_world 70 = Some sample_event"
  "get_event_info sample_world 71 = Some (sample_event\<lparr>e_id := 71, e_value := 0\<rparr>)"
  by (simp_all add: get_event_info_def sample_world_def sample_event_def event_data.defs TRIGGER_DESCRIPTION_LEN_def)

definition sample_passes :: "(env \<times> int) list" where
  "sample_passes = map (\<lambda>t. (sample_env\<lparr>clock := t\<rparr>, t)) [1000, 1060, 1120]"

lemma sample_bounds: "periods_below sample_world 60" "steps_until sample_world (es_actionid sample_escalation) 2"
  "spaced 60 (es_nextcheck sample_escalation) sample_passes" "\<forall>(en, now) \<in> set sample_passes. node_local en 40"
  "2 - es_step sample_escalation < int (length sample_passes)" "es_step sample_escalation \<le> 2"
  by (simp_all add: sample_passes_def sample_env_def periods_below_def steps_until_def sample_world_def
      sample_operation_def sample_escalation_def)

theorem escalation_ends_witness:
  "case escalation_of (passes 0 (\<lambda>_. 1) sample_passes sample_world) 40 of None \<Rightarrow> True
     | Some r' \<Rightarrow> es_status r' \<noteq> ESCALATION_STATUS_ACTIVE"
  by (rule escalation_ends [OF sample_ids _ sample_bounds]) (simp add: sample_events sample_escalation_def)

definition sample_stopped :: world where
  "sample_stopped = DBstop_escalation 20 13 71 (process_escalations 0 sample_env (\<lambda>_. 1) 1000 sample_world)"

definition sample_recovery :: escalation_row where
  "sample_recovery = sample_escalation\<lparr>es_step := 1, es_nextcheck := 0, es_r_eventid := 71, es_status := ESCALATION_STATUS_RECOVERY\<rparr>"

definition sample_r_event :: db_event where
  "sample_r_event = sample_event\<lparr>e_id := 71, e_value := 0\<rparr>"

lemma sample_stopped_eval:
  "distinct (map es_id (w_escalations sample_stopped))" "escalation_of sample_stopped 40 = Some sample_recovery"
  "es_status sample_recovery = ESCALATION_STATUS_RECOVERY" "due sample_env 1003 sample_recovery"
  "get_event_info sample_stopped (es_r_eventid sample_recovery) = Some sample_r_event"
  "alert_for sample_stopped (es_actionid sample_recovery) (es_eventid sample_recovery) 5"
  "reachable_user sample_env sample_stopped sample_r_event 5"
  "row_by ac_id (w_actions sample_stopped) (es_actionid sample_recovery) = Some (hd (w_actions sample_stopped))"
  "ac_recovery_msg (hd (w_actions sample_stopped)) = 1"
  by code_simp+


lemma sample_deleted:
  "distinct (map es_id (w_escalations (sample_world\<lparr>w_triggers := []\<rparr>)))"
  "escalation_of (sample_world\<lparr>w_triggers := []\<rparr>) 40 = Some sample_escalation" "due sample_env 1000 sample_escalation"
  "cancel_reason (sample_world\<lparr>w_triggers := []\<rparr>) (es_triggerid sample_escalation) \<noteq> None"
  by (simp_all add: sample_world_def sample_escalation_def due_def sample_env_def cancel_reason_def)


lemma sample_reachable: "escalator_reachable 0 sample_world []"
proof -
  have "escalator_step 0 (sample_world\<lparr>w_escalations := []\<rparr>, [])
      (DBstart_escalation (\<lambda>_. 40) 20 13 70 (sample_world\<lparr>w_escalations := []\<rparr>), [])"
    by (rule escalator_step.start) simp
  moreover have "DBstart_escalation (\<lambda>_. 40) 20 13 70 (sample_world\<lparr>w_escalations := []\<rparr>) = sample_world"
    by (simp add: DBstart_escalation_def sample_world_def sample_escalation_def)
  ultimately show ?thesis
    unfolding escalator_reachable_def by (intro exI [of _ "sample_world\<lparr>w_escalations := []\<rparr>"]) auto
qed

theorem escalations_well_formed_witness: "escalations_wf (sample_world, [])"
  by (rule escalations_well_formed [OF sample_reachable])

theorem allowed_iff_witness: "allowed sample_world 13 5"
proof -
  have usr: "row_by u_id (w_users sample_world) 5 = Some (hd (w_users sample_world))" "u_type (hd (w_users sample_world)) \<noteq> - 1"
    by code_simp+
  have "11 \<in> hosts_with_trigger sample_world 13" "rights_of sample_world 5 11 = {2}"
    by (auto simp: hosts_with_trigger_def rights_of_def sample_world_def)
  then show ?thesis using allowed_iff [OF usr, of 13]
    by (auto simp: sample_world_def permission_codes GROUP_STATUS_DISABLED_def intro!: bexI [of _ 11])
qed

end
