(* ===== verification/Operations.thy ===== *)
theory Operations
  imports Escalator
begin

section \<open>Operations and actions\<close>

text \<open>
  \<open>zabbix_server/operations.c\<close>: the remote commands of an action and the operations on discovered
  hosts, and \<open>execute_operations\<close> and \<open>process_actions\<close> of
  \<open>zabbix_server/actions.c\<close>, which start and stop the escalations.
\<close>

subsection \<open>Remote commands\<close>

text \<open>\<open>get_next_command\<close>: the loop over the text from \<open>command_list\<close> on.  The characters
  already read, in reverse, belong to the alias or to the command; a carriage return ends the command (the
  terminator is written there) but not the line.\<close>

datatype command_state = CMD_ALIAS | CMD_REM_COMMAND

record next_command =
  nc_alias :: string
  nc_is_group :: bool
  nc_command :: "string option"

definition until_cr :: "string \<Rightarrow> string" where
  "until_cr s = takeWhile (\<lambda>c. c \<noteq> CHR 0x0D) s"

fun next_command_loop :: "command_state \<Rightarrow> bool \<Rightarrow> string \<Rightarrow> string \<Rightarrow> string \<Rightarrow> next_command \<times> string" where
  "next_command_loop CMD_ALIAS grp al cmd [] = (\<lparr>nc_alias = rev al, nc_is_group = grp, nc_command = None\<rparr>, [])"
| "next_command_loop CMD_REM_COMMAND grp al cmd [] =
     (\<lparr>nc_alias = rev al, nc_is_group = grp, nc_command = Some (until_cr (rev cmd))\<rparr>, [])"
| "next_command_loop CMD_ALIAS grp al cmd (c # s) =
     (if c = CHR ''#'' then next_command_loop CMD_REM_COMMAND True al [] s
      else if c = CHR '':'' then next_command_loop CMD_REM_COMMAND False al [] s
      else next_command_loop CMD_ALIAS grp (c # al) [] s)"
| "next_command_loop CMD_REM_COMMAND grp al cmd (c # s) =
     (if c = CHR 0x0A then (\<lparr>nc_alias = rev al, nc_is_group = grp, nc_command = Some (until_cr (rev cmd))\<rparr>, s)
      else next_command_loop CMD_REM_COMMAND grp al (c # cmd) s)"

text \<open>\<open>None\<close> at the end of the list.\<close>

definition get_next_command :: "string \<Rightarrow> (next_command \<times> string) option" where
  "get_next_command s = (if s = [] then None else Some (next_command_loop CMD_ALIAS False [] [] s))"

lemma next_command_shorter: "length (snd (next_command_loop st grp al cmd s)) \<le> length s - 1"
proof (induction st grp al cmd s rule: next_command_loop.induct)
  case (3 grp al cmd c s)
  then show ?case by (auto simp: le_diff_conv intro: le_trans [OF _ diff_le_self])
next
  case (4 grp al cmd c s)
  then show ?case by (auto intro: le_trans [OF _ diff_le_self])
qed simp_all

text \<open>\<open>run_remote_command\<close> up to the request it sends: the first host of that name, and the key
  \<open>system.run\<close> with the command without its leading blanks, in a buffer of \<open>ITEM_KEY_LEN_MAX\<close>
  bytes.  IPMI is not compiled in.\<close>

definition ITEM_KEY_LEN_MAX :: nat where "ITEM_KEY_LEN_MAX = 256"

definition run_remote_command :: "env \<Rightarrow> world \<Rightarrow> string \<Rightarrow> string \<Rightarrow> (string \<times> string) list" where
  "run_remote_command en w host command =
     (case filter (\<lambda>h. h_host h = drop_cr host \<and> node_local en (h_id h)) (w_hosts w) of
        [] \<Rightarrow> []
      | h # _ \<Rightarrow> [(h_host h, take (ITEM_KEY_LEN_MAX - 1) (''system.run['' @ dropWhile (\<lambda>c. c = CHR '' '') command @ '',nowait]''))])"

definition group_hosts :: "env \<Rightarrow> world \<Rightarrow> string \<Rightarrow> string list" where
  "group_hosts en w name = remdups [h_host h. (_, hid, gid) \<leftarrow> w_hosts_groups w, h \<leftarrow> w_hosts w, h_id h = hid,
     (g, nm) \<leftarrow> w_groups w, g = gid, nm = drop_cr name, node_local en (h_id h)]"

definition run_command :: "env \<Rightarrow> world \<Rightarrow> next_command \<Rightarrow> (string \<times> string) list" where
  "run_command en w c =
     (case nc_command c of
        None \<Rightarrow> []
      | Some cmd \<Rightarrow>
          if nc_alias c = [] \<or> cmd = [] then []
          else if nc_is_group c then concat (map (\<lambda>h. run_remote_command en w h cmd) (group_hosts en w (nc_alias c)))
          else run_remote_command en w (nc_alias c) cmd)"

function op_run_commands :: "env \<Rightarrow> world \<Rightarrow> string \<Rightarrow> (string \<times> string) list" where
  "op_run_commands en w s =
     (case get_next_command s of
        None \<Rightarrow> []
      | Some (c, rest) \<Rightarrow> run_command en w c @ op_run_commands en w rest)"
  by pat_completeness auto
termination
proof (relation "measure (\<lambda>(en, w, s). length s)", goal_cases)
  case (2 en w s x c rest)
  then have "s \<noteq> []" "rest = snd (next_command_loop CMD_ALIAS False [] [] s)"
    by (auto simp: get_next_command_def split: if_splits)
  then show ?case using next_command_shorter [of CMD_ALIAS False "[]" "[]" s] by (cases s) auto
qed simp

declare op_run_commands.simps [simp del]

text \<open>A list of commands as it is written down, one line for each.\<close>

definition command_line :: "bool \<times> string \<times> string \<Rightarrow> string" where
  "command_line c = (case c of (grp, al, cmd) \<Rightarrow> al @ [if grp then CHR ''#'' else CHR '':''] @ cmd @ [CHR 0x0D, CHR 0x0A])"

definition plain_command :: "bool \<times> string \<times> string \<Rightarrow> bool" where
  "plain_command c \<longleftrightarrow> (case c of (grp, al, cmd) \<Rightarrow>
     set al \<inter> {CHR ''#'', CHR '':''} = {} \<and> set cmd \<inter> {CHR 0x0D, CHR 0x0A} = {})"

lemma alias_loop:
  "set al \<inter> {CHR ''#'', CHR '':''} = {} \<Longrightarrow>
    next_command_loop CMD_ALIAS grp a [] (al @ s) = next_command_loop CMD_ALIAS grp (rev al @ a) [] s"
  by (induction al arbitrary: a) auto

lemma command_loop:
  "CHR 0x0A \<notin> set cmd \<Longrightarrow>
    next_command_loop CMD_REM_COMMAND grp a c (cmd @ CHR 0x0A # s)
      = (\<lparr>nc_alias = rev a, nc_is_group = grp, nc_command = Some (until_cr (rev c @ cmd))\<rparr>, s)"
  by (induction cmd arbitrary: c) auto

lemma until_cr_line: "CHR 0x0D \<notin> set cmd \<Longrightarrow> until_cr (cmd @ [CHR 0x0D]) = cmd"
  by (simp add: until_cr_def takeWhile_append)

lemma get_next_command_line:
  assumes "plain_command (grp, al, cmd)"
  shows "get_next_command (command_line (grp, al, cmd) @ rest)
    = Some (\<lparr>nc_alias = al, nc_is_group = grp, nc_command = Some cmd\<rparr>, rest)"
proof -
  have "next_command_loop CMD_REM_COMMAND grp (rev al) [] ((cmd @ [CHR 0x0D]) @ CHR 0x0A # rest)
      = (\<lparr>nc_alias = al, nc_is_group = grp, nc_command = Some cmd\<rparr>, rest)"
    using assms by (subst command_loop) (auto simp: plain_command_def until_cr_line)
  then show ?thesis using assms
    by (cases grp) (auto simp: get_next_command_def command_line_def plain_command_def alias_loop)
qed


text \<open>A line without a colon is not skipped: it becomes part of the name in the next line.\<close>

lemma line_without_colon:
  assumes "set l \<inter> {CHR ''#'', CHR '':''} = {}" and "plain_command (False, al, cmd)"
  shows "get_next_command (l @ [CHR 0x0A] @ command_line (False, al, cmd))
    = Some (\<lparr>nc_alias = l @ [CHR 0x0A] @ al, nc_is_group = False, nc_command = Some cmd\<rparr>, [])"
  using get_next_command_line [of False "l @ [CHR 0x0A] @ al" cmd "[]"] assms
  by (auto simp: command_line_def plain_command_def)

subsection \<open>Discovered hosts\<close>

text \<open>What the operations on discovered hosts use of the rest of the server: the name of an address, the ids
  of new rows, and the maintenance of hosts and templates.\<close>

record host_services =
  gethost_by_ip :: "string \<Rightarrow> string"
  fresh_host :: "host_info list \<Rightarrow> u64"
  fresh_link :: "(u64 \<times> u64 \<times> u64) list \<Rightarrow> u64"
  DBdelete_host :: "u64 \<Rightarrow> world \<Rightarrow> world"
  DBsync_host_with_template :: "u64 \<Rightarrow> u64 \<Rightarrow> world \<Rightarrow> world"
  DBdelete_template_elements :: "u64 \<Rightarrow> u64 \<Rightarrow> world \<Rightarrow> world"

definition HOST_HOST_LEN :: nat where "HOST_HOST_LEN = 64"
definition HOST_IP_LEN :: nat where "HOST_IP_LEN = 39"

definition select_dhostid_by_dserviceid :: "world \<Rightarrow> u64 \<Rightarrow> u64" where
  "select_dhostid_by_dserviceid w dserviceid =
     (case row_by ds_id (w_dservices w) dserviceid of None \<Rightarrow> 0 | Some r \<Rightarrow> ds_dhostid r)"

definition select_discovered_host :: "world \<Rightarrow> u64 \<Rightarrow> u64" where
  "select_discovered_host w dhostid =
     (case [h_id h. d \<leftarrow> w_dhosts w, dh_id d = dhostid, h \<leftarrow> w_hosts w, h_ip h = dh_ip d] of
        [] \<Rightarrow> 0 | h # _ \<Rightarrow> h)"

text \<open>The id of the host and the database after its row has been added or its name updated.\<close>

definition register_host :: "host_services \<Rightarrow> env \<Rightarrow> u64 \<Rightarrow> string \<Rightarrow> world \<Rightarrow> u64 \<times> world" where
  "register_host hs en proxy ip w =
     (let host = stored HOST_HOST_LEN (gethost_by_ip hs ip); ip1 = stored HOST_IP_LEN ip
      in case filter (\<lambda>h. h_ip h = ip1 \<and> node_local en (h_id h)) (w_hosts w) of
           [] \<Rightarrow> let i = fresh_host hs (w_hosts w)
                 in (i, w\<lparr>w_hosts := w_hosts w @ [\<lparr>h_id = i, h_host = (if gethost_by_ip hs ip \<noteq> [] then host else ip1),
                          h_ip = ip1, h_dns = host, h_proxy = proxy, h_status = 0\<rparr>]\<rparr>)
         | h # _ \<Rightarrow> (h_id h,
                if host \<noteq> [] then w\<lparr>w_hosts := map (\<lambda>x. if h_id x = h_id h then x\<lparr>h_dns := host\<rparr> else x) (w_hosts w)\<rparr> else w))"

definition add_discovered_host :: "host_services \<Rightarrow> env \<Rightarrow> u64 \<Rightarrow> world \<Rightarrow> u64 \<times> world" where
  "add_discovered_host hs en dhostid w =
     (case [(proxy, dh_ip d). d \<leftarrow> w_dhosts w, dh_id d = dhostid, (rule_id, proxy) \<leftarrow> w_drules w, rule_id = dh_druleid d] of
        [] \<Rightarrow> (0, w)
      | (proxy, ip) # _ \<Rightarrow> register_host hs en proxy ip w)"

definition event_dhost :: "world \<Rightarrow> db_event \<Rightarrow> u64" where
  "event_dhost w ev = (if e_object ev = EVENT_OBJECT_DSERVICE then select_dhostid_by_dserviceid w (e_objectid ev) else e_objectid ev)"

definition op_host_add :: "host_services \<Rightarrow> env \<Rightarrow> db_event \<Rightarrow> world \<Rightarrow> world" where
  "op_host_add hs en ev w =
     (let dhostid = (if e_object ev = EVENT_OBJECT_DHOST then e_objectid ev
                     else if e_object ev = EVENT_OBJECT_DSERVICE then select_dhostid_by_dserviceid w (e_objectid ev) else 0)
      in snd (add_discovered_host hs en dhostid w))"

definition op_host_del :: "host_services \<Rightarrow> db_event \<Rightarrow> world \<Rightarrow> world" where
  "op_host_del hs ev w =
     (let hostid = select_discovered_host w (event_dhost w ev) in if hostid \<noteq> 0 then DBdelete_host hs hostid w else w)"

definition discovered :: "db_event \<Rightarrow> bool" where
  "discovered ev \<longleftrightarrow> e_object ev = EVENT_OBJECT_DHOST \<or> e_object ev = EVENT_OBJECT_DSERVICE"

definition op_group_add :: "host_services \<Rightarrow> env \<Rightarrow> db_event \<Rightarrow> operation_row \<Rightarrow> world \<Rightarrow> world" where
  "op_group_add hs en ev oper w =
     (if op_type oper \<noteq> OPERATION_TYPE_GROUP_ADD \<or> \<not> discovered ev then w
      else let (hostid, w1) = add_discovered_host hs en (event_dhost w ev) w; grp = op_objectid oper
           in if hostid \<noteq> 0 \<and> \<not> list_ex (\<lambda>(_, h, g). g = grp \<and> h = hostid) (w_hosts_groups w1)
              then w1\<lparr>w_hosts_groups := w_hosts_groups w1 @ [(fresh_link hs (w_hosts_groups w1), hostid, grp)]\<rparr>
              else w1)"

definition op_group_del :: "db_event \<Rightarrow> operation_row \<Rightarrow> world \<Rightarrow> world" where
  "op_group_del ev oper w =
     (if op_type oper \<noteq> OPERATION_TYPE_GROUP_REMOVE \<or> \<not> discovered ev then w
      else let hostid = select_discovered_host w (event_dhost w ev); grp = op_objectid oper
           in if hostid \<noteq> 0 then w\<lparr>w_hosts_groups := filter (\<lambda>(_, h, g). \<not> (h = hostid \<and> g = grp)) (w_hosts_groups w)\<rparr> else w)"

definition op_template_add :: "host_services \<Rightarrow> env \<Rightarrow> db_event \<Rightarrow> operation_row \<Rightarrow> world \<Rightarrow> world" where
  "op_template_add hs en ev oper w =
     (if op_type oper \<noteq> OPERATION_TYPE_TEMPLATE_ADD \<or> \<not> discovered ev then w
      else let (hostid, w1) = add_discovered_host hs en (event_dhost w ev) w; tpl = op_objectid oper
           in if hostid \<noteq> 0 \<and> \<not> list_ex (\<lambda>(_, h, t). t = tpl \<and> h = hostid) (w_hosts_templates w1)
              then DBsync_host_with_template hs hostid tpl
                (w1\<lparr>w_hosts_templates := w_hosts_templates w1 @ [(fresh_link hs (w_hosts_templates w1), hostid, tpl)]\<rparr>)
              else w1)"

definition op_template_del :: "host_services \<Rightarrow> db_event \<Rightarrow> operation_row \<Rightarrow> world \<Rightarrow> world" where
  "op_template_del hs ev oper w =
     (if op_type oper \<noteq> OPERATION_TYPE_TEMPLATE_REMOVE \<or> \<not> discovered ev then w
      else let hostid = select_discovered_host w (event_dhost w ev); tpl = op_objectid oper
           in if hostid \<noteq> 0 \<and> list_ex (\<lambda>(_, h, t). t = tpl \<and> h = hostid) (w_hosts_templates w) then
                (let w1 = DBdelete_template_elements hs hostid tpl w
                 in w1\<lparr>w_hosts_templates := filter (\<lambda>(_, h, t). \<not> (h = hostid \<and> t = tpl)) (w_hosts_templates w1)\<rparr>)
              else w)"

text \<open>\<open>execute_operations\<close> of \<open>actions.c\<close>.\<close>

definition discovery_operation :: "host_services \<Rightarrow> env \<Rightarrow> db_event \<Rightarrow> operation_row \<Rightarrow> world \<Rightarrow> world" where
  "discovery_operation hs en ev oper w =
     (if op_type oper = OPERATION_TYPE_HOST_ADD then op_host_add hs en ev w
      else if op_type oper = OPERATION_TYPE_HOST_REMOVE then op_host_del hs ev w
      else if op_type oper = OPERATION_TYPE_GROUP_ADD then op_group_add hs en ev oper w
      else if op_type oper = OPERATION_TYPE_GROUP_REMOVE then op_group_del ev oper w
      else if op_type oper = OPERATION_TYPE_TEMPLATE_ADD then op_template_add hs en ev oper w
      else if op_type oper = OPERATION_TYPE_TEMPLATE_REMOVE then op_template_del hs ev oper w
      else w)"

definition execute_discovery_operations :: "host_services \<Rightarrow> env \<Rightarrow> db_event \<Rightarrow> u64 \<Rightarrow> world \<Rightarrow> world" where
  "execute_discovery_operations hs en ev act w =
     fold (discovery_operation hs en ev) (filter (\<lambda>oper. op_actionid oper = act) (w_operations w)) w"

subsection \<open>Actions\<close>

definition process_action :: "host_services \<Rightarrow> u64 \<Rightarrow> env \<Rightarrow> (escalation_row list \<Rightarrow> u64) \<Rightarrow> db_event \<Rightarrow> action_row \<Rightarrow> world \<Rightarrow> world" where
  "process_action hs u en fresh ev act w =
     (if check_action_conditions u en w ev (ac_id act) (ac_evaltype act) = SUCCEED then
        (let w1 = DBstart_escalation fresh (ac_id act) (e_objectid ev) (e_id ev) w
         in if e_source ev = EVENT_SOURCE_DISCOVERY then execute_discovery_operations hs en ev (ac_id act) w1 else w1)
      else DBstop_escalation (ac_id act) (e_objectid ev) (e_id ev) w)"

definition active_actions :: "env \<Rightarrow> world \<Rightarrow> db_event \<Rightarrow> action_row list" where
  "active_actions en w ev = filter (\<lambda>a. ac_status a = ACTION_STATUS_ACTIVE \<and> ac_eventsource a = e_source ev \<and> node_local en (ac_id a)) (w_actions w)"

definition process_actions :: "host_services \<Rightarrow> u64 \<Rightarrow> env \<Rightarrow> (escalation_row list \<Rightarrow> u64) \<Rightarrow> db_event \<Rightarrow> world \<Rightarrow> world" where
  "process_actions hs u en fresh ev w = fold (process_action hs u en fresh ev) (active_actions en w ev) w"

section \<open>What an event does to the escalations\<close>

lemma check_action_conditions_config: "same_config w w' \<Longrightarrow> check_action_conditions u en w' = check_action_conditions u en w"
proof -
  assume c: "same_config w w'"
  then have "w_conditions w' = w_conditions w" by (auto simp: same_config_def)
  then show ?thesis by (intro ext) (simp add: check_action_conditions_def same_config_facts [OF c])
qed

definition action_applies :: "u64 \<Rightarrow> env \<Rightarrow> world \<Rightarrow> db_event \<Rightarrow> action_row \<Rightarrow> bool" where
  "action_applies u en w ev a \<longleftrightarrow> check_action_conditions u en w ev (ac_id a) (ac_evaltype a) = SUCCEED"

definition new_escalation :: "db_event \<Rightarrow> u64 \<Rightarrow> u64 \<Rightarrow> escalation_row" where
  "new_escalation ev act i = \<lparr>es_id = i, es_actionid = act, es_triggerid = e_objectid ev, es_eventid = e_id ev, es_r_eventid = 0,
     es_step = 0, es_status = ESCALATION_STATUS_ACTIVE, es_nextcheck = 0\<rparr>"

definition action_effect :: "(escalation_row list \<Rightarrow> u64) \<Rightarrow> (action_row \<Rightarrow> bool) \<Rightarrow> db_event \<Rightarrow> action_row \<Rightarrow> escalation_row list \<Rightarrow> escalation_row list" where
  "action_effect fresh yes ev a es =
     (if yes a then es @ [new_escalation ev (ac_id a) (fresh es)] else map (stop_row (ac_id a) (e_objectid ev) (e_id ev)) es)"

lemma process_actions_fold:
  assumes "e_source ev = EVENT_SOURCE_TRIGGERS"
  shows "same_config w0 w \<Longrightarrow> fold (process_action hs u en fresh ev) acts w
    = w\<lparr>w_escalations := fold (action_effect fresh (action_applies u en w0 ev) ev) acts (w_escalations w)\<rparr>"
proof (induction acts arbitrary: w)
  case (Cons a acts)
  have step: "process_action hs u en fresh ev a w = w\<lparr>w_escalations := action_effect fresh (action_applies u en w0 ev) ev a (w_escalations w)\<rparr>"
    using assms check_action_conditions_config [OF Cons.prems]
    by (simp add: process_action_def action_effect_def action_applies_def DBstart_escalation_def DBstop_escalation_def new_escalation_def)
  have "same_config w0 (w\<lparr>w_escalations := es\<rparr>)" for es
    using same_config_trans [OF Cons.prems] extends_escalations [of w es] by (simp add: extends_def)
  then show ?case by (simp add: step Cons.IH)
qed simp

text \<open>The escalations of the actions in \<open>no\<close> for the object of the event are stopped.\<close>

definition stop_for :: "u64 set \<Rightarrow> db_event \<Rightarrow> escalation_row \<Rightarrow> escalation_row" where
  "stop_for no ev r = (if es_actionid r \<in> no then stop_row (es_actionid r) (e_objectid ev) (e_id ev) r else r)"

lemma stop_row_action [simp]: "es_actionid (stop_row act trig ev r) = es_actionid r"
  by (simp add: stop_row_def)

lemma actions_fold:
  "distinct (map ac_id acts) \<Longrightarrow>
   \<exists>news. fold (action_effect fresh yes ev) acts es = map (stop_for (ac_id ` {a \<in> set acts. \<not> yes a}) ev) es @ news
     \<and> map (\<lambda>r. r\<lparr>es_id := 0\<rparr>) news = map (\<lambda>a. new_escalation ev (ac_id a) 0) (filter yes acts)"
proof (induction acts arbitrary: es)
  case Nil
  then show ?case by (simp add: stop_for_def)
next
  case (Cons a acts)
  let ?no = "ac_id ` {b \<in> set acts. \<not> yes b}"
  have a: "ac_id a \<notin> ?no" using Cons.prems by auto
  obtain news where news: "fold (action_effect fresh yes ev) acts (action_effect fresh yes ev a es)
      = map (stop_for ?no ev) (action_effect fresh yes ev a es) @ news"
    "map (\<lambda>r. r\<lparr>es_id := 0\<rparr>) news = map (\<lambda>a. new_escalation ev (ac_id a) 0) (filter yes acts)"
    using Cons.IH [of "action_effect fresh yes ev a es"] Cons.prems by auto
  show ?case
  proof (cases "yes a")
    case True
    then have "{b \<in> set (a # acts). \<not> yes b} = {b \<in> set acts. \<not> yes b}" by auto
    moreover have "action_effect fresh yes ev a es = es @ [new_escalation ev (ac_id a) (fresh es)]"
      using True by (simp add: action_effect_def)
    moreover have "stop_for ?no ev (new_escalation ev (ac_id a) i) = new_escalation ev (ac_id a) i" for i
      using a by (simp add: stop_for_def new_escalation_def)
    moreover have "(new_escalation ev (ac_id a) i)\<lparr>es_id := 0\<rparr> = new_escalation ev (ac_id a) 0" for i
      by (simp add: new_escalation_def)
    ultimately show ?thesis using True news
      by (intro exI [of _ "new_escalation ev (ac_id a) (fresh es) # news"]) simp
  next
    case False
    then have "ac_id ` {b \<in> set (a # acts). \<not> yes b} = insert (ac_id a) ?no" by auto
    moreover have "stop_for ?no ev (stop_row (ac_id a) (e_objectid ev) (e_id ev) r) = stop_for (insert (ac_id a) ?no) ev r" for r
      using a by (auto simp: stop_for_def) (auto simp: stop_row_def)
    moreover have "action_effect fresh yes ev a es = map (stop_row (ac_id a) (e_objectid ev) (e_id ev)) es"
      using False by (simp add: action_effect_def)
    ultimately show ?thesis using False news by (intro exI [of _ news]) (simp add: comp_def)
  qed
qed


section \<open>Discovered hosts\<close>

text \<open>The ids and addresses of the hosts, all that the searches look at.\<close>

definition host_keys :: "world \<Rightarrow> (u64 \<times> string) list" where
  "host_keys w = map (\<lambda>h. (h_id h, h_ip h)) (w_hosts w)"

text \<open>The discovered host \<open>d\<close> can be added: it has a rule, and its address fits into the column and
  belongs to at most one host.\<close>

definition addable :: "env \<Rightarrow> world \<Rightarrow> u64 \<Rightarrow> dhost_row \<Rightarrow> bool" where
  "addable en w i d \<longleftrightarrow> filter (\<lambda>x. dh_id x = i) (w_dhosts w) = [d] \<and> dh_druleid d \<in> fst ` set (w_drules w)
     \<and> stored HOST_IP_LEN (dh_ip d) = dh_ip d
     \<and> (\<exists>i. i \<noteq> 0 \<and> node_local en i \<and> (\<forall>k \<in> set (host_keys w). snd k = dh_ip d \<longrightarrow> fst k = i))"

lemma concat_map_filter: "concat (map (\<lambda>x. if P x then g x else []) xs) = concat (map g (filter P xs))"
  by (induction xs) simp_all

lemma discovery_rows:
  assumes "addable en w i d"
  shows "\<exists>proxy rest. [(proxy, dh_ip d). d \<leftarrow> w_dhosts w, dh_id d = i, (rule_id, proxy) \<leftarrow> w_drules w, rule_id = dh_druleid d]
    = (proxy, dh_ip d) # rest"
proof -
  let ?g = "\<lambda>d. [(proxy, dh_ip d). (rule_id, proxy) \<leftarrow> w_drules w, rule_id = dh_druleid d]"
  have "[(proxy, dh_ip d). d \<leftarrow> w_dhosts w, dh_id d = i, (rule_id, proxy) \<leftarrow> w_drules w, rule_id = dh_druleid d] = ?g d"
    using assms by (simp add: addable_def concat_map_filter)
  moreover have "\<exists>proxy rest. [(proxy, ip). (rule_id, proxy) \<leftarrow> rules, rule_id = r] = (proxy, ip) # rest" if "r \<in> fst ` set rules"
    for ip :: string and r :: u64 and rules :: "(u64 \<times> u64) list"
    using that
  proof (induction rules)
    case (Cons p rules)
    then show ?case by (cases p; cases "fst p = r") auto
  qed simp
  ultimately show ?thesis using assms by (simp add: addable_def)
qed

lemma dns_update_keeps:
  "map h_id (map (\<lambda>x. if h_id x = k then x\<lparr>h_dns := n\<rparr> else x) xs) = map h_id xs"
  "map h_ip (map (\<lambda>x. if h_id x = k then x\<lparr>h_dns := n\<rparr> else x) xs) = map h_ip xs"
  by (induction xs) simp_all

lemma register_host_keys:
  assumes "stored HOST_IP_LEN ip = ip" and "\<forall>h \<in> set (w_hosts w). h_ip h = ip \<longrightarrow> node_local en (h_id h)"
  shows "(\<exists>i. (i, ip) \<in> set (host_keys w) \<and> fst (register_host hs en proxy ip w) = i
            \<and> host_keys (snd (register_host hs en proxy ip w)) = host_keys w)
    \<or> ip \<notin> snd ` set (host_keys w) \<and> fst (register_host hs en proxy ip w) = fresh_host hs (w_hosts w)
        \<and> host_keys (snd (register_host hs en proxy ip w)) = host_keys w @ [(fresh_host hs (w_hosts w), ip)]"
proof (cases "filter (\<lambda>h. h_ip h = ip \<and> node_local en (h_id h)) (w_hosts w)")
  case Nil
  then have "ip \<notin> snd ` set (host_keys w)" using assms(2) by (auto simp: host_keys_def filter_empty_conv)
  then show ?thesis using Nil assms(1) by (simp add: register_host_def host_keys_def Let_def)
next
  case (Cons h rest)
  have "h \<in> set (filter (\<lambda>h. h_ip h = ip \<and> node_local en (h_id h)) (w_hosts w))" by (simp add: Cons)
  then have h: "(h_id h, ip) \<in> set (host_keys w)" by (auto simp: host_keys_def)
  have "map (\<lambda>h. (h_id h, h_ip h)) (map (\<lambda>x. if h_id x = k then x\<lparr>h_dns := n\<rparr> else x) xs) = map (\<lambda>h. (h_id h, h_ip h)) xs"
    for k n and xs :: "host_info list"
    by (induction xs) simp_all
  then show ?thesis using h Cons assms(1) by (simp add: register_host_def host_keys_def Let_def del: map_map)
qed

lemma register_host_rest: "snd (register_host hs en proxy ip w) = w\<lparr>w_hosts := w_hosts (snd (register_host hs en proxy ip w))\<rparr>"
  by (simp add: register_host_def Let_def split: list.split)

lemma select_discovered_host_keys:
  assumes "filter (\<lambda>x. dh_id x = i) (w_dhosts w) = [d]"
  shows "select_discovered_host w i = (case filter (\<lambda>k. snd k = dh_ip d) (host_keys w) of [] \<Rightarrow> 0 | k # _ \<Rightarrow> fst k)"
proof -
  have "[h_id h. h \<leftarrow> hs, h_ip h = ip] = map fst (filter (\<lambda>k. snd k = ip) (map (\<lambda>h. (h_id h, h_ip h)) hs))"
    for ip and hs :: "host_info list"
    by (induction hs) simp_all
  then show ?thesis using assms
    by (simp add: select_discovered_host_def concat_map_filter host_keys_def split: list.split)
qed

text \<open>
  Adding a discovered host leaves a single host with its address, whose id is returned and found by the
  address from then on; adding it again adds nothing.
\<close>

theorem discovered_host_once:
  assumes a: "addable en w i d" and fresh: "fresh_host hs (w_hosts w) \<noteq> 0" "node_local en (fresh_host hs (w_hosts w))"
    and r: "add_discovered_host hs en i w = (j, w1)"
  shows "j \<noteq> 0 \<and> select_discovered_host w1 i = j
    \<and> (host_keys w1 = host_keys w \<or> host_keys w1 = host_keys w @ [(j, dh_ip d)])
    \<and> fst (add_discovered_host hs en i w1) = j \<and> host_keys (snd (add_discovered_host hs en i w1)) = host_keys w1"
proof -
  have d: "filter (\<lambda>x. dh_id x = i) (w_dhosts w) = [d]" "stored HOST_IP_LEN (dh_ip d) = dh_ip d"
    using a by (simp_all add: addable_def)
  obtain j0 where j0: "j0 \<noteq> 0" "node_local en j0" "\<And>n. (n, dh_ip d) \<in> set (host_keys w) \<Longrightarrow> n = j0"
    using a by (force simp: addable_def)
  obtain proxy rest where rows: "[(proxy, dh_ip d). d \<leftarrow> w_dhosts w, dh_id d = i, (rule_id, proxy) \<leftarrow> w_drules w, rule_id = dh_druleid d]
    = (proxy, dh_ip d) # rest" using discovery_rows [OF a] by blast
  have adds: "add_discovered_host hs en i w' = register_host hs en proxy (dh_ip d) w'"
    if "w_dhosts w' = w_dhosts w" "w_drules w' = w_drules w" for w'
    unfolding add_discovered_host_def that rows by simp
  note add = adds [OF refl refl]
  have w1: "w1 = w\<lparr>w_hosts := w_hosts w1\<rparr>" using register_host_rest [of hs en proxy "dh_ip d" w] r add by simp
  have local: "\<forall>h \<in> set (w_hosts w). h_ip h = dh_ip d \<longrightarrow> node_local en (h_id h)"
  proof (intro ballI impI)
    fix h assume "h \<in> set (w_hosts w)" "h_ip h = dh_ip d"
    then have "(h_id h, dh_ip d) \<in> set (host_keys w)" by (force simp: host_keys_def)
    then show "node_local en (h_id h)" using j0 by metis
  qed
  have keys: "(j, dh_ip d) \<in> set (host_keys w) \<and> host_keys w1 = host_keys w
      \<or> dh_ip d \<notin> snd ` set (host_keys w) \<and> j = fresh_host hs (w_hosts w) \<and> host_keys w1 = host_keys w @ [(j, dh_ip d)]"
    using register_host_keys [OF d(2) local, of hs proxy] r add by auto
  have all: "\<forall>k \<in> set (host_keys w1). snd k = dh_ip d \<longrightarrow> fst k = j" and in1: "(j, dh_ip d) \<in> set (host_keys w1)"
    using keys j0(3) by (auto simp: image_iff dest: j0(3)) fastforce
  have j: "j \<noteq> 0" "node_local en j" using keys j0 fresh by auto
  have "filter (\<lambda>k. snd k = dh_ip d) (host_keys w1) \<noteq> []" using in1 by (force simp: filter_empty_conv)
  then obtain k ks where k: "filter (\<lambda>k. snd k = dh_ip d) (host_keys w1) = k # ks" by (cases "filter (\<lambda>k. snd k = dh_ip d) (host_keys w1)") auto
  then have "k \<in> set (filter (\<lambda>k. snd k = dh_ip d) (host_keys w1))" by simp
  then have kj: "fst k = j" using all by auto
  have dh1: "w_dhosts w1 = w_dhosts w" "w_drules w1 = w_drules w" by (subst w1, simp)+
  have sel: "select_discovered_host w1 i = j" using select_discovered_host_keys [where w = w1 and i = i and d = d] d dh1 k kj by simp
  have again: "add_discovered_host hs en i w1 = register_host hs en proxy (dh_ip d) w1" by (rule adds [OF dh1])
  have local1: "\<forall>h \<in> set (w_hosts w1). h_ip h = dh_ip d \<longrightarrow> node_local en (h_id h)"
    using all j by (auto simp: host_keys_def)
  have known: "dh_ip d \<in> snd ` set (host_keys w1)" using in1 by force
  have "fst (register_host hs en proxy (dh_ip d) w1) = j \<and> host_keys (snd (register_host hs en proxy (dh_ip d) w1)) = host_keys w1"
    using register_host_keys [OF d(2) local1, of hs proxy] all known by auto
  then show ?thesis using j sel keys again by auto
qed

section \<open>The theorems on the small configuration\<close>

definition sample_services :: host_services where
  "sample_services = \<lparr>gethost_by_ip = (\<lambda>_. ''web''), fresh_host = (\<lambda>_. 50), fresh_link = (\<lambda>_. 60),
     DBdelete_host = (\<lambda>_ w. w), DBsync_host_with_template = (\<lambda>_ _ w. w), DBdelete_template_elements = (\<lambda>_ _ w. w)\<rparr>"



definition sample_discovery :: world where
  "sample_discovery = sample_world\<lparr>w_drules := [(80, 0)],
     w_dhosts := [\<lparr>dh_id = 81, dh_druleid = 80, dh_ip = ''10.0.0.7'', dh_status = 0, dh_lastup = 900, dh_lastdown = 0\<rparr>]\<rparr>"

theorem discovered_host_once_witness:
  "select_discovered_host (snd (add_discovered_host sample_services sample_env 81 sample_discovery)) 81 = 50"
proof -
  have a: "addable sample_env sample_discovery 81 (hd (w_dhosts sample_discovery))"
    by (auto simp: addable_def sample_discovery_def sample_world_def sample_env_def stored_def HOST_IP_LEN_def host_keys_def
      intro!: exI [of _ 1])
  have j: "fst (add_discovered_host sample_services sample_env 81 sample_discovery) = 50" by code_simp
  then show ?thesis
    using discovered_host_once [OF a, of sample_services 50 "snd (add_discovered_host sample_services sample_env 81 sample_discovery)"]
    by (simp add: sample_services_def sample_env_def prod_eq_iff)
qed

end
