(* ===== verification/Alerter.thy ===== *)
theory Alerter
  imports Escalator
begin

section \<open>Sending alerts\<close>

text \<open>
  \<open>zabbix_server/alerter/alerter.c\<close>: in every round the alerter tries each message that is not yet
  sent.  The senders of the media are arguments, given what the code hands to them; they may answer
  differently in each round.  A script is started by a child process, whose result is not looked at.
\<close>

datatype media_type = MEDIA_TYPE_EMAIL | MEDIA_TYPE_EXEC | MEDIA_TYPE_SMS | MEDIA_TYPE_JABBER | MEDIA_TYPE_UNKNOWN int

record media_type_row =
  mt_id :: u64
  mt_type :: media_type
  mt_smtp :: "string \<times> string \<times> string" \<comment> \<open>server, helo, email\<close>
  mt_gsm_modem :: string
  mt_login :: "string \<times> string"

text \<open>The answers of the senders with the text of the error; \<open>have_jabber\<close> is the compile-time
  switch.\<close>

record senders =
  send_email :: "string \<times> string \<times> string \<Rightarrow> string \<Rightarrow> string \<Rightarrow> string \<Rightarrow> zret \<times> string"
  send_sms :: "string \<Rightarrow> string \<Rightarrow> string \<Rightarrow> zret \<times> string"
  send_jabber :: "string \<times> string \<Rightarrow> string \<Rightarrow> string \<Rightarrow> string \<Rightarrow> zret \<times> string"
  have_jabber :: bool

definition unsupported :: "int \<Rightarrow> zret \<times> string" where
  "unsupported n = (FAIL, ''Unsupported media type ['' @ show_int n @ '']'')"

definition execute_action :: "senders \<Rightarrow> media_type_row \<Rightarrow> alert_row \<Rightarrow> zret \<times> string" where
  "execute_action sn mt al =
     (case mt_type mt of
        MEDIA_TYPE_EMAIL \<Rightarrow> send_email sn (mt_smtp mt) (al_sendto al) (al_subject al) (al_message al)
      | MEDIA_TYPE_JABBER \<Rightarrow>
          (if have_jabber sn then send_jabber sn (mt_login mt) (al_sendto al) (al_subject al) (al_message al)
           else unsupported 3)
      | MEDIA_TYPE_SMS \<Rightarrow> send_sms sn (mt_gsm_modem mt) (al_sendto al) (al_message al)
      | MEDIA_TYPE_EXEC \<Rightarrow> (SUCCEED, [])
      | MEDIA_TYPE_UNKNOWN n \<Rightarrow> unsupported n)"

text \<open>The columns written for an attempt with that answer.\<close>

definition attempt :: "alert_row \<Rightarrow> zret \<times> string \<Rightarrow> alert_row \<Rightarrow> alert_row" where
  "attempt al answer r =
     (if fst answer = SUCCEED then r\<lparr>al_status := ALERT_STATUS_SENT, al_error := []\<rparr>
      else let n = al_retries al + 1
           in if n < ALERT_MAX_RETRIES then r\<lparr>al_retries := n, al_error := stored ALERT_ERROR_LEN (snd answer)\<rparr>
              else r\<lparr>al_status := ALERT_STATUS_FAILED, al_retries := n, al_error := stored ALERT_ERROR_LEN (snd answer)\<rparr>)"

definition send_alert :: "senders \<Rightarrow> alert_row \<times> media_type_row \<Rightarrow> alert_row list \<Rightarrow> alert_row list" where
  "send_alert sn row als =
     (let (al, mt) = row in map (\<lambda>r. if al_id r = al_id al then attempt al (execute_action sn mt al) r else r) als)"

definition unsent :: "env \<Rightarrow> media_type_row list \<Rightarrow> alert_row list \<Rightarrow> (alert_row \<times> media_type_row) list" where
  "unsent en mts als = sort_key (\<lambda>(al, mt). al_clock al)
     [(al, mt). al \<leftarrow> als, al_status al = ALERT_STATUS_NOT_SENT \<and> al_type al = ALERT_TYPE_MESSAGE,
       mt \<leftarrow> mts, al_mediatypeid al = mt_id mt \<and> node_local en (mt_id mt)]"

text \<open>One round of \<open>main_alerter_loop\<close>.\<close>

definition alerter_round :: "env \<Rightarrow> media_type_row list \<Rightarrow> senders \<Rightarrow> alert_row list \<Rightarrow> alert_row list" where
  "alerter_round en mts sn als = fold (send_alert sn) (unsent en mts als) als"

definition alerter_rounds :: "env \<Rightarrow> media_type_row list \<Rightarrow> senders list \<Rightarrow> alert_row list \<Rightarrow> alert_row list" where
  "alerter_rounds en mts sns als = fold (alerter_round en mts) sns als"

section \<open>What becomes of an alert\<close>

lemma attempt_id [simp]: "al_id (attempt al ans r) = al_id r"
  by (simp add: attempt_def Let_def)

lemma filter_sort_key: "filter P (sort_key f xs) = sort_key f (filter P xs)"
  by (rule filter_sort)

lemma filter_comprehension:
  "filter (\<lambda>r. al_id (fst r) = i) [(al, mt). al \<leftarrow> als, P al, mt \<leftarrow> mts, Q al mt]
    = [(al, mt). al \<leftarrow> filter (\<lambda>a. al_id a = i) als, P al, mt \<leftarrow> mts, Q al mt]"
proof (induction als)
  case (Cons a als)
  have "filter (\<lambda>r. al_id (fst r) = i) (concat (map (\<lambda>mt. if Q a mt then [(a, mt)] else []) mts))
      = (if al_id a = i then concat (map (\<lambda>mt. if Q a mt then [(a, mt)] else []) mts) else [])"
    by (induction mts) simp_all
  then show ?case using Cons by simp
qed simp

text \<open>In a round the row of one alert is changed by the rows of the query with its id only.\<close>

lemma round_row:
  "filter (\<lambda>a. al_id a = i) (fold (send_alert sn) rows als)
    = fold (send_alert sn) (filter (\<lambda>r. al_id (fst r) = i) rows) (filter (\<lambda>a. al_id a = i) als)"
proof (induction rows arbitrary: als)
  case (Cons row rows)
  obtain al mt where row: "row = (al, mt)" by (cases row)
  have "filter (\<lambda>a. al_id a = i) (send_alert sn row als) =
      (if al_id al = i then send_alert sn row (filter (\<lambda>a. al_id a = i) als) else filter (\<lambda>a. al_id a = i) als)"
    by (cases "al_id al = i") (simp_all add: send_alert_def row, (induction als; simp)+)
  then show ?case using Cons by (simp add: row)
qed simp

lemma one_round:
  assumes al: "filter (\<lambda>a. al_id a = i) als = [al]" and mt: "filter (\<lambda>m. mt_id m = al_mediatypeid al) mts = [mt]"
    and local: "node_local en (mt_id mt)" and msg: "al_type al = ALERT_TYPE_MESSAGE"
  shows "filter (\<lambda>a. al_id a = i) (alerter_round en mts sn als) =
    [if al_status al = ALERT_STATUS_NOT_SENT then attempt al (execute_action sn mt al) al else al]"
proof -
  have id: "al_id al = i" using arg_cong [OF al, of set] by auto
  have mtid: "mt_id mt = al_mediatypeid al" using arg_cong [OF mt, of set] by auto
  have media: "[(al, m). m \<leftarrow> mts, al_mediatypeid al = mt_id m \<and> node_local en (mt_id m)] = [(al, mt)]"
  proof -
    have "[(al, m). m \<leftarrow> ms, al_mediatypeid al = mt_id m \<and> node_local en (mt_id m)]
        = map (Pair al) (filter (\<lambda>m. node_local en (mt_id m)) (filter (\<lambda>m. mt_id m = al_mediatypeid al) ms))" for ms
      by (induction ms) auto
    from this [of mts] show ?thesis using local by (simp add: mt del: filter_filter)
  qed
  have "filter (\<lambda>r. al_id (fst r) = i) (unsent en mts als) =
      (if al_status al = ALERT_STATUS_NOT_SENT then [(al, mt)] else [])"
    unfolding unsent_def filter_sort_key filter_comprehension al using media msg by simp
  then show ?thesis unfolding alerter_round_def round_row al by (simp add: send_alert_def)
qed

text \<open>The first \<open>n\<close> answers, until one succeeds.\<close>

definition answers :: "media_type_row \<Rightarrow> alert_row \<Rightarrow> senders list \<Rightarrow> zret list" where
  "answers mt al sns = map (\<lambda>sn. fst (execute_action sn mt al)) sns"

lemma execute_action_attempt [simp]: "execute_action sn mt (attempt al ans r) = execute_action sn mt r"
  by (simp add: execute_action_def attempt_def Let_def split: media_type.split)

definition final_status :: "int \<Rightarrow> zret list \<Rightarrow> alert_status" where
  "final_status retries rs =
     (let tried = take (nat (ALERT_MAX_RETRIES - retries)) rs
      in if SUCCEED \<in> set tried then ALERT_STATUS_SENT
         else if retries + int (length rs) \<ge> ALERT_MAX_RETRIES then ALERT_STATUS_FAILED
         else ALERT_STATUS_NOT_SENT)"

lemma settled_stays:
  assumes "filter (\<lambda>a. al_id a = i) als = [al]" "filter (\<lambda>m. mt_id m = al_mediatypeid al) mts = [mt]"
    "node_local en (mt_id mt)" "al_type al = ALERT_TYPE_MESSAGE" "al_status al \<noteq> ALERT_STATUS_NOT_SENT"
  shows "filter (\<lambda>a. al_id a = i) (alerter_rounds en mts sns als) = [al]"
  using assms
proof (induction sns arbitrary: als)
  case (Cons sn sns)
  have "filter (\<lambda>a. al_id a = i) (alerter_round en mts sn als) = [al]"
    using one_round [OF Cons.prems(1-4)] Cons.prems(5) by simp
  with Cons show ?case by (simp add: alerter_rounds_def)
qed (simp add: alerter_rounds_def)

lemma alert_rounds:
  assumes "filter (\<lambda>a. al_id a = i) als = [al]" "filter (\<lambda>m. mt_id m = al_mediatypeid al) mts = [mt]"
    "node_local en (mt_id mt)" "al_type al = ALERT_TYPE_MESSAGE" "al_status al = ALERT_STATUS_NOT_SENT"
    "al_retries al < ALERT_MAX_RETRIES"
  shows "\<exists>al'. filter (\<lambda>a. al_id a = i) (alerter_rounds en mts sns als) = [al']
    \<and> al_status al' = final_status (al_retries al) (answers mt al sns)
    \<and> (al_status al' = ALERT_STATUS_NOT_SENT \<longrightarrow> al_retries al' = al_retries al + int (length sns))"
  using assms
proof (induction sns arbitrary: als al)
  case Nil
  then show ?case by (simp add: alerter_rounds_def final_status_def answers_def)
next
  case (Cons sn sns)
  let ?al1 = "attempt al (execute_action sn mt al) al"
  let ?als1 = "alerter_round en mts sn als"
  have first: "filter (\<lambda>a. al_id a = i) ?als1 = [?al1]" using one_round [OF Cons.prems(1-4)] Cons.prems(5) by simp
  have same: "al_mediatypeid ?al1 = al_mediatypeid al" "al_type ?al1 = al_type al" "answers mt ?al1 sns = answers mt al sns"
    by (simp_all add: attempt_def answers_def Let_def) (simp_all add: execute_action_def split: media_type.split)
  have rounds: "alerter_rounds en mts (sn # sns) als = alerter_rounds en mts sns ?als1" by (simp add: alerter_rounds_def)
  have more: "0 < nat (ALERT_MAX_RETRIES - al_retries al)" using Cons.prems(6) by simp
  then obtain n where n: "nat (ALERT_MAX_RETRIES - al_retries al) = Suc n" by (cases "nat (ALERT_MAX_RETRIES - al_retries al)") auto
  show ?case
  proof (cases "al_status ?al1 = ALERT_STATUS_NOT_SENT")
    case True
    then have a: "fst (execute_action sn mt al) \<noteq> SUCCEED" "al_retries ?al1 = al_retries al + 1" "al_retries al + 1 < ALERT_MAX_RETRIES"
      by (auto simp: attempt_def Let_def split: if_splits)
    have "nat (ALERT_MAX_RETRIES - (al_retries al + 1)) = n" using n by simp
    then have "final_status (al_retries al) (answers mt al (sn # sns)) = final_status (al_retries al + 1) (answers mt al sns)"
      using a n by (auto simp: final_status_def answers_def Let_def)
    then show ?thesis
      using Cons.IH [OF first, unfolded same, OF Cons.prems(2-4) True] a by (auto simp: rounds)
  next
    case False
    have "al_status ?al1 = final_status (al_retries al) (answers mt al (sn # sns))"
    proof (cases "fst (execute_action sn mt al) = SUCCEED")
      case True
      then show ?thesis using n by (simp add: attempt_def final_status_def answers_def)
    next
      case failed: False
      then have last: "\<not> al_retries al + 1 < ALERT_MAX_RETRIES" and st: "al_status ?al1 = ALERT_STATUS_FAILED"
        using False Cons.prems(5) by (auto simp: attempt_def Let_def split: if_splits)
      then have "n = 0" using n by simp
      then show ?thesis using failed last st n by (simp add: final_status_def answers_def Let_def)
    qed
    then show ?thesis
      using settled_stays [OF first, unfolded same, OF Cons.prems(2-4) False, of sns] False by (simp add: rounds)
  qed
qed

text \<open>C26: the alerter makes at most \<open>ALERT_MAX_RETRIES\<close> attempts: an alert is sent when one of them
  succeeds, it has failed once all have failed, and after that many rounds it is one or the other.
\<close>

theorem alert_settled:
  assumes "filter (\<lambda>a. al_id a = i) als = [al]" and "filter (\<lambda>m. mt_id m = al_mediatypeid al) mts = [mt]"
    and "node_local en (mt_id mt)" and "al_type al = ALERT_TYPE_MESSAGE" and "al_status al = ALERT_STATUS_NOT_SENT"
    and "al_retries al = 0" and "ALERT_MAX_RETRIES \<le> int (length sns)"
  shows "\<exists>al'. filter (\<lambda>a. al_id a = i) (alerter_rounds en mts sns als) = [al']
    \<and> al_status al' = (if SUCCEED \<in> set (take (nat ALERT_MAX_RETRIES) (answers mt al sns))
                       then ALERT_STATUS_SENT else ALERT_STATUS_FAILED)"
proof -
  have "al_retries al < ALERT_MAX_RETRIES" using assms(6) by (simp add: ALERT_MAX_RETRIES_def)
  from alert_rounds [OF assms(1-5) this, of sns]
  show ?thesis using assms(6,7) by (auto simp: final_status_def answers_def Let_def)
qed

text \<open>A script that cannot be run counts as sent.\<close>

lemma script_always_sent: "mt_type mt = MEDIA_TYPE_EXEC \<Longrightarrow> attempt al (execute_action sn mt al) al = al\<lparr>al_status := ALERT_STATUS_SENT, al_error := []\<rparr>"
  by (simp add: execute_action_def attempt_def)

definition sample_media_type :: media_type_row where
  "sample_media_type = \<lparr>mt_id = 1, mt_type = MEDIA_TYPE_EMAIL, mt_smtp = (''mx'', ''zabbix'', ''z@example.org''), mt_gsm_modem = [],
     mt_login = ([], [])\<rparr>"

definition sample_senders :: "bool \<Rightarrow> senders" where
  "sample_senders up = \<lparr>send_email = (\<lambda>_ _ _ _. if up then (SUCCEED, []) else (FAIL, ''refused'')), send_sms = (\<lambda>_ _ _. (FAIL, [])),
     send_jabber = (\<lambda>_ _ _ _. (FAIL, [])), have_jabber = False\<rparr>"

definition sample_alert :: alert_row where
  "sample_alert = \<lparr>al_id = 1, al_actionid = 20, al_eventid = 70, al_userid = 5, al_mediatypeid = 1, al_sendto = ''ann@example.org'',
     al_subject = ''problem'', al_message = ''look'', al_clock = 1000, al_status = ALERT_STATUS_NOT_SENT,
     al_type = ALERT_TYPE_MESSAGE, al_retries = 0, al_error = [], al_step = 1\<rparr>"

theorem alert_settled_witness:
  "map al_status (filter (\<lambda>a. al_id a = 1) (alerter_rounds sample_env [sample_media_type] (map sample_senders [False, False, True]) [sample_alert]))
    = [ALERT_STATUS_SENT]"
proof -
  have h: "filter (\<lambda>a. al_id a = 1) [sample_alert] = [sample_alert]"
    "filter (\<lambda>m. mt_id m = al_mediatypeid sample_alert) [sample_media_type] = [sample_media_type]"
    "node_local sample_env (mt_id sample_media_type)" "al_type sample_alert = ALERT_TYPE_MESSAGE"
    "al_status sample_alert = ALERT_STATUS_NOT_SENT" "al_retries sample_alert = 0"
    by (simp_all add: sample_alert_def sample_media_type_def sample_env_def)
  have "SUCCEED \<in> set (take (nat ALERT_MAX_RETRIES) (answers sample_media_type sample_alert (map sample_senders [False, False, True])))"
    by (simp add: answers_def execute_action_def sample_media_type_def sample_senders_def ALERT_MAX_RETRIES_def)
  then show ?thesis
    using alert_settled [OF h, of "map sample_senders [False, False, True]"] by (auto simp: ALERT_MAX_RETRIES_def)
qed

end
