(* ===== verification/Expression.thy ===== *)
theory Expression
  imports CString CFields Numbers KeyParse TriggerValue
begin

section \<open>Trigger expressions\<close>

text \<open>
  The evaluation of trigger expressions: \<open>compress_signs\<close> (\<open>libs/zbxcommon/str.c\<close>),
  \<open>str2double\<close>, \<open>delete_spaces\<close>, \<open>evaluate_simple\<close> and
  \<open>evaluate\<close> (\<open>libs/zbxserver/expression.c\<close>).  Doubles are a type
  \<open>'f\<close>; their operations, the conversion \<open>atof\<close> and the printing with
  \<open>%lf\<close> are an argument.  A failure carries its message, as it is before it is cut to the
  caller's buffer.
\<close>

record 'f calc =
  atof :: "string \<Rightarrow> 'f"
  print_lf :: "'f \<Rightarrow> string"
  c_add :: "'f \<Rightarrow> 'f \<Rightarrow> 'f"
  c_sub :: "'f \<Rightarrow> 'f \<Rightarrow> 'f"
  c_mul :: "'f \<Rightarrow> 'f \<Rightarrow> 'f"
  c_div :: "'f \<Rightarrow> 'f \<Rightarrow> 'f"
  c_neg :: "'f \<Rightarrow> 'f"
  c_abs :: "'f \<Rightarrow> 'f"
  c_lt :: "'f \<Rightarrow> 'f \<Rightarrow> bool"
  c_eq :: "'f \<Rightarrow> 'f \<Rightarrow> bool"
  c_int :: "int \<Rightarrow> 'f"
  c_millionth :: "'f"

text \<open>A failure is a message, or the read in front of a buffer that the last line of
  \<open>str2double\<close> runs into on an empty string.\<close>

datatype eval_error = Message string | Out_of_bounds

type_synonym 'a checked = "eval_error + 'a"

definition cmp_double :: "'f calc \<Rightarrow> 'f \<Rightarrow> 'f \<Rightarrow> int" where
  "cmp_double D a b = (if c_lt D (c_abs D (c_sub D a b)) (c_millionth D) then 0 else 1)"

subsection \<open>Signs\<close>

definition is_sign :: "char \<Rightarrow> bool" where
  "is_sign c \<longleftrightarrow> c = CHR ''+'' \<or> c = CHR ''-''"

definition merge_signs :: "char \<Rightarrow> char \<Rightarrow> char" where
  "merge_signs a b = (if a = b then CHR ''+'' else CHR ''-'')"

text \<open>One pass of the inner loop over the string: the merged sign is stepped over, and the flag tells
  whether there was one.\<close>

fun merge_pass :: "string \<Rightarrow> string \<times> bool" where
  "merge_pass (a # b # s) =
     (if is_sign a \<and> is_sign b then (merge_signs a b # fst (merge_pass s), True)
      else (a # fst (merge_pass (b # s)), snd (merge_pass (b # s))))"
| "merge_pass s = (s, False)"

lemma merge_pass_length: "length (fst (merge_pass s)) \<le> length s \<and> (snd (merge_pass s) \<longrightarrow> length (fst (merge_pass s)) < length s)"
  by (induction s rule: merge_pass.induct) auto

function merge_loop :: "string \<Rightarrow> string" where
  "merge_loop s = (if snd (merge_pass s) then merge_loop (fst (merge_pass s)) else fst (merge_pass s))"
  by pat_completeness auto
termination
  by (relation "measure length") (use merge_pass_length in auto)

declare merge_loop.simps [simp del]

definition after_number :: "char option \<Rightarrow> bool" where
  "after_number prev \<longleftrightarrow> (case prev of None \<Rightarrow> False | Some p \<Rightarrow> is_digit p \<or> p = CHR ''.'')"

text \<open>The second loop, with the character before the place that is looked at.  When a plus is removed the
  next character moves into its place and is not looked at.\<close>

fun mark_signs :: "char option \<Rightarrow> string \<Rightarrow> string" where
  "mark_signs prev [] = []"
| "mark_signs prev (c # s) =
     (if c = CHR ''+'' \<and> \<not> after_number prev then
        (case s of [] \<Rightarrow> [] | d # r \<Rightarrow> d # mark_signs (Some d) r)
      else if c = CHR ''-'' then
        (if after_number prev then CHR ''+'' # CHR ''N'' # mark_signs (Some CHR ''N'') s
         else CHR ''N'' # mark_signs (Some CHR ''N'') s)
      else c # mark_signs (Some c) s)"

definition compress_signs :: "string \<Rightarrow> string" where
  "compress_signs s = mark_signs None (merge_loop s)"

subsection \<open>Expressions without brackets\<close>

text \<open>\<open>before\<close> is the character in front of the string, if that is in the buffer: the
  code looks at the last character of the string without looking at its length.\<close>

definition last_char :: "char option \<Rightarrow> string \<Rightarrow> char option" where
  "last_char before s = (if s = [] then before else Some (List.last s))"

definition str2double :: "'f calc \<Rightarrow> char option \<Rightarrow> string \<Rightarrow> 'f checked" where
  "str2double D before s =
     (case last_char before s of
        None \<Rightarrow> Inl Out_of_bounds
      | Some c \<Rightarrow>
          Inr (if c = CHR ''K'' then c_mul D (c_int D 1024) (atof D (butlast s))
               else if c = CHR ''M'' then c_mul D (c_mul D (c_int D 1024) (c_int D 1024)) (atof D (butlast s))
               else if c = CHR ''G'' then
                 c_mul D (c_mul D (c_mul D (c_int D 1024) (c_int D 1024)) (c_int D 1024)) (atof D (butlast s))
               else atof D s))"

text \<open>What \<open>str2double\<close> leaves of the string: the suffix is cut off in place.\<close>

definition cut_suffix :: "string \<Rightarrow> string" where
  "cut_suffix s = (if s \<noteq> [] \<and> List.last s \<in> {CHR ''K'', CHR ''M'', CHR ''G''} then butlast s else s)"

text \<open>The operators in the order in which they are looked for, and what they do to the operands.\<close>

datatype operator = Or | And | Eq | Ne | Gt | Lt | Plus | Minus | Times | Divide

fun operator_char :: "operator \<Rightarrow> char" where
  "operator_char Or = CHR ''|''"
| "operator_char And = CHR ''&''"
| "operator_char Eq = CHR ''=''"
| "operator_char Ne = CHR ''#''"
| "operator_char Gt = CHR ''>''"
| "operator_char Lt = CHR ''<''"
| "operator_char Plus = CHR ''+''"
| "operator_char Minus = CHR ''-''"
| "operator_char Times = CHR ''*''"
| "operator_char Divide = CHR ''/''"

definition operators :: "operator list" where
  "operators = [Or, And, Eq, Ne, Gt, Lt, Plus, Minus, Times, Divide]"

definition truth :: "'f calc \<Rightarrow> bool \<Rightarrow> 'f" where
  "truth D b = c_int D (if b then 1 else 0)"

text \<open>\<open>first\<close> and \<open>second\<close> are the texts of the operands, for the message.\<close>

definition apply_operator :: "'f calc \<Rightarrow> operator \<Rightarrow> string \<Rightarrow> string \<Rightarrow> 'f \<Rightarrow> 'f \<Rightarrow> 'f checked" where
  "apply_operator D p first second a b =
     (case p of
        Or \<Rightarrow> Inr (if c_eq D b (c_int D 1) then b else c_int D 0)
      | And \<Rightarrow> Inr (truth D (c_eq D a (c_int D 1) \<and> c_eq D b (c_int D 1)))
      | Eq \<Rightarrow> Inr (truth D (cmp_double D a b = 0))
      | Ne \<Rightarrow> Inr (truth D (cmp_double D a b \<noteq> 0))
      | Gt \<Rightarrow> Inr (truth D (c_lt D b a))
      | Lt \<Rightarrow> Inr (truth D (c_lt D a b))
      | Plus \<Rightarrow> Inr (c_add D a b)
      | Minus \<Rightarrow> Inr (c_sub D a b)
      | Times \<Rightarrow> Inr (c_mul D a b)
      | Divide \<Rightarrow>
          (if cmp_double D b (c_int D 0) = 0 then
             Inl (Message (''Division by zero. Cannot evaluate expression ['' @ first @ ''/'' @ second @ '']''))
           else Inr (c_div D a b)))"

text \<open>The first operator of the list that occurs, with its first place.\<close>

fun split_operator :: "operator list \<Rightarrow> string \<Rightarrow> (operator \<times> nat) option" where
  "split_operator [] s = None"
| "split_operator (p # ps) s =
     (case strchr s (operator_char p) of Some i \<Rightarrow> Some (p, i) | None \<Rightarrow> split_operator ps s)"

definition trim_signs :: "string \<Rightarrow> string" where
  "trim_signs s = compress_signs (lrtrim_spaces s)"

definition strscpy :: "string \<Rightarrow> string" where
  "strscpy s = take (MAX_STRING_LEN - 1) s"

text \<open>Operators are used up: this bounds the recursion.\<close>

definition operator_count :: "string \<Rightarrow> nat" where
  "operator_count s = length (filter (\<lambda>c. c \<in> operator_char ` set operators) s)"

lemma operator_count_simps [simp]:
  "operator_count [] = 0"
  "operator_count (c # s) = (if c \<in> operator_char ` set operators then 1 else 0) + operator_count s"
  "operator_count (s @ t) = operator_count s + operator_count t"
  by (simp_all add: operator_count_def)

lemma operator_chars: "operator_char ` set operators = set ''|&=#><+-*/''"
  by (simp add: operators_def)

lemma operator_count_take_drop: "operator_count (take n s) \<le> operator_count s" "operator_count (drop n s) \<le> operator_count s"
  by (metis append_take_drop_id le_add1 le_add2 operator_count_simps(3))+

lemma merge_pass_count: "operator_count (fst (merge_pass s)) \<le> operator_count s"
  by (induction s rule: merge_pass.induct) (auto simp: operator_chars is_sign_def merge_signs_def)

lemma merge_loop_count: "operator_count (merge_loop s) \<le> operator_count s"
proof (induction s rule: merge_loop.induct)
  case (1 s)
  then show ?case using merge_pass_count [of s] by (subst merge_loop.simps) (auto intro: le_trans)
qed

lemma not_operators [simp]: "CHR ''N'' \<notin> operator_char ` set operators"
  by (simp add: operators_def)

lemma mark_signs_count: "operator_count (mark_signs prev s) \<le> operator_count s"
proof (induction s arbitrary: prev rule: length_induct)
  case (1 s)
  show ?case
  proof (cases s)
    case (Cons c r)
    have r: "operator_count (mark_signs q r) \<le> operator_count r" for q using 1 Cons by simp
    have t: "operator_count (mark_signs q t) \<le> operator_count t" if "r = d # t" for q d t
      using 1 Cons that by simp
    have signs: "CHR ''+'' \<in> operator_char ` set operators" "CHR ''-'' \<in> operator_char ` set operators"
      by (simp_all add: operators_def)
    consider (drop) "c = CHR ''+'' \<and> \<not> after_number prev" | (minus) "c = CHR ''-''"
      | (other) "\<not> (c = CHR ''+'' \<and> \<not> after_number prev)" "c \<noteq> CHR ''-''" by blast
    then show ?thesis
    proof cases
      case drop
      then show ?thesis using Cons t by (cases r) (auto intro: le_SucI)
    next
      case minus
      then show ?thesis using Cons r signs by (auto intro: le_SucI)
    next
      case other
      then show ?thesis using Cons r by auto
    qed
  qed simp
qed

lemma rtrim_prefix: "\<exists>n. rtrim_spaces s = take n s"
  by (simp add: rtrim_spaces_def dropWhile_eq_drop rev_drop) blast

lemma trim_signs_count: "operator_count (trim_signs s) \<le> operator_count s"
proof -
  have "operator_count (ltrim_spaces s) \<le> operator_count s"
    by (simp add: ltrim_spaces_eq dropWhile_eq_drop operator_count_take_drop)
  moreover obtain n where "rtrim_spaces (ltrim_spaces s) = take n (ltrim_spaces s)" using rtrim_prefix by blast
  then have "operator_count (lrtrim_spaces s) \<le> operator_count (ltrim_spaces s)"
    by (simp add: lrtrim_spaces_def operator_count_take_drop)
  moreover have "operator_count (trim_signs s) \<le> operator_count (lrtrim_spaces s)"
    unfolding trim_signs_def compress_signs_def using mark_signs_count merge_loop_count le_trans by blast
  ultimately show ?thesis by linarith
qed

lemma split_operator_SomeD:
  "split_operator ps s = Some (p, i) \<Longrightarrow> p \<in> set ps \<and> strchr s (operator_char p) = Some i"
  by (induction ps) (auto split: option.splits)

lemma split_operator_count:
  assumes "split_operator operators s = Some (p, i)"
  shows "operator_count (take i s) < operator_count s" "operator_count (drop (Suc i) s) < operator_count s"
proof -
  have i: "i < length s" "s ! i = operator_char p" "p \<in> set operators"
    using split_operator_SomeD [OF assms] strchr_SomeD by blast+
  have "operator_count s = operator_count (take i s @ s ! i # drop (Suc i) s)"
    using i id_take_nth_drop by metis
  then show "operator_count (take i s) < operator_count s" "operator_count (drop (Suc i) s) < operator_count s"
    using i by auto
qed

lemma split_shrinks:
  assumes "split_operator operators (trim_signs s) = Some (p, i)"
  shows "operator_count (strscpy (take i (trim_signs s))) < operator_count s"
    "operator_count (strscpy (drop (Suc i) (trim_signs s))) < operator_count s"
  using split_operator_count [OF assms] operator_count_take_drop(1) trim_signs_count [of s]
  unfolding strscpy_def by (meson less_le_trans le_less_trans)+

definition starts_N :: "string \<Rightarrow> bool" where
  "starts_N s \<longleftrightarrow> s \<noteq> [] \<and> hd s = CHR ''N''"

text \<open>The buffer after its evaluation, which the message of a division prints: trimmed, its signs
  compressed, the suffix of a number cut off, and the operator at which it was split replaced by
  \<open>|\<close>, which the code puts back whatever the operator was.\<close>

definition used_buffer :: "string \<Rightarrow> string" where
  "used_buffer s =
     (let e = trim_signs s
      in if starts_N e \<and> is_double_prefix (tl e) = SUCCEED then CHR ''N'' # cut_suffix (tl e)
         else if \<not> starts_N e \<and> is_double_prefix e = SUCCEED then cut_suffix e
         else case split_operator operators e of None \<Rightarrow> e | Some (p, i) \<Rightarrow> e[i := CHR ''|''])"

function evaluate_simple :: "'f calc \<Rightarrow> string \<Rightarrow> 'f checked" where
  "evaluate_simple D s =
     (let e = trim_signs s
      in if starts_N e \<and> is_double_prefix (tl e) = SUCCEED then
           (case str2double D (Some CHR ''N'') (tl e) of Inl m \<Rightarrow> Inl m | Inr v \<Rightarrow> Inr (c_neg D v))
         else if \<not> starts_N e \<and> is_double_prefix e = SUCCEED then str2double D None e
         else
           (case split_operator operators e of
              None \<Rightarrow> Inl (Message (''Format error or unsupported operator.  Exp: ['' @ e @ '']''))
            | Some (p, i) \<Rightarrow>
                (case evaluate_simple D (strscpy (take i e)) of
                   Inl m \<Rightarrow> Inl m
                 | Inr a \<Rightarrow>
                     if p = Or \<and> c_eq D a (c_int D 1) then Inr a
                     else
                       (case evaluate_simple D (strscpy (drop (Suc i) e)) of
                          Inl m \<Rightarrow> Inl m
                        | Inr b \<Rightarrow>
                            apply_operator D p (used_buffer (strscpy (take i e)))
                              (used_buffer (strscpy (drop (Suc i) e))) a b))))"
  by pat_completeness auto
termination
  by (relation "measure (\<lambda>(D, s). operator_count s)") (auto dest: split_shrinks)

declare evaluate_simple.simps [simp del]

subsection \<open>Brackets\<close>

definition delete_spaces :: "string \<Rightarrow> string" where
  "delete_spaces s = filter (\<lambda>c. c \<noteq> CHR '' '') s"

text \<open>The last opening bracket at or before the place of the closing one.\<close>

definition bracket_left :: "string \<Rightarrow> nat \<Rightarrow> nat option" where
  "bracket_left s r = strrchr (take (Suc r) s) CHR ''(''"

text \<open>One round of the loop: the text of the innermost bracket that closes first is replaced by the
  printed value.\<close>

definition evaluate_round :: "'f calc \<Rightarrow> string \<Rightarrow> nat \<Rightarrow> string checked" where
  "evaluate_round D s r =
     (case bracket_left s r of
        None \<Rightarrow> Inl (Message (''Cannot find left bracket [(]. Expression:['' @ s @ '']''))
      | Some l \<Rightarrow>
          (case evaluate_simple D (take (r - Suc l) (drop (Suc l) s)) of
             Inl m \<Rightarrow> Inl m
           | Inr v \<Rightarrow>
               Inr (strscpy (delete_spaces
                     (take l s @ take (MAX_STRING_LEN - 2) (print_lf D v) @ drop (Suc r) s)))))"

text \<open>The loop, with the number of rounds it may take: \<^const>\<open>None\<close> is a loop that has
  not ended by then.\<close>

fun evaluate_loop :: "nat \<Rightarrow> 'f calc \<Rightarrow> string \<Rightarrow> string checked option" where
  "evaluate_loop n D s =
     (case strchr s CHR '')'' of
        None \<Rightarrow> Some (Inr s)
      | Some r \<Rightarrow>
          (case n of
             0 \<Rightarrow> None
           | Suc m \<Rightarrow>
               (case evaluate_round D s r of
                  Inl e \<Rightarrow> Some (Inl e)
                | Inr s' \<Rightarrow> evaluate_loop m D s')))"

declare evaluate_loop.simps [simp del]

definition evaluate :: "'f calc \<Rightarrow> string \<Rightarrow> int checked option" where
  "evaluate D s =
     (case evaluate_loop (count_list (strscpy s) CHR '')'') D (strscpy s) of
        None \<Rightarrow> None
      | Some (Inl e) \<Rightarrow> Some (Inl e)
      | Some (Inr t) \<Rightarrow>
          Some (case evaluate_simple D t of
                  Inl e \<Rightarrow> Inl e
                | Inr v \<Rightarrow> Inr (if cmp_double D v (c_int D 0) = 0 then TRIGGER_VALUE_FALSE
                                 else TRIGGER_VALUE_TRUE)))"

subsection \<open>Termination\<close>

lemma count_list_filter_le: "count_list (filter P s) c \<le> count_list s c"
  by (induction s) auto

lemma count_list_take_le: "count_list (take n s) c \<le> count_list s c"
  by (metis append_take_drop_id count_list_append le_add1)

lemma count_list_none: "c \<notin> set s \<Longrightarrow> count_list s c = 0"
  by (simp add: count_list_0_iff)

lemma bracket_left_SomeD:
  assumes "bracket_left s r = Some l" "strchr s CHR '')'' = Some r"
  shows "l < r"
proof -
  have r: "r < length s" "s ! r = CHR '')''" using strchr_SomeD [OF assms(2)] by auto
  have "l < length (take (Suc r) s)" "take (Suc r) s ! l = CHR ''(''"
    using strrchr_SomeD assms(1) unfolding bracket_left_def by blast+
  then have "l \<le> r" "s ! l = CHR ''(''" by auto
  moreover have "s ! l \<noteq> s ! r" using r calculation(2) by simp
  ultimately show ?thesis using le_neq_implies_less by blast
qed

lemma evaluate_round_closes:
  assumes "strchr s CHR '')'' = Some r" "evaluate_round D s r = Inr s'" "\<forall>v. CHR '')'' \<notin> set (print_lf D v)"
  shows "count_list s' CHR '')'' < count_list s CHR '')''"
proof -
  obtain l v where l: "bracket_left s r = Some l"
    and s': "s' = strscpy (delete_spaces (take l s @ take (MAX_STRING_LEN - 2) (print_lf D v) @ drop (Suc r) s))"
    using assms(2) by (auto simp: evaluate_round_def split: option.splits sum.splits)
  have r: "r < length s" "s ! r = CHR '')''" using strchr_SomeD [OF assms(1)] by auto
  have "CHR '')'' \<notin> set (take n (print_lf D v))" for n using assms(3) in_set_takeD by fast
  then have none: "count_list (take n (print_lf D v)) CHR '')'' = 0" for n by (rule count_list_none)
  have "count_list s' CHR '')'' \<le> count_list (take l s @ take (MAX_STRING_LEN - 2) (print_lf D v) @ drop (Suc r) s) CHR '')''"
    unfolding s' strscpy_def delete_spaces_def by (rule le_trans [OF count_list_take_le count_list_filter_le])
  also have "\<dots> = count_list (take l s) CHR '')'' + count_list (drop (Suc r) s) CHR '')''"
    using none by simp
  also have "\<dots> \<le> count_list (take r s) CHR '')'' + count_list (drop (Suc r) s) CHR '')''"
    using bracket_left_SomeD [OF l assms(1)] count_list_take_le [of l "take r s"] by (simp add: min_def)
  also have "\<dots> < count_list (take r s @ s ! r # drop (Suc r) s) CHR '')''" using r by simp
  also have "take r s @ s ! r # drop (Suc r) s = s" using r id_take_nth_drop by metis
  finally show ?thesis .
qed

lemma evaluate_loop_ends:
  assumes "\<forall>v. CHR '')'' \<notin> set (print_lf D v)" "count_list s CHR '')'' \<le> n"
  shows "evaluate_loop n D s \<noteq> None"
  using assms(2)
proof (induction n arbitrary: s)
  case 0
  then have "strchr s CHR '')'' = None" by (simp add: count_list_0_iff strchr_None_iff)
  then show ?case by (simp add: evaluate_loop.simps)
next
  case (Suc n)
  show ?case
  proof (cases "strchr s CHR '')''")
    case None
    then show ?thesis by (simp add: evaluate_loop.simps)
  next
    case r: (Some r)
    show ?thesis
    proof (cases "evaluate_round D s r")
      case (Inl e)
      then show ?thesis using r by (simp add: evaluate_loop.simps [of "Suc n"])
    next
      case (Inr s')
      have "count_list s' CHR '')'' \<le> n" using evaluate_round_closes [OF r Inr assms(1)] Suc(2) by simp
      then show ?thesis using Suc(1) [of s'] r Inr by (simp add: evaluate_loop.simps [of "Suc n"])
    qed
  qed
qed

text \<open>The loop of \<^const>\<open>evaluate\<close> ends on every text: the rounds allowed are the closing
  brackets of the text, and printed values have none.\<close>

lemma evaluate_total:
  assumes "\<forall>v. CHR '')'' \<notin> set (print_lf D v)"
  shows "evaluate D s \<noteq> None"
  using evaluate_loop_ends [OF assms, of "strscpy s", OF order_refl]
  unfolding evaluate_def
  by (cases "evaluate_loop (count_list (strscpy s) CHR '')'') D (strscpy s)") (auto split: sum.split)

end
