(* ===== verification/Formulas.thy ===== *)
theory Formulas
  imports Expression
begin

section \<open>Trigger expressions as trees\<close>

text \<open>
  The meaning of a trigger expression whose operations are in brackets, and the proof that
  \<^const>\<open>evaluate\<close>, which rewrites text, computes it.
\<close>

subsection \<open>Numbers with a sign\<close>

definition unsigned_number :: "string \<Rightarrow> bool" where
  "unsigned_number d \<longleftrightarrow> d \<noteq> [] \<and> one_dot False d"

definition negative :: "string \<Rightarrow> bool" where
  "negative s \<longleftrightarrow> s \<noteq> [] \<and> hd s = CHR ''-''"

definition magnitude :: "string \<Rightarrow> string" where
  "magnitude s = (if negative s then tl s else s)"

definition number :: "string \<Rightarrow> bool" where
  "number s \<longleftrightarrow> unsigned_number (magnitude s)"

definition signed_text :: "string \<Rightarrow> string" where
  "signed_text s = (if negative s then CHR ''N'' # magnitude s else magnitude s)"

definition signed_value :: "'f calc \<Rightarrow> string \<Rightarrow> 'f" where
  "signed_value D s = (if negative s then c_neg D (atof D (magnitude s)) else atof D (magnitude s))"

definition negated :: "string \<Rightarrow> string" where
  "negated s = (if negative s then magnitude s else CHR ''-'' # s)"

lemma num_char_neq:
  "num_char c \<Longrightarrow> c \<noteq> CHR '' ''" "num_char c \<Longrightarrow> c \<noteq> CHR ''N''" "num_char c \<Longrightarrow> c \<noteq> CHR ''+''"
  "num_char c \<Longrightarrow> c \<noteq> CHR ''-''" "num_char c \<Longrightarrow> c \<noteq> CHR ''(''" "num_char c \<Longrightarrow> c \<noteq> CHR '')''"
  "num_char c \<Longrightarrow> c \<noteq> CHR ''{''" "num_char c \<Longrightarrow> c \<noteq> CHR ''}''"
  "num_char c \<Longrightarrow> \<not> is_sign c" "num_char c \<Longrightarrow> c \<notin> operator_char ` set operators"
  by (auto simp: is_digit_iff is_sign_def operators_def)

lemma unsigned_chars: "unsigned_number d \<Longrightarrow> c \<in> set d \<Longrightarrow> num_char c"
  using one_dot_num_chars unfolding unsigned_number_def by blast

lemma unsigned_not_negative: "unsigned_number d \<Longrightarrow> \<not> negative d"
  unfolding negative_def using unsigned_chars num_char_neq(4) by (metis hd_in_set)

lemma number_cases:
  assumes "number s"
  obtains (minus) d where "s = CHR ''-'' # d" "unsigned_number d" "negative s" "magnitude s = d"
  | (plain) "unsigned_number s" "\<not> negative s" "magnitude s = s"
proof (cases "negative s")
  case True
  then obtain d where "s = CHR ''-'' # d" unfolding negative_def by (cases s) auto
  then show ?thesis using minus [of d] True assms by (simp add: number_def magnitude_def)
next
  case False
  then show ?thesis using plain assms by (simp add: number_def magnitude_def)
qed

lemma signed_text_minus [simp]: "unsigned_number d \<Longrightarrow> signed_text (CHR ''-'' # d) = CHR ''N'' # d"
  by (simp add: signed_text_def negative_def magnitude_def)

lemma signed_text_plain [simp]: "unsigned_number d \<Longrightarrow> signed_text d = d"
  using unsigned_not_negative by (simp add: signed_text_def magnitude_def)

lemma signed_text_length: "length (signed_text s) = length s"
  by (auto simp: signed_text_def magnitude_def negative_def)

lemma number_negated:
  assumes "number s"
  shows "number (negated s)"
  using assms
proof (cases rule: number_cases)
  case (minus d)
  then show ?thesis using unsigned_not_negative [of d] by (simp add: negated_def number_def magnitude_def)
next
  case plain
  then show ?thesis by (auto simp: negated_def number_def magnitude_def negative_def)
qed

subsection \<open>Trimming\<close>

lemma merge_pass_plain: "\<forall>c \<in> set d. \<not> is_sign c \<Longrightarrow> merge_pass (d @ s) = (d @ fst (merge_pass s), snd (merge_pass s))"
proof (induction d)
  case (Cons a d)
  show ?case
  proof (cases "d @ s")
    case Nil
    then show ?thesis by simp
  next
    case (Cons b r)
    then have "merge_pass (a # d @ s) = (a # fst (merge_pass (d @ s)), snd (merge_pass (d @ s)))"
      using Cons.prems by simp
    then show ?thesis using Cons.IH Cons.prems by simp
  qed
qed simp

lemma merge_pass_sign: "is_sign a \<Longrightarrow> s = [] \<or> \<not> is_sign (hd s) \<Longrightarrow> merge_pass (a # s) = (a # fst (merge_pass s), snd (merge_pass s))"
  by (cases s) auto

lemma merge_pass_no_sign: "\<forall>c \<in> set d. \<not> is_sign c \<Longrightarrow> merge_pass d = (d, False)"
  using merge_pass_plain [of d "[]"] by simp

lemma mark_signs_plain:
  "\<forall>c \<in> set d. \<not> is_sign c \<Longrightarrow>
   mark_signs prev (d @ s) = d @ mark_signs (if d = [] then prev else Some (List.last d)) s"
  by (induction d arbitrary: prev) (auto simp: is_sign_def)

lemma no_signs: "unsigned_number d \<Longrightarrow> \<forall>c \<in> set d. \<not> is_sign c"
  using unsigned_chars num_char_neq(9) by blast

lemma lrtrim_id: "CHR '' '' \<notin> set s \<Longrightarrow> lrtrim_spaces s = s"
  unfolding lrtrim_spaces_def ltrim_spaces_eq rtrim_spaces_def
  by (subst dropWhile_eq_self_iff [THEN iffD2], (cases s; force),
      subst dropWhile_eq_self_iff [THEN iffD2], (cases "rev s"; force), simp)

lemma after_unsigned: "unsigned_number d \<Longrightarrow> after_number (Some (List.last d))"
  using unsigned_chars [of d "List.last d"] by (simp add: after_number_def unsigned_number_def)


lemma merge_pass_binary:
  assumes "number x" "number y"
  shows "merge_pass (x @ c # y) =
    (if is_sign c \<and> negative y then (x @ merge_signs c CHR ''-'' # magnitude y, True) else (x @ c # y, False))"
proof -
  have tail: "merge_pass (c # y) =
      (if is_sign c \<and> negative y then (merge_signs c CHR ''-'' # magnitude y, True) else (c # y, False))"
    using assms(2)
  proof (cases rule: number_cases)
    case (minus d)
    have d: "merge_pass d = (d, False)" using merge_pass_no_sign no_signs minus(2) by blast
    have "d \<noteq> []" "\<not> is_sign (hd d)" using minus(2) no_signs by (auto simp: unsigned_number_def)
    then have "merge_pass (CHR ''-'' # d) = (CHR ''-'' # d, False)"
      using d by (subst merge_pass_sign) (auto simp: is_sign_def)
    then show ?thesis using minus d by (simp add: is_sign_def)
  next
    case plain
    have "merge_pass y = (y, False)" using merge_pass_no_sign no_signs plain(1) by blast
    moreover have "y \<noteq> []" "\<not> is_sign (hd y)" using plain(1) no_signs by (auto simp: unsigned_number_def)
    ultimately show ?thesis using plain merge_pass_sign [of c y] merge_pass_plain [of "[c]" y] by (cases y) auto
  qed
  have plain: "merge_pass (d @ c # y) = (d @ fst (merge_pass (c # y)), snd (merge_pass (c # y)))"
    if "unsigned_number d" for d
    using merge_pass_plain [OF no_signs [OF that]] .
  show ?thesis using assms(1)
  proof (cases rule: number_cases)
    case (minus d)
    have "d \<noteq> []" "\<not> is_sign (hd d)" using minus(2) no_signs by (auto simp: unsigned_number_def)
    then have "merge_pass (x @ c # y) = (CHR ''-'' # fst (merge_pass (d @ c # y)), snd (merge_pass (d @ c # y)))"
      unfolding minus(1) append_Cons by (intro merge_pass_sign) (auto simp: is_sign_def)
    then show ?thesis using plain [OF minus(2)] tail minus(1) by (simp del: merge_pass.simps)
  next
    case 2: plain
    then show ?thesis using plain [OF 2(1)] tail by (simp del: merge_pass.simps)
  qed
qed

lemma merge_loop_step: "merge_pass s = (t, True) \<Longrightarrow> merge_loop s = merge_loop t"
  and merge_loop_stop: "merge_pass s = (t, False) \<Longrightarrow> merge_loop s = t"
  by (simp_all add: merge_loop.simps [of s])

lemma number_magnitude: "number s \<Longrightarrow> number (magnitude s) \<and> \<not> negative (magnitude s)"
  unfolding number_def using unsigned_not_negative by (auto simp: magnitude_def [of "magnitude s"])

lemma merge_loop_binary:
  assumes "number x" "number y"
  shows "merge_loop (x @ c # y) =
    (if is_sign c \<and> negative y then x @ merge_signs c CHR ''-'' # magnitude y else x @ c # y)"
proof (cases "is_sign c \<and> negative y")
  case True
  have "merge_pass (x @ merge_signs c CHR ''-'' # magnitude y) = (x @ merge_signs c CHR ''-'' # magnitude y, False)"
    using merge_pass_binary [OF assms(1)] number_magnitude [OF assms(2)] by simp
  then show ?thesis using merge_loop_step merge_loop_stop merge_pass_binary [OF assms, of c] True by metis
next
  case False
  then have "merge_pass (x @ c # y) = (x @ c # y, False)" using merge_pass_binary [OF assms] by simp
  then show ?thesis using False merge_loop_stop by auto
qed

lemma mark_number:
  assumes "number s" "\<not> after_number prev"
  shows "mark_signs prev (s @ r) = signed_text s @ mark_signs (Some (List.last (magnitude s))) r"
  using assms(1)
proof (cases rule: number_cases)
  case (minus d)
  then show ?thesis using assms(2) mark_signs_plain [OF no_signs [OF minus(2)], of "Some CHR ''N''" r]
    by (simp add: unsigned_number_def)
next
  case plain
  then show ?thesis using mark_signs_plain [OF no_signs [OF plain(1)], of prev r]
    by (simp add: unsigned_number_def)
qed

text \<open>The operator and the second operand as they are after the signs are compressed: a minus becomes
  a plus before the negated operand.\<close>

fun plus_form :: "operator \<Rightarrow> operator" where
  "plus_form Minus = Plus"
| "plus_form p = p"

definition plus_operand :: "operator \<Rightarrow> string \<Rightarrow> string" where
  "plus_operand p y = (if p = Minus then negated y else y)"

lemma operator_sign: "is_sign (operator_char p) \<longleftrightarrow> p = Plus \<or> p = Minus"
  by (cases p) (simp_all add: is_sign_def)

lemma operator_not_number: "\<not> after_number (Some (operator_char p))"
  by (cases p) (simp_all add: after_number_def is_digit_iff)

lemma number_chars: "number s \<Longrightarrow> c \<in> set s \<Longrightarrow> num_char c \<or> c = CHR ''-''"
  by (erule number_cases) (use unsigned_chars in auto)

lemma trim_binary:
  assumes x: "number x" and y: "number y"
  shows "trim_signs (x @ operator_char p # y) =
    signed_text x @ operator_char (plus_form p) # signed_text (plus_operand p y)"
proof -
  have "CHR '' '' \<notin> set (x @ operator_char p # y)"
    using number_chars x y num_char_neq(1) by (cases p) fastforce+
  then have trim: "trim_signs (x @ operator_char p # y) = mark_signs None (merge_loop (x @ operator_char p # y))"
    by (simp add: trim_signs_def compress_signs_def lrtrim_id)
  have after: "after_number (Some (List.last (magnitude x)))" using x after_unsigned by (simp add: number_def)
  have mark: "mark_signs None (x @ r) = signed_text x @ mark_signs (Some (List.last (magnitude x))) r" for r
    using mark_number [OF x] by (simp add: after_number_def)
  have plain: "mark_signs prev (magnitude y) = magnitude y" for prev
    using mark_signs_plain [OF no_signs, of "magnitude y" prev "[]"] y by (simp add: number_def)
  have op: "mark_signs (Some (operator_char p)) y = signed_text y"
    using mark_number [OF y operator_not_number, of p "[]"] by simp
  show ?thesis
  proof (cases "p = Plus \<or> p = Minus")
    case True
    then show ?thesis unfolding trim merge_loop_binary [OF x y] using after plain
      by (cases rule: number_cases [OF y])
        (auto simp: operator_sign merge_signs_def mark plus_operand_def negated_def)
  next
    case False
    then have "plus_form p = p" "plus_operand p y = y" by (cases p; simp add: plus_operand_def)+
    moreover have "\<not> is_sign (operator_char p)" using False operator_sign by blast
    then have "mark_signs (Some (List.last (magnitude x))) (operator_char p # y) = operator_char p # signed_text y"
      using op by (simp add: is_sign_def)
    ultimately show ?thesis using False by (simp add: trim merge_loop_binary [OF x y] operator_sign mark)
  qed
qed

lemma merge_loop_number:
  assumes "number x"
  shows "merge_loop x = x"
proof (rule merge_loop_stop)
  have plain: "merge_pass d = (d, False)" if "unsigned_number d" for d
    using merge_pass_no_sign no_signs that by blast
  show "merge_pass x = (x, False)"
    using assms
  proof (cases rule: number_cases)
    case (minus d)
    moreover have "d \<noteq> []" "\<not> is_sign (hd d)" using minus(2) no_signs by (auto simp: unsigned_number_def)
    ultimately show ?thesis using plain [of d] merge_pass_sign [of "CHR ''-''" d] by (simp add: is_sign_def)
  qed (use plain in simp)
qed

lemma trim_number:
  assumes "number x"
  shows "trim_signs x = signed_text x"
proof -
  have "CHR '' '' \<notin> set x" using number_chars [OF assms] num_char_neq(1) by fastforce
  then show ?thesis using mark_number [OF assms, of None "[]"]
    by (simp add: trim_signs_def compress_signs_def lrtrim_id merge_loop_number assms after_number_def)
qed

text \<open>Text that is already in this form stays as it is.\<close>

lemma trim_signed_text:
  assumes "number x"
  shows "trim_signs (signed_text x) = signed_text x"
  using assms
proof (cases rule: number_cases)
  case (minus d)
  have N: "\<forall>c \<in> set (CHR ''N'' # d). \<not> is_sign c" using no_signs [OF minus(2)] by (simp add: is_sign_def)
  have "CHR '' '' \<notin> set (CHR ''N'' # d)" using unsigned_chars [OF minus(2)] num_char_neq(1) by fastforce
  moreover have "merge_loop (CHR ''N'' # d) = CHR ''N'' # d" using merge_loop_stop merge_pass_no_sign [OF N] by blast
  moreover have "mark_signs None (CHR ''N'' # d) = CHR ''N'' # d" using mark_signs_plain [OF N, of None "[]"] by simp
  ultimately show ?thesis using minus by (simp add: trim_signs_def compress_signs_def lrtrim_id del: mark_signs.simps)
next
  case plain
  then show ?thesis using trim_number [OF assms] by simp
qed

subsection \<open>One operation\<close>

lemma prefix_unsigned:
  assumes "unsigned_number d"
  shows "is_double_prefix d = SUCCEED"
proof -
  have "\<forall>c \<in> set d. num_char c" using unsigned_chars [OF assms] by blast
  then have eq: "takeWhile num_char d = d" "dropWhile num_char d = []" by simp_all
  have "one_dot False d" "\<not> (d \<noteq> [] \<and> hd d = CHR ''-'')"
    using assms unsigned_not_negative [OF assms] by (auto simp: unsigned_number_def negative_def)
  then show ?thesis by (simp only: is_double_prefix_eval Let_def unit_suffix_def eq if_False) simp
qed

lemma operator_char_neq:
  "\<not> num_char (operator_char p)" "operator_char p \<noteq> CHR ''K''" "operator_char p \<noteq> CHR ''M''"
  "operator_char p \<noteq> CHR ''G''" "operator_char p \<noteq> CHR ''N''" "operator_char p \<noteq> CHR ''(''" "operator_char p \<noteq> CHR '')''"
  "operator_char p \<noteq> CHR '' ''" "operator_char p \<noteq> CHR ''{''" "operator_char p \<noteq> CHR ''}''"
  by (cases p; simp add: is_digit_iff)+

lemmas operator_char_neq_sym = operator_char_neq(6-10) [THEN not_sym]

lemma prefix_binary:
  assumes "unsigned_number d"
  shows "is_double_prefix (d @ operator_char p # r) = FAIL"
proof -
  have "takeWhile num_char (d @ operator_char p # r) = d" "dropWhile num_char (d @ operator_char p # r) = operator_char p # r"
    using unsigned_chars [OF assms] operator_char_neq(1) [of p] by (simp_all add: takeWhile_append2 dropWhile_append2)
  moreover have "d \<noteq> []" "hd d \<noteq> CHR ''-''"
    using assms unsigned_not_negative [OF assms] by (auto simp: unsigned_number_def negative_def)
  ultimately show ?thesis using operator_char_neq [of p] by (simp add: is_double_prefix_eval unit_suffix_def)
qed

lemma str2double_unsigned:
  assumes "unsigned_number d"
  shows "str2double D before d = Inr (atof D d)" "cut_suffix d = d"
proof -
  have "num_char (List.last d)" "d \<noteq> []" using assms unsigned_chars by (auto simp: unsigned_number_def)
  then show "str2double D before d = Inr (atof D d)" "cut_suffix d = d"
    by (auto simp: str2double_def last_char_def cut_suffix_def is_digit_iff)
qed

lemma unsigned_not_N: "unsigned_number d \<Longrightarrow> \<not> starts_N (d @ r)"
  using unsigned_chars [of d "hd d"] num_char_neq(2) [of "hd d"] by (auto simp: starts_N_def unsigned_number_def)

lemma evaluate_number:
  assumes "number x"
  shows "evaluate_simple D x = Inr (signed_value D x)"
  using assms
proof (cases rule: number_cases)
  case (minus d)
  then show ?thesis using trim_number [OF assms] prefix_unsigned [OF minus(2)]
    by (simp add: str2double_unsigned [OF minus(2)] evaluate_simple.simps [of D "CHR ''-'' # d"] starts_N_def signed_value_def Let_def)
next
  case plain
  then show ?thesis using trim_number [OF assms] prefix_unsigned [OF plain(1)] unsigned_not_N [OF plain(1), of "[]"]
    by (simp add: str2double_unsigned [OF plain(1)] evaluate_simple.simps [of D x] signed_value_def Let_def)
qed

lemma evaluate_signed_text:
  assumes "number x"
  shows "evaluate_simple D (signed_text x) = Inr (signed_value D x)" "used_buffer (signed_text x) = signed_text x"
proof -
  have "evaluate_simple D (signed_text x) = Inr (signed_value D x) \<and> used_buffer (signed_text x) = signed_text x"
    using assms
  proof (cases rule: number_cases)
    case (minus d)
    then show ?thesis using trim_signed_text [OF assms] prefix_unsigned [OF minus(2)]
      by (simp add: str2double_unsigned [OF minus(2)] evaluate_simple.simps [of D "CHR ''N'' # d"] used_buffer_def starts_N_def signed_value_def Let_def)
  next
    case plain
    then show ?thesis
      using trim_signed_text [OF assms] prefix_unsigned [OF plain(1)] unsigned_not_N [OF plain(1), of "[]"]
      by (simp add: str2double_unsigned [OF plain(1)] evaluate_simple.simps [of D x] used_buffer_def signed_value_def Let_def)
  qed
  then show "evaluate_simple D (signed_text x) = Inr (signed_value D x)" "used_buffer (signed_text x) = signed_text x"
    by blast+
qed

lemma signed_text_chars:
  assumes "number x" "c \<in> set (signed_text x)"
  shows "num_char c \<or> c = CHR ''N''"
  using assms by (cases rule: number_cases) (use unsigned_chars in auto)

lemma strchr_other:
  assumes "number x" "number y"
  shows "strchr (signed_text x @ operator_char p # signed_text y) (operator_char q) =
    (if p = q then Some (length (signed_text x)) else None)"
proof -
  have "operator_char q \<notin> set (signed_text z)" if "number z" for z
    using signed_text_chars [OF that] operator_char_neq by blast
  moreover have "operator_char p = operator_char q \<longleftrightarrow> p = q" by (cases p; cases q; simp)
  ultimately show ?thesis using assms strchr_append by (auto simp: strchr_None_iff)
qed

lemma split_binary:
  assumes "number x" "number y"
  shows "split_operator operators (signed_text x @ operator_char p # signed_text y) = Some (p, length (signed_text x))"
  unfolding operators_def by (cases p) (simp_all add: strchr_other [OF assms] del: operator_char.simps)

lemma not_a_number:
  assumes "number x"
  shows "\<not> (starts_N (signed_text x @ operator_char p # r) \<and> is_double_prefix (tl (signed_text x @ operator_char p # r)) = SUCCEED)"
    "\<not> (\<not> starts_N (signed_text x @ operator_char p # r) \<and> is_double_prefix (signed_text x @ operator_char p # r) = SUCCEED)"
proof -
  show "\<not> (starts_N (signed_text x @ operator_char p # r) \<and> is_double_prefix (tl (signed_text x @ operator_char p # r)) = SUCCEED)"
    using assms by (cases rule: number_cases) (use prefix_binary unsigned_not_N in auto)
  show "\<not> (\<not> starts_N (signed_text x @ operator_char p # r) \<and> is_double_prefix (signed_text x @ operator_char p # r) = SUCCEED)"
    using assms by (cases rule: number_cases) (use prefix_binary in \<open>auto simp: starts_N_def\<close>)
qed

text \<open>What an operation on two numbers means: comparisons and connectives give one or zero, equality
  is up to a millionth, and a connective takes a number for true when it is one.\<close>

definition near :: "'f calc \<Rightarrow> 'f \<Rightarrow> 'f \<Rightarrow> bool" where
  "near D a b \<longleftrightarrow> c_lt D (c_abs D (c_sub D a b)) (c_millionth D)"

definition operation_value :: "'f calc \<Rightarrow> operator \<Rightarrow> string \<Rightarrow> string \<Rightarrow> 'f checked" where
  "operation_value D p x y =
     (let a = signed_value D x; b = signed_value D y; one = c_int D 1; zero = c_int D 0
      in case p of
           Or \<Rightarrow> Inr (if c_eq D a one then a else if c_eq D b one then b else zero)
         | And \<Rightarrow> Inr (if c_eq D a one \<and> c_eq D b one then one else zero)
         | Eq \<Rightarrow> Inr (if near D a b then one else zero)
         | Ne \<Rightarrow> Inr (if near D a b then zero else one)
         | Gt \<Rightarrow> Inr (if c_lt D b a then one else zero)
         | Lt \<Rightarrow> Inr (if c_lt D a b then one else zero)
         | Plus \<Rightarrow> Inr (c_add D a b)
         | Minus \<Rightarrow> Inr (c_sub D a b)
         | Times \<Rightarrow> Inr (c_mul D a b)
         | Divide \<Rightarrow>
             if near D b zero then
               Inl (Message (''Division by zero. Cannot evaluate expression ['' @ signed_text x @ ''/'' @ signed_text y @ '']''))
             else Inr (c_div D a b))"

lemma operation_value_unfold:
  "operation_value D p x y =
     (if p = Or \<and> c_eq D (signed_value D x) (c_int D 1) then Inr (signed_value D x)
      else apply_operator D p (signed_text x) (signed_text y) (signed_value D x) (signed_value D y))"
  by (cases p) (simp_all add: operation_value_def apply_operator_def truth_def cmp_double_def near_def Let_def)

definition exact_signs :: "'f calc \<Rightarrow> bool" where
  "exact_signs D \<longleftrightarrow> (\<forall>a. c_neg D (c_neg D a) = a) \<and> (\<forall>a b. c_sub D a b = c_add D a (c_neg D b))"

lemma signed_value_negated:
  assumes "number y" "exact_signs D"
  shows "signed_value D (negated y) = c_neg D (signed_value D y)"
  using assms(1)
proof (cases rule: number_cases)
  case (minus d)
  then show ?thesis using assms(2) unsigned_not_negative [of d]
    by (simp add: negated_def signed_value_def magnitude_def exact_signs_def)
next
  case plain
  then show ?thesis by (auto simp: negated_def signed_value_def magnitude_def negative_def)
qed

lemma evaluate_binary:
  assumes x: "number x" and y: "number y" and D: "exact_signs D"
    and len: "length x + length y + 1 < MAX_STRING_LEN"
  shows "evaluate_simple D (x @ operator_char p # y) = operation_value D p x y"
proof -
  let ?q = "plus_form p" and ?z = "plus_operand p y"
  have z: "number ?z" using y number_negated by (simp add: plus_operand_def)
  have "length ?z \<le> Suc (length y)" by (auto simp: magnitude_def negated_def plus_operand_def)
  moreover have "x \<noteq> []" using x by (auto simp: number_def unsigned_number_def magnitude_def negative_def)
  ultimately have short: "strscpy (signed_text x) = signed_text x" "strscpy (signed_text ?z) = signed_text ?z"
    using len signed_text_length by (simp_all add: strscpy_def)
  define e where "e = signed_text x @ operator_char ?q # signed_text ?z"
  have e: "trim_signs (x @ operator_char p # y) = e" using trim_binary [OF x y] by (simp add: e_def)
  have no: "\<not> (starts_N e \<and> is_double_prefix (tl e) = SUCCEED)"
    "\<not> (\<not> starts_N e \<and> is_double_prefix e = SUCCEED)"
    unfolding e_def using not_a_number [OF x] by blast+
  have split: "split_operator operators e = Some (?q, length (signed_text x))"
    using split_binary [OF x z] by (simp add: e_def)
  have parts: "take (length (signed_text x)) e = signed_text x" "drop (Suc (length (signed_text x))) e = signed_text ?z"
    by (simp_all add: e_def)
  have "evaluate_simple D (x @ operator_char p # y) =
      (if ?q = Or \<and> c_eq D (signed_value D x) (c_int D 1) then Inr (signed_value D x)
       else apply_operator D ?q (signed_text x) (signed_text ?z) (signed_value D x) (signed_value D ?z))"
    unfolding evaluate_simple.simps [of D "x @ operator_char p # y"] Let_def e if_not_P [OF no(1)] if_not_P [OF no(2)]
      split option.case prod.case parts short evaluate_signed_text [OF x] evaluate_signed_text [OF z] sum.case
    by (rule refl)
  also have "\<dots> = operation_value D p x y"
    using signed_value_negated [OF y D] D
    by (cases p) (simp_all add: operation_value_unfold plus_operand_def apply_operator_def exact_signs_def)
  finally show ?thesis .
qed

subsection \<open>Trees\<close>

datatype 'a formula = Leaf 'a | Operation "'a formula" operator "'a formula"

text \<open>The text of a tree, every operation in brackets, with the text of the leaves as an argument.\<close>

fun bracketed :: "('a \<Rightarrow> string) \<Rightarrow> 'a formula \<Rightarrow> string" where
  "bracketed h (Leaf a) = h a"
| "bracketed h (Operation l p r) =
     CHR ''('' # bracketed h l @ operator_char p # bracketed h r @ '')''"

text \<open>What the text of a tree is reduced to: the number of a leaf, the printed value of an operation.\<close>

fun reduce :: "'f calc \<Rightarrow> string formula \<Rightarrow> string checked" where
  "reduce D (Leaf s) = Inr s"
| "reduce D (Operation l p r) =
     (case reduce D l of
        Inl e \<Rightarrow> Inl e
      | Inr x \<Rightarrow>
          (case reduce D r of
             Inl e \<Rightarrow> Inl e
           | Inr y \<Rightarrow>
               (case operation_value D p x y of Inl e \<Rightarrow> Inl e | Inr v \<Rightarrow> Inr (print_lf D v))))"

text \<open>Leaves and printed values are numbers, and the longest text on the way.\<close>

fun prints_numbers :: "'f calc \<Rightarrow> string formula \<Rightarrow> bool" where
  "prints_numbers D (Leaf s) = number s"
| "prints_numbers D (Operation l p r) =
     (prints_numbers D l \<and> prints_numbers D r
      \<and> (case reduce D (Operation l p r) of Inl e \<Rightarrow> True | Inr s \<Rightarrow> number s))"

fun room :: "'f calc \<Rightarrow> string formula \<Rightarrow> nat" where
  "room D (Leaf s) = length s"
| "room D (Operation l p r) =
     max (room D l + room D r + 3)
         (case reduce D (Operation l p r) of Inl e \<Rightarrow> 0 | Inr s \<Rightarrow> length s)"

fun operations :: "'a formula \<Rightarrow> nat" where
  "operations (Leaf a) = 0"
| "operations (Operation l p r) = Suc (operations l + operations r)"

lemma reduce_number: "prints_numbers D t \<Longrightarrow> reduce D t = Inr s \<Longrightarrow> number s"
  by (cases t) (auto split: sum.splits)

lemma reduce_length: "reduce D t = Inr s \<Longrightarrow> length s \<le> room D t"
  by (cases t) auto

lemma number_no_brackets:
  "number s \<Longrightarrow> CHR ''('' \<notin> set s \<and> CHR '')'' \<notin> set s \<and> CHR '' '' \<notin> set s"
  using number_chars num_char_neq by fastforce

lemma bracketed_no_blank: "prints_numbers D t \<Longrightarrow> CHR '' '' \<notin> set (bracketed (\<lambda>s. s) t)"
  by (induction t) (auto simp: number_no_brackets operator_char_neq_sym)

lemma bracketed_length: "length (bracketed (\<lambda>s. s) t) \<le> room D t"
  by (induction t) auto

text \<open>One round on a bracket that holds one operation.\<close>

lemma round_operation:
  assumes x: "number x" and y: "number y" and D: "exact_signs D"
    and pre: "CHR '')'' \<notin> set pre" "CHR '' '' \<notin> set pre" and post: "CHR '' '' \<notin> set post"
    and len: "length pre + length x + length y + length post + 3 < MAX_STRING_LEN - 1"
    and printed: "\<And>v. operation_value D p x y = Inr v \<Longrightarrow>
      number (print_lf D v) \<and> length pre + length (print_lf D v) + length post < MAX_STRING_LEN - 1"
  shows "evaluate_loop (Suc n) D (pre @ CHR ''('' # x @ operator_char p # y @ CHR '')'' # post) =
    (case operation_value D p x y of
       Inl e \<Rightarrow> Some (Inl e)
     | Inr v \<Rightarrow> evaluate_loop n D (pre @ print_lf D v @ post))"
proof -
  let ?in = "x @ operator_char p # y" and ?l = "length pre"
  define s where "s = pre @ CHR ''('' # x @ operator_char p # y @ CHR '')'' # post"
  define r where "r = ?l + Suc (length ?in)"
  note blank = number_no_brackets [OF x] number_no_brackets [OF y] operator_char_neq [of p] operator_char_neq_sym [of p]
  have front: "s = (pre @ CHR ''('' # ?in) @ CHR '')'' # post" by (simp add: s_def)
  have r: "strchr s CHR '')'' = Some r"
    unfolding front using strchr_append [of "CHR '')''" "pre @ CHR ''('' # ?in" post] blank pre by (auto simp: r_def)
  have "s = (pre @ CHR ''('' # (?in @ '')'')) @ post" "Suc r = length (pre @ CHR ''('' # (?in @ '')''))"
    by (simp_all add: s_def r_def)
  then have cut: "take (Suc r) s = pre @ CHR ''('' # (?in @ '')'')" "drop (Suc r) s = post"
    by (metis append_eq_conv_conj)+
  then have l: "bracket_left s r = Some ?l"
    using strrchr_append [of "CHR ''(''" "?in @ '')''" pre] blank cut(1) by (auto simp: bracket_left_def)
  have inner: "take (r - Suc ?l) (drop (Suc ?l) s) = ?in" by (simp add: s_def r_def)
  have outer: "take ?l s = pre" "drop (Suc r) s = post" using cut(2) by (simp_all add: s_def)
  have inside: "evaluate_simple D ?in = operation_value D p x y"
    using evaluate_binary [OF x y D] len by simp
  have "evaluate_loop n D (strscpy (delete_spaces (pre @ take (MAX_STRING_LEN - 2) (print_lf D v) @ post))) =
      evaluate_loop n D (pre @ print_lf D v @ post)" if "operation_value D p x y = Inr v" for v
  proof -
    have short: "take (MAX_STRING_LEN - 2) (print_lf D v) = print_lf D v"
      using printed [OF that] by (simp, linarith)
    have "\<forall>c \<in> set (pre @ print_lf D v @ post). c \<noteq> CHR '' ''"
      using pre post printed [OF that] number_no_brackets by auto
    then have "delete_spaces (pre @ print_lf D v @ post) = pre @ print_lf D v @ post"
      unfolding delete_spaces_def by (rule filter_True)
    moreover have "strscpy (pre @ print_lf D v @ post) = pre @ print_lf D v @ post"
      unfolding strscpy_def using printed [OF that] by (intro take_all) simp
    ultimately show ?thesis by (simp add: short)
  qed
  then show ?thesis
    using r l inside unfolding s_def [symmetric] evaluate_loop.simps [of "Suc n" D s] evaluate_round_def
    by (auto simp: inner outer split: sum.split)
qed

lemma reduce_loop:
  assumes D: "exact_signs D" and "prints_numbers D t"
    and "CHR '')'' \<notin> set pre" "CHR '' '' \<notin> set pre" "CHR '' '' \<notin> set post"
    and "length pre + room D t + length post < MAX_STRING_LEN - 1"
  shows "evaluate_loop (operations t + n) D (pre @ bracketed (\<lambda>s. s) t @ post) =
    (case reduce D t of Inl e \<Rightarrow> Some (Inl e) | Inr s \<Rightarrow> evaluate_loop n D (pre @ s @ post))"
  using assms(2-6)
proof (induction t arbitrary: pre post n)
  case (Operation l p r)
  let ?pre1 = "pre @ ''(''" and ?post1 = "operator_char p # bracketed (\<lambda>s. s) r @ CHR '')'' # post"
  have lr: "prints_numbers D l" "prints_numbers D r" using Operation.prems by auto
  have len: "length pre + room D l + room D r + 3 + length post < MAX_STRING_LEN - 1" using Operation.prems by simp
  have blank: "CHR '' '' \<notin> set ?post1"
    using bracketed_no_blank [OF lr(2)] Operation.prems(4) operator_char_neq_sym [of p] by simp
  have left: "evaluate_loop (operations l + (operations r + Suc n)) D (?pre1 @ bracketed (\<lambda>s. s) l @ ?post1) =
      (case reduce D l of Inl e \<Rightarrow> Some (Inl e)
       | Inr s \<Rightarrow> evaluate_loop (operations r + Suc n) D (?pre1 @ s @ ?post1))"
    using Operation.IH(1) [OF lr(1), of ?pre1 ?post1 "operations r + Suc n"] Operation.prems blank len bracketed_length [of r D] by simp
  show ?case
  proof (cases "reduce D l")
    case (Inl e)
    then show ?thesis using left by (simp add: ac_simps)
  next
    case x: (Inr x)
    have nx: "number x" "length x \<le> room D l" using reduce_number [OF lr(1) x] reduce_length [OF x] by auto
    let ?pre2 = "pre @ CHR ''('' # x @ [operator_char p]" and ?post2 = "CHR '')'' # post"
    have right: "evaluate_loop (operations r + Suc n) D (?pre2 @ bracketed (\<lambda>s. s) r @ ?post2) =
      (case reduce D r of Inl e \<Rightarrow> Some (Inl e)
       | Inr s \<Rightarrow> evaluate_loop (Suc n) D (?pre2 @ s @ ?post2))"
      using Operation.IH(2) [OF lr(2), of ?pre2 ?post2 "Suc n"] Operation.prems number_no_brackets [OF nx(1)]
        operator_char_neq_sym [of p] nx(2) len by simp
    show ?thesis
    proof (cases "reduce D r")
      case (Inl e)
      then show ?thesis using left right x by (simp add: ac_simps)
    next
      case y: (Inr y)
      have ny: "number y" "length y \<le> room D r" using reduce_number [OF lr(2) y] reduce_length [OF y] by auto
      have printed: "number (print_lf D v) \<and> length pre + length (print_lf D v) + length post < MAX_STRING_LEN - 1"
        if "operation_value D p x y = Inr v" for v
        using Operation.prems x y that by simp
      show ?thesis
        using left right x y
          round_operation [OF nx(1) ny(1) D Operation.prems(2,3,4), where p = p and n = n] printed len nx(2) ny(2)
        by (auto simp: ac_simps split: sum.split)
    qed
  qed
qed simp

subsection \<open>The whole text\<close>

fun formula_text :: "('a \<Rightarrow> string) \<Rightarrow> 'a formula \<Rightarrow> string" where
  "formula_text h (Leaf a) = h a"
| "formula_text h (Operation l p r) = bracketed h l @ operator_char p # bracketed h r"

fun meaning :: "'f calc \<Rightarrow> string formula \<Rightarrow> 'f checked" where
  "meaning D (Leaf s) = Inr (signed_value D s)"
| "meaning D (Operation l p r) =
     (case reduce D l of
        Inl e \<Rightarrow> Inl e
      | Inr x \<Rightarrow> (case reduce D r of Inl e \<Rightarrow> Inl e | Inr y \<Rightarrow> operation_value D p x y))"

definition verdict :: "'f calc \<Rightarrow> 'f \<Rightarrow> int" where
  "verdict D v = (if cmp_double D v (c_int D 0) = 0 then TRIGGER_VALUE_FALSE else TRIGGER_VALUE_TRUE)"

fun fits :: "'f calc \<Rightarrow> string formula \<Rightarrow> bool" where
  "fits D (Leaf s) = (number s \<and> length s < MAX_STRING_LEN - 1)"
| "fits D (Operation l p r) =
     (prints_numbers D l \<and> prints_numbers D r \<and> room D l + room D r + 3 < MAX_STRING_LEN - 1)"

lemma bracketed_closing:
  "prints_numbers D t \<Longrightarrow> count_list (bracketed (\<lambda>s. s) t) CHR '')'' = operations t"
  by (induction t) (auto simp: count_list_none number_no_brackets operator_char_neq operator_char_neq_sym)

lemma formula_text_closing:
  "fits D t \<Longrightarrow> count_list (formula_text (\<lambda>s. s) t) CHR '')'' = (case t of Leaf s \<Rightarrow> 0 | Operation l p r \<Rightarrow> operations l + operations r)"
  by (cases t) (auto simp: bracketed_closing count_list_none number_no_brackets operator_char_neq operator_char_neq_sym)

lemma formula_text_short:
  assumes "fits D t"
  shows "strscpy (formula_text (\<lambda>s. s) t) = formula_text (\<lambda>s. s) t"
proof -
  have "length (formula_text (\<lambda>s. s) t) < MAX_STRING_LEN - 1"
  proof (cases t)
    case (Operation l p r)
    then show ?thesis using assms bracketed_length [of l D] bracketed_length [of r D] by simp
  qed (use assms in simp)
  then show ?thesis unfolding strscpy_def by (intro take_all) simp
qed

lemma evaluate_loop_none: "CHR '')'' \<notin> set s \<Longrightarrow> evaluate_loop n D s = Some (Inr s)"
  by (simp add: evaluate_loop.simps strchr_None_iff [THEN iffD2])

lemma evaluate_formula:
  assumes D: "exact_signs D" and t: "fits D t"
  shows "evaluate D (formula_text (\<lambda>s. s) t) = Some (map_sum id (verdict D) (meaning D t))"
proof (cases t)
  case (Leaf s)
  then show ?thesis
    using t formula_text_short [OF t] number_no_brackets [of s] evaluate_number [of s D]
    by (simp add: evaluate_def evaluate_loop_none verdict_def)
next
  case (Operation l p r)
  let ?mid = "operator_char p # bracketed (\<lambda>s. s) r"
  have lr: "prints_numbers D l" "prints_numbers D r" and len: "room D l + room D r + 3 < MAX_STRING_LEN - 1"
    using t Operation by auto
  have count: "count_list (strscpy (formula_text (\<lambda>s. s) t)) CHR '')'' = operations l + (operations r + 0)"
    using formula_text_closing [OF t] formula_text_short [OF t] Operation by simp
  have left: "evaluate_loop (operations l + (operations r + 0)) D ([] @ bracketed (\<lambda>s. s) l @ ?mid) =
      (case reduce D l of Inl e \<Rightarrow> Some (Inl e) | Inr s \<Rightarrow> evaluate_loop (operations r + 0) D ([] @ s @ ?mid))"
    using bracketed_no_blank [OF lr(2)] operator_char_neq_sym [of p] len bracketed_length [of r D]
    by (intro reduce_loop [OF D lr(1)]) auto
  show ?thesis
  proof (cases "reduce D l")
    case (Inl e)
    then show ?thesis using left count Operation formula_text_short [OF t] by (simp add: evaluate_def)
  next
    case x: (Inr x)
    have nx: "number x" "length x \<le> room D l" using reduce_number [OF lr(1) x] reduce_length [OF x] by auto
    let ?pre = "x @ [operator_char p]"
    have right: "evaluate_loop (operations r + 0) D (?pre @ bracketed (\<lambda>s. s) r @ []) =
        (case reduce D r of Inl e \<Rightarrow> Some (Inl e) | Inr s \<Rightarrow> evaluate_loop 0 D (?pre @ s @ []))"
      using number_no_brackets [OF nx(1)] operator_char_neq_sym [of p] len nx(2)
      by (intro reduce_loop [OF D lr(2)]) auto
    show ?thesis
    proof (cases "reduce D r")
      case (Inl e)
      then show ?thesis using left right count x Operation formula_text_short [OF t] by (simp add: evaluate_def)
    next
      case y: (Inr y)
      have ny: "number y" "length y \<le> room D r" using reduce_number [OF lr(2) y] reduce_length [OF y] by auto
      have "evaluate_loop 0 D (x @ operator_char p # y) = Some (Inr (x @ operator_char p # y))"
        using number_no_brackets [OF nx(1)] number_no_brackets [OF ny(1)] operator_char_neq_sym [of p]
        by (intro evaluate_loop_none) auto
      moreover have "evaluate_simple D (x @ operator_char p # y) = operation_value D p x y"
        using evaluate_binary [OF nx(1) ny(1) D] nx(2) ny(2) len by simp
      ultimately show ?thesis using left right count x y Operation formula_text_short [OF t]
        by (auto simp: evaluate_def verdict_def split: sum.split)
    qed
  qed
qed

end
