(* ===== verification/Macros.thy ===== *)
theory Macros
  imports ActionTables KeyParse
begin

section \<open>Macros\<close>

text \<open>
  \<open>substitute_simple_macros\<close> and the queries behind it (\<open>libs/zbxserver/expression.c\<close>),
  with \<open>replace_value_by_map\<close> (\<open>evalfunc.c\<close>).  The tables are lists of rows; a query
  returns its rows in the order of the tables.  A \<^const>\<open>None\<close> result is a read through a null or
  stray pointer.
\<close>

subsection \<open>Tables\<close>

record function_row =
  fn_id :: u64
  fn_itemid :: u64
  fn_function :: string
  fn_parameter :: string
  fn_lastvalue :: "string option"

record macro_item =
  mi_id :: u64
  mi_hostid :: u64
  mi_description :: string
  mi_key :: string
  mi_value_type :: value_type
  mi_valuemapid :: u64
  mi_units :: string
  mi_lastvalue :: "string option"

datatype profile_field = DEVICETYPE | NAME | OS | SERIALNO | TAG | MACADDRESS | HARDWARE | SOFTWARE | CONTACT | LOCATION | NOTES

record macro_tables =
  mt_triggers :: "(u64 \<times> string option) list" \<comment> \<open>triggerid, expression\<close>
  mt_trigger_functions :: "(u64 \<times> u64) list" \<comment> \<open>functionid, triggerid\<close>
  mt_functions :: "function_row list"
  mt_items :: "macro_item list"
  mt_hosts :: "host_info list"
  mt_profiles :: "(u64 \<times> (profile_field \<Rightarrow> string option)) list" \<comment> \<open>hostid\<close>
  mt_history_log :: "(u64 \<times> u64 \<times> string) list" \<comment> \<open>id, itemid, value\<close>
  mt_history_text :: "(u64 \<times> u64 \<times> string) list"
  mt_mappings :: "(u64 \<times> string \<times> string option) list" \<comment> \<open>valuemapid, value, newvalue\<close>
  mt_events :: "(u64 \<times> int) list" \<comment> \<open>eventid, clock\<close>
  mt_alerts :: "alert_row list"
  mt_media_types :: "(u64 \<times> string) list" \<comment> \<open>mediatypeid, description\<close>

text \<open>The event with all that is known of its trigger, the broken-down time with its date, and what
  comes from outside: the clock, \<open>localtime\<close> and \<open>add_value_suffix\<close>, which gives
  the value with its unit.\<close>

record macro_event = db_event +
  trigger_comments :: string
  trigger_url :: string

record date_tm = tm +
  tm_year :: int
  tm_mon :: int
  tm_mday :: int

record macro_env =
  m_now :: int
  m_localtime :: "int \<Rightarrow> date_tm"
  m_suffix :: "string \<Rightarrow> string \<Rightarrow> value_type \<Rightarrow> string"

record macro_host =
  mh_name :: string
  mh_ip :: string
  mh_dns :: string
  mh_useip :: bool

subsection \<open>The trigger's first function\<close>

text \<open>The scan for the n-th \<open>{functionid}\<close>: the text since the last opening bracket, if there
  was one and no closing one since.\<close>

fun functionid_loop :: "nat \<Rightarrow> nat \<Rightarrow> string option \<Rightarrow> string \<Rightarrow> u64 option" where
  "functionid_loop n num open_text [] = None"
| "functionid_loop n num open_text (c # s) =
     (if c = CHR ''{'' then functionid_loop n num (Some []) s
      else if c = CHR ''}'' then
        (case open_text of
           None \<Rightarrow> functionid_loop n num None s
         | Some t \<Rightarrow>
             (case is_uint64 t of
                None \<Rightarrow> functionid_loop n num None s
              | Some functionid \<Rightarrow>
                  if Suc num = n then Some functionid else functionid_loop n (Suc num) None s))
      else functionid_loop n num (map_option (\<lambda>t. t @ [c]) open_text) s)"

definition trigger_get_N_functionid :: "string \<Rightarrow> nat \<Rightarrow> u64 option" where
  "trigger_get_N_functionid short_expression n = functionid_loop n 0 None short_expression"

definition TRIGGER_EXPRESSION_LEN :: nat where "TRIGGER_EXPRESSION_LEN = 255"

definition DBget_trigger_expression_by_triggerid :: "macro_tables \<Rightarrow> u64 \<Rightarrow> string option" where
  "DBget_trigger_expression_by_triggerid T trig =
     (case filter (\<lambda>r. fst r = trig) (mt_triggers T) of
        [] \<Rightarrow> None
      | r # _ \<Rightarrow> map_option (take TRIGGER_EXPRESSION_LEN) (snd r))"

definition first_function :: "macro_tables \<Rightarrow> u64 \<Rightarrow> u64 option" where
  "first_function T trig =
     (case DBget_trigger_expression_by_triggerid T trig of
        None \<Rightarrow> None
      | Some expression \<Rightarrow> trigger_get_N_functionid expression 1)"

subsection \<open>Values of items\<close>

definition function_items :: "macro_tables \<Rightarrow> u64 \<Rightarrow> macro_item list" where
  "function_items T functionid =
     [it. f \<leftarrow> filter (\<lambda>f. fn_id f = functionid) (mt_functions T), it \<leftarrow> filter (\<lambda>it. mi_id it = fn_itemid f) (mt_items T)]"

definition function_items_hosts :: "macro_tables \<Rightarrow> u64 \<Rightarrow> (macro_item \<times> host_info) list" where
  "function_items_hosts T functionid =
     [(it, h). it \<leftarrow> function_items T functionid, h \<leftarrow> filter (\<lambda>h. h_id h = mi_hostid it) (mt_hosts T)]"

text \<open>\<open>replace_value_by_map\<close>: \<open>Inl\<close> of the value when there is no mapping.\<close>

definition replace_value_by_map :: "macro_tables \<Rightarrow> string \<Rightarrow> u64 \<Rightarrow> (string + string) option" where
  "replace_value_by_map T v valuemapid =
     (if valuemapid = 0 then Some (Inl v)
      else
        (case filter (\<lambda>(m, old, new). m = valuemapid \<and> old = v) (mt_mappings T) of
           (_, _, Some new) # _ \<Rightarrow>
             map_option (\<lambda>n. Inr (take (MAX_STRING_LEN - 1) (n @ '' ('' @ v @ '')''))) (del_zeroes new)
         | _ \<Rightarrow> Some (Inl v)))"

definition newest_value :: "(u64 \<times> u64 \<times> string) list \<Rightarrow> u64 \<Rightarrow> string option" where
  "newest_value rows itemid =
     (case rev (sort_key (\<lambda>r. unat (fst r)) (filter (\<lambda>r. fst (snd r) = itemid) rows)) of
        [] \<Rightarrow> None
      | r # _ \<Rightarrow> Some (snd (snd r)))"

datatype 'a db_answer = Missing | Found 'a | Crash

definition DBget_item_lastvalue_by_functionid :: "macro_env \<Rightarrow> macro_tables \<Rightarrow> u64 \<Rightarrow> string db_answer" where
  "DBget_item_lastvalue_by_functionid en T functionid =
     (case function_items T functionid of
        [] \<Rightarrow> Missing
      | it # _ \<Rightarrow>
          (case mi_lastvalue it of
             None \<Rightarrow> Missing
           | Some lastvalue \<Rightarrow>
               (case mi_value_type it of
                  VT_LOG \<Rightarrow> Found (case newest_value (mt_history_log T) (mi_id it) of None \<Rightarrow> lastvalue | Some v \<Rightarrow> v)
                | VT_TEXT \<Rightarrow> Found (case newest_value (mt_history_text T) (mi_id it) of None \<Rightarrow> lastvalue | Some v \<Rightarrow> v)
                | VT_STR \<Rightarrow>
                    (case replace_value_by_map T (take (MAX_STRING_LEN - 1) lastvalue) (mi_valuemapid it) of
                       None \<Rightarrow> Crash
                     | Some (Inl v) \<Rightarrow> Found v
                     | Some (Inr v) \<Rightarrow> Found v)
                | _ \<Rightarrow>
                    (case replace_value_by_map T (take (MAX_STRING_LEN - 1) lastvalue) (mi_valuemapid it) of
                       None \<Rightarrow> Crash
                     | Some (Inl v) \<Rightarrow> Found (m_suffix en v (mi_units it) (mi_value_type it))
                     | Some (Inr v) \<Rightarrow> Found v))))"

datatype item_request = HOST_NAME | HOST_IPADDRESS | ITEM_NAME | ITEM_KEY

definition DBget_trigger_value_by_functionid :: "macro_tables \<Rightarrow> u64 \<Rightarrow> item_request \<Rightarrow> string db_answer" where
  "DBget_trigger_value_by_functionid T functionid request =
     (case function_items_hosts T functionid of
        [] \<Rightarrow> Missing
      | (it, h) # _ \<Rightarrow>
          Found (case request of
                   HOST_NAME \<Rightarrow> h_host h
                 | HOST_IPADDRESS \<Rightarrow> h_ip h
                 | ITEM_NAME \<Rightarrow> item_description (mi_description it) (mi_key it)
                 | ITEM_KEY \<Rightarrow> mi_key it))"

definition STR_UNKNOWN_VARIABLE :: string where "STR_UNKNOWN_VARIABLE = ''*UNKNOWN*''"

definition by_first_function :: "macro_tables \<Rightarrow> u64 \<Rightarrow> (u64 \<Rightarrow> string db_answer) \<Rightarrow> string option" where
  "by_first_function T trig query =
     (case first_function T trig of
        None \<Rightarrow> Some STR_UNKNOWN_VARIABLE
      | Some functionid \<Rightarrow>
          (case query functionid of
             Missing \<Rightarrow> Some STR_UNKNOWN_VARIABLE
           | Found v \<Rightarrow> Some v
           | Crash \<Rightarrow> None))"

definition get_host_profile_value_by_triggerid :: "macro_tables \<Rightarrow> u64 \<Rightarrow> profile_field \<Rightarrow> string" where
  "get_host_profile_value_by_triggerid T trig field =
     (case [p field. t \<leftarrow> filter (\<lambda>t. fst t = trig) (mt_triggers T),
             tf \<leftarrow> filter (\<lambda>tf. snd tf = trig) (mt_trigger_functions T),
             (it, h) \<leftarrow> function_items_hosts T (fst tf),
             (hid, p) \<leftarrow> filter (\<lambda>p. fst p = h_id h) (mt_profiles T)] of
        Some v # _ \<Rightarrow> v
      | _ \<Rightarrow> STR_UNKNOWN_VARIABLE)"

subsection \<open>Numbers of an expression in a description\<close>

text \<open>The end of a number: digits with one dot, and one capital letter after them.\<close>

fun number_end :: "bool \<Rightarrow> string \<Rightarrow> nat" where
  "number_end dot [] = 0"
| "number_end dot (c # s) =
     (if is_digit c then Suc (number_end dot s)
      else if c = CHR ''.'' \<and> \<not> dot then Suc (number_end True s)
      else if CHR ''A'' \<le> c \<and> c \<le> CHR ''Z'' then 1 else 0)"

text \<open>\<open>prev\<close> is the character before the place.  The character after a number is stepped over
  unseen.\<close>

function extract_numbers_loop :: "char option \<Rightarrow> string \<Rightarrow> string list option" where
  "extract_numbers_loop prev [] = Some []"
| "extract_numbers_loop prev (c # s) =
     (if \<not> is_digit c then extract_numbers_loop (Some c) s
      else if prev = Some CHR ''{'' then
        (case strchr (c # s) CHR ''}'' of
           None \<Rightarrow> None
         | Some i \<Rightarrow> extract_numbers_loop (Some CHR ''}'') (drop (Suc i) (c # s)))
      else
        (let n = number_end False (c # s)
         in case drop n (c # s) of
              [] \<Rightarrow> Some [take n (c # s)]
            | d # r \<Rightarrow> map_option (Cons (take n (c # s))) (extract_numbers_loop (Some d) r)))"
  by pat_completeness auto
termination
proof (relation "measure (length \<circ> snd)", goal_cases)
  case (4 prev c s n d r)
  have "length (d # r) \<le> length (c # s)" unfolding 4(4) [symmetric] by simp
  then show ?case by simp
qed simp_all

definition extract_numbers :: "string \<Rightarrow> string list option" where
  "extract_numbers str = extract_numbers_loop None str"

definition replace_number :: "string list \<Rightarrow> nat \<Rightarrow> string \<Rightarrow> string option" where
  "replace_number numbers i data =
     map_option fst (string_replace data [CHR ''$'', char_of (49 + i)] (if i < length numbers then numbers ! i else []))"

definition expand_trigger_description_constants :: "macro_tables \<Rightarrow> u64 \<Rightarrow> string \<Rightarrow> string option" where
  "expand_trigger_description_constants T trig data =
     (case filter (\<lambda>r. fst r = trig) (mt_triggers T) of
        [] \<Rightarrow> Some data
      | (_, expression) # _ \<Rightarrow>
          (case expression of
             None \<Rightarrow> None
           | Some e \<Rightarrow>
               (case extract_numbers e of
                  None \<Rightarrow> None
                | Some numbers \<Rightarrow>
                    fold (\<lambda>i d. case d of None \<Rightarrow> None | Some t \<Rightarrow> replace_number numbers i t) [0..<9] (Some data))))"

subsection \<open>The values of the macros\<close>

text \<open>The conversions \<open>%.<w>d\<close> of an int and \<open>%-<w>s\<close>.\<close>

definition show_wide :: "nat \<Rightarrow> int \<Rightarrow> string" where
  "show_wide w i =
     (let d = show_nat (nat \<bar>i\<bar>)
      in (if i < 0 then ''-'' else []) @ replicate (w - length d) CHR ''0'' @ d)"

definition pad_right :: "nat \<Rightarrow> string \<Rightarrow> string" where
  "pad_right w s = s @ replicate (w - length s) CHR '' ''"

definition show_date :: "date_tm \<Rightarrow> string" where
  "show_date tm = show_wide 4 (tm_year tm + 1900) @ CHR ''.'' # show_wide 2 (tm_mon tm + 1) @ CHR ''.'' # show_wide 2 (tm_mday tm)"

definition show_time :: "date_tm \<Rightarrow> string" where
  "show_time tm = show_wide 2 (tm_hour tm) @ CHR '':'' # show_wide 2 (tm_min tm) @ CHR '':'' # show_wide 2 (tm_sec tm)"

definition show_moment :: "macro_env \<Rightarrow> int \<Rightarrow> string" where
  "show_moment en now = show_date (m_localtime en now) @ CHR '' '' # show_time (m_localtime en now)"

definition show_alert_status :: "alert_status \<Rightarrow> string" where
  "show_alert_status st =
     (case st of ALERT_STATUS_NOT_SENT \<Rightarrow> ''in progress'' | ALERT_STATUS_SENT \<Rightarrow> ''sent'' | ALERT_STATUS_FAILED \<Rightarrow> ''failed'')"

text \<open>\<open>{ESC.HISTORY}\<close>: each line is cut to the size given to \<open>zbx_snprintf_alloc\<close>, its
  newline included.\<close>

definition history_line :: "macro_env \<Rightarrow> macro_tables \<Rightarrow> alert_row \<Rightarrow> string" where
  "history_line en T a =
     (if al_step a \<noteq> 0 then take 15 (show_int (al_step a) @ ''. '') else [])
     @ take 255 (show_moment en (al_clock a) @ CHR '' '' # pad_right 11 (show_alert_status (al_status a)) @ CHR '' ''
         # (case map snd (filter (\<lambda>m. fst m = al_mediatypeid a) (mt_media_types T)) of [] \<Rightarrow> [] | d # _ \<Rightarrow> d)
         @ CHR '' '' # al_sendto a @ CHR '' '' # al_error a @ ''\<newline>'')"

definition esc_history :: "macro_env \<Rightarrow> macro_tables \<Rightarrow> macro_event \<Rightarrow> escalation_row option \<Rightarrow> string" where
  "esc_history en T ev esc =
     (let eventid = (case esc of None \<Rightarrow> e_id ev | Some e \<Rightarrow> es_eventid e);
          started = (case filter (\<lambda>e. fst e = eventid) (mt_events T) of
                       [] \<Rightarrow> []
                     | (_, started_at) # _ \<Rightarrow>
                         take 63 (''Problem started: '' @ show_moment en started_at @ '' Age: ''
                                  @ zbx_age2str (m_now en - started_at) @ ''\<newline>''));
          alerts = concat (map (history_line en T)
                     (sort_key al_clock (filter (\<lambda>a. al_eventid a = eventid \<and> al_type a = ALERT_TYPE_MESSAGE) (mt_alerts T))));
          ended = (case esc of
                     Some e \<Rightarrow> (if es_r_eventid e = e_id ev then
                                  take 63 (''Problem ended: '' @ show_moment en (e_clock ev) @ ''\<newline>'') else [])
                   | None \<Rightarrow> [])
      in butlast (started @ alerts @ ended))"

definition show_severity :: "int \<Rightarrow> string" where
  "show_severity priority =
     (if priority = 0 then ''Not classified'' else if priority = 1 then ''Information''
      else if priority = 2 then ''Warning'' else if priority = 3 then ''Average''
      else if priority = 4 then ''High'' else if priority = 5 then ''Disaster'' else ''Unknown'')"

datatype macro_var =
    TRIGGER_NAME | TRIGGER_COMMENT | PROFILE profile_field | HOSTNAME | ITEM_NAME_VAR | ITEM_LASTVALUE | TRIGGER_KEY
  | IPADDRESS | DATE | TIME | TRIGGER_STATUS | TRIGGER_STATUS_OLD | TRIGGER_ID | TRIGGER_VALUE | TRIGGER_URL
  | EVENT_ID | EVENT_DATE | EVENT_TIME | EVENT_AGE | ESC_HISTORY | TRIGGER_SEVERITY | TRIGGER_NSEVERITY
  | HOST_DNS | HOST_CONN

text \<open>Their values for events; \<^const>\<open>TRIGGER_NAME\<close> is expanded by a call of the whole
  routine and stands here for the raw description.\<close>

definition event_macro :: "macro_env \<Rightarrow> macro_tables \<Rightarrow> macro_event \<Rightarrow> escalation_row option \<Rightarrow> macro_var \<Rightarrow> string option" where
  "event_macro en T ev esc m =
     (case m of
        TRIGGER_NAME \<Rightarrow> Some (trigger_description ev)
      | TRIGGER_COMMENT \<Rightarrow> Some (trigger_comments ev)
      | PROFILE field \<Rightarrow> Some (get_host_profile_value_by_triggerid T (e_objectid ev) field)
      | HOSTNAME \<Rightarrow> by_first_function T (e_objectid ev) (\<lambda>f. DBget_trigger_value_by_functionid T f HOST_NAME)
      | ITEM_NAME_VAR \<Rightarrow> by_first_function T (e_objectid ev) (\<lambda>f. DBget_trigger_value_by_functionid T f ITEM_NAME)
      | ITEM_LASTVALUE \<Rightarrow> by_first_function T (e_objectid ev) (DBget_item_lastvalue_by_functionid en T)
      | TRIGGER_KEY \<Rightarrow> by_first_function T (e_objectid ev) (\<lambda>f. DBget_trigger_value_by_functionid T f ITEM_KEY)
      | IPADDRESS \<Rightarrow> by_first_function T (e_objectid ev) (\<lambda>f. DBget_trigger_value_by_functionid T f HOST_IPADDRESS)
      | DATE \<Rightarrow> Some (show_date (m_localtime en (m_now en)))
      | TIME \<Rightarrow> Some (show_time (m_localtime en (m_now en)))
      | TRIGGER_STATUS \<Rightarrow> Some (if e_value ev = TRIGGER_VALUE_TRUE then ''PROBLEM'' else ''OK'')
      | TRIGGER_STATUS_OLD \<Rightarrow> Some (if e_value ev = TRIGGER_VALUE_TRUE then ''PROBLEM'' else ''OK'')
      | TRIGGER_ID \<Rightarrow> Some (show_u64 (e_objectid ev))
      | TRIGGER_VALUE \<Rightarrow> Some (show_int (e_value ev))
      | TRIGGER_URL \<Rightarrow> Some (trigger_url ev)
      | EVENT_ID \<Rightarrow> Some (show_u64 (e_id ev))
      | EVENT_DATE \<Rightarrow> Some (show_date (m_localtime en (e_clock ev)))
      | EVENT_TIME \<Rightarrow> Some (show_time (m_localtime en (e_clock ev)))
      | EVENT_AGE \<Rightarrow> Some (zbx_age2str (m_now en - e_clock ev))
      | ESC_HISTORY \<Rightarrow> Some (esc_history en T ev esc)
      | TRIGGER_SEVERITY \<Rightarrow> Some (show_severity (trigger_priority ev))
      | TRIGGER_NSEVERITY \<Rightarrow> Some (show_int (trigger_priority ev))
      | _ \<Rightarrow> Some [])"

subsection \<open>Substitution\<close>

fun profile_name :: "profile_field \<Rightarrow> string" where
  "profile_name DEVICETYPE = ''DEVICETYPE''"
| "profile_name NAME = ''NAME''"
| "profile_name OS = ''OS''"
| "profile_name SERIALNO = ''SERIALNO''"
| "profile_name TAG = ''TAG''"
| "profile_name MACADDRESS = ''MACADDRESS''"
| "profile_name HARDWARE = ''HARDWARE''"
| "profile_name SOFTWARE = ''SOFTWARE''"
| "profile_name CONTACT = ''CONTACT''"
| "profile_name LOCATION = ''LOCATION''"
| "profile_name NOTES = ''NOTES''"

fun macro_name :: "macro_var \<Rightarrow> string" where
  "macro_name TRIGGER_NAME = ''{TRIGGER.NAME}''"
| "macro_name TRIGGER_COMMENT = ''{TRIGGER.COMMENT}''"
| "macro_name (PROFILE field) = ''{PROFILE.'' @ profile_name field @ ''}''"
| "macro_name HOSTNAME = ''{HOSTNAME}''"
| "macro_name ITEM_NAME_VAR = ''{ITEM.NAME}''"
| "macro_name ITEM_LASTVALUE = ''{ITEM.LASTVALUE}''"
| "macro_name TRIGGER_KEY = ''{TRIGGER.KEY}''"
| "macro_name IPADDRESS = ''{IPADDRESS}''"
| "macro_name DATE = ''{DATE}''"
| "macro_name TIME = ''{TIME}''"
| "macro_name TRIGGER_STATUS = ''{TRIGGER.STATUS}''"
| "macro_name TRIGGER_STATUS_OLD = ''{STATUS}''"
| "macro_name TRIGGER_ID = ''{TRIGGER.ID}''"
| "macro_name TRIGGER_VALUE = ''{TRIGGER.VALUE}''"
| "macro_name TRIGGER_URL = ''{TRIGGER.URL}''"
| "macro_name EVENT_ID = ''{EVENT.ID}''"
| "macro_name EVENT_DATE = ''{EVENT.DATE}''"
| "macro_name EVENT_TIME = ''{EVENT.TIME}''"
| "macro_name EVENT_AGE = ''{EVENT.AGE}''"
| "macro_name ESC_HISTORY = ''{ESC.HISTORY}''"
| "macro_name TRIGGER_SEVERITY = ''{TRIGGER.SEVERITY}''"
| "macro_name TRIGGER_NSEVERITY = ''{TRIGGER.NSEVERITY}''"
| "macro_name HOST_DNS = ''{HOST.DNS}''"
| "macro_name HOST_CONN = ''{HOST.CONN}''"

text \<open>The bits of \<open>macro_type\<close>, and the branches in their order: the types that enable a
  macro for an event; the other types have the four macros of an item.\<close>

datatype macro_bit =
    MACRO_TYPE_TRIGGER_DESCRIPTION | MACRO_TYPE_MESSAGE_SUBJECT | MACRO_TYPE_MESSAGE_BODY
  | MACRO_TYPE_TRIGGER_EXPRESSION | MACRO_TYPE_ITEM_KEY | MACRO_TYPE_HOST_IPMI_IP

type_synonym macro_type = "macro_bit list"

definition message_type :: macro_type where
  "message_type = [MACRO_TYPE_MESSAGE_SUBJECT, MACRO_TYPE_MESSAGE_BODY]"

definition event_branches :: "(macro_type \<times> macro_var) list" where
  "event_branches =
     [(message_type, TRIGGER_NAME), (message_type, TRIGGER_COMMENT),
      (message_type, PROFILE DEVICETYPE), (message_type, PROFILE NAME), (message_type, PROFILE OS),
      (message_type, PROFILE SERIALNO), (message_type, PROFILE TAG), (message_type, PROFILE MACADDRESS),
      (message_type, PROFILE HARDWARE), (message_type, PROFILE SOFTWARE), (message_type, PROFILE CONTACT),
      (message_type, PROFILE LOCATION), (message_type, PROFILE NOTES),
      (MACRO_TYPE_TRIGGER_DESCRIPTION # message_type, HOSTNAME), (message_type, ITEM_NAME_VAR),
      (MACRO_TYPE_TRIGGER_DESCRIPTION # message_type, ITEM_LASTVALUE), (message_type, TRIGGER_KEY),
      (message_type, IPADDRESS), (message_type, DATE), (message_type, TIME), (message_type, TRIGGER_STATUS),
      (message_type, TRIGGER_STATUS_OLD), (message_type, TRIGGER_ID),
      (MACRO_TYPE_TRIGGER_EXPRESSION # message_type, TRIGGER_VALUE), (message_type, TRIGGER_URL),
      (message_type, EVENT_ID), (message_type, EVENT_DATE), (message_type, EVENT_TIME), (message_type, EVENT_AGE),
      (message_type, ESC_HISTORY), (message_type, TRIGGER_SEVERITY), (message_type, TRIGGER_NSEVERITY)]"

definition item_type :: macro_type where
  "item_type = [MACRO_TYPE_ITEM_KEY, MACRO_TYPE_HOST_IPMI_IP]"

definition item_branches :: "macro_var list" where
  "item_branches = [HOSTNAME, IPADDRESS, HOST_DNS, HOST_CONN]"

definition common_type :: "macro_type \<Rightarrow> macro_type \<Rightarrow> bool" where
  "common_type a b \<longleftrightarrow> list_ex (\<lambda>t. List.member b t) a"

text \<open>The branch taken at an opening bracket: a macro of the event or one of the item.\<close>

datatype macro_branch = Event_Macro macro_var | Item_Macro macro_var

definition find_macro :: "macro_type \<Rightarrow> string \<Rightarrow> macro_branch option" where
  "find_macro types pr =
     (case List.find (\<lambda>(ty, m). common_type types ty \<and> is_prefix (macro_name m) pr) event_branches of
        Some (_, m) \<Rightarrow> Some (Event_Macro m)
      | None \<Rightarrow>
          if common_type types item_type then
            map_option Item_Macro (List.find (\<lambda>m. is_prefix (macro_name m) pr) item_branches)
          else None)"

fun branch_macro :: "macro_branch \<Rightarrow> macro_var" where
  "branch_macro (Event_Macro m) = m"
| "branch_macro (Item_Macro m) = m"

definition item_macro :: "macro_host option \<Rightarrow> macro_var \<Rightarrow> string option" where
  "item_macro item m =
     (case item of
        None \<Rightarrow> None
      | Some h \<Rightarrow>
          Some (case m of
                  HOSTNAME \<Rightarrow> mh_name h
                | IPADDRESS \<Rightarrow> mh_ip h
                | HOST_DNS \<Rightarrow> mh_dns h
                | HOST_CONN \<Rightarrow> (if mh_useip h then mh_ip h else mh_dns h)
                | _ \<Rightarrow> []))"

lemma macro_name_length: "0 < length (macro_name m)"
  by (cases m) simp_all

text \<open>The loop from one opening bracket to the next; \<open>val\<close> gives the value of a branch.\<close>

function macro_loop :: "(macro_branch \<Rightarrow> string option) \<Rightarrow> macro_type \<Rightarrow> string \<Rightarrow> string option" where
  "macro_loop val types pl =
     (case strchr pl CHR ''{'' of
        None \<Rightarrow> Some pl
      | Some i \<Rightarrow>
          (case find_macro types (drop i pl) of
             None \<Rightarrow>
               map_option (\<lambda>out. take i pl @ CHR ''{'' # out) (macro_loop val types (drop (Suc i) pl))
           | Some b \<Rightarrow>
               (case val b of
                  None \<Rightarrow> None
                | Some v \<Rightarrow>
                    map_option (\<lambda>out. take i pl @ v @ out)
                      (macro_loop val types (drop (i + length (macro_name (branch_macro b))) pl)))))"
  by pat_completeness auto
termination
proof (relation "measure (length \<circ> snd \<circ> snd)", goal_cases)
  case (2 val types pl i)
  then show ?case using strchr_SomeD [OF 2(1)] by (simp, linarith)
next
  case (3 val types pl i b v)
  then show ?case using strchr_SomeD [OF 3(1)] macro_name_length [of "branch_macro b"] by (simp, linarith)
qed simp

declare macro_loop.simps [simp del]

text \<open>\<open>substitute_simple_macros\<close> itself.  The call for the description of the trigger asks for
  the type \<^const>\<open>MACRO_TYPE_TRIGGER_DESCRIPTION\<close>, which does not enable
  \<^const>\<open>TRIGGER_NAME\<close>, so the recursion is one level deep.\<close>

definition description_value :: "macro_env \<Rightarrow> macro_tables \<Rightarrow> macro_event \<Rightarrow> escalation_row option \<Rightarrow> string option" where
  "description_value en T ev esc =
     (if trigger_description ev = [] then Some []
      else
        (case expand_trigger_description_constants T (e_objectid ev) (trigger_description ev) of
           None \<Rightarrow> None
         | Some d \<Rightarrow>
             macro_loop (\<lambda>b. event_macro en T ev esc (branch_macro b)) [MACRO_TYPE_TRIGGER_DESCRIPTION] d))"

definition branch_value :: "macro_env \<Rightarrow> macro_tables \<Rightarrow> macro_event \<Rightarrow> macro_host option \<Rightarrow> escalation_row option \<Rightarrow> macro_branch \<Rightarrow> string option" where
  "branch_value en T ev item esc b =
     (case b of
        Event_Macro m \<Rightarrow> (if m = TRIGGER_NAME then description_value en T ev esc else event_macro en T ev esc m)
      | Item_Macro m \<Rightarrow> item_macro item m)"

definition substitute_simple_macros ::
  "macro_env \<Rightarrow> macro_tables \<Rightarrow> macro_event \<Rightarrow> macro_host option \<Rightarrow> escalation_row option \<Rightarrow> string \<Rightarrow> macro_type \<Rightarrow> string option" where
  "substitute_simple_macros en T ev item esc data types =
     (if data = [] then Some []
      else
        (case (if common_type types [MACRO_TYPE_TRIGGER_DESCRIPTION] then
                 expand_trigger_description_constants T (e_objectid ev) data
               else Some data) of
           None \<Rightarrow> None
         | Some d \<Rightarrow> macro_loop (branch_value en T ev item esc) types d))"

subsection \<open>Templates\<close>

text \<open>A text as pieces: plain text, a macro of the type, and any other text in brackets.\<close>

datatype piece = Plain string | Var macro_branch | Other string

fun piece_text :: "piece \<Rightarrow> string" where
  "piece_text (Plain s) = s"
| "piece_text (Var b) = macro_name (branch_macro b)"
| "piece_text (Other s) = CHR ''{'' # s @ ''}''"

definition enabled :: "macro_type \<Rightarrow> macro_branch \<Rightarrow> bool" where
  "enabled types b \<longleftrightarrow> find_macro types (macro_name (branch_macro b)) = Some b"

definition is_capital :: "char \<Rightarrow> bool" where
  "is_capital c \<longleftrightarrow> CHR ''A'' \<le> c \<and> c \<le> CHR ''Z''"

fun piece_ok :: "macro_type \<Rightarrow> piece \<Rightarrow> bool" where
  "piece_ok types (Plain s) = (CHR ''{'' \<notin> set s)"
| "piece_ok types (Var b) = enabled types b"
| "piece_ok types (Other s) = (CHR ''{'' \<notin> set s \<and> s \<noteq> [] \<and> \<not> is_capital (hd s))"

fun piece_value :: "(macro_branch \<Rightarrow> string option) \<Rightarrow> piece \<Rightarrow> string option" where
  "piece_value val (Var b) = val b"
| "piece_value val p = Some (piece_text p)"

definition pieces_text :: "piece list \<Rightarrow> string" where
  "pieces_text ps = concat (map piece_text ps)"

definition pieces_value :: "(macro_branch \<Rightarrow> string option) \<Rightarrow> piece list \<Rightarrow> string option" where
  "pieces_value val ps = map_option concat (those (map (piece_value val) ps))"

lemma pieces_simps [simp]:
  "pieces_text [] = []" "pieces_text (p # ps) = piece_text p @ pieces_text ps"
  "pieces_value val [] = Some []"
  "pieces_value val (p # ps) =
    (case piece_value val p of None \<Rightarrow> None | Some v \<Rightarrow> map_option (\<lambda>out. v @ out) (pieces_value val ps))"
  by (auto simp: pieces_text_def pieces_value_def option.map_comp comp_def split: option.split)

text \<open>Every name ends at its own closing bracket, so which branch is taken does not depend on what
  follows.\<close>

definition name_core :: "string \<Rightarrow> bool" where
  "name_core n \<longleftrightarrow> (\<exists>s. n = CHR ''{'' # s @ ''}'' \<and> CHR ''}'' \<notin> set s \<and> s \<noteq> [] \<and> is_capital (hd s))"

lemma core_parts: "CHR ''}'' \<notin> set (c # s) \<Longrightarrow> is_capital c \<Longrightarrow> name_core (CHR ''{'' # (c # s) @ ''}'')"
  unfolding name_core_def by (rule exI [of _ "c # s"]) simp

lemma macro_name_core: "name_core (macro_name m)"
proof -
  have capital: "is_capital CHR ''T''" "is_capital CHR ''H''" "is_capital CHR ''I''" "is_capital CHR ''D''"
    "is_capital CHR ''S''" "is_capital CHR ''E''" "is_capital CHR ''P''" by code_simp+
  show ?thesis
  proof (cases m)
    case (PROFILE field)
    then show ?thesis using core_parts [of "CHR ''P''" "''ROFILE.'' @ profile_name field"] capital
      by (cases field) simp_all
  qed (use core_parts capital in \<open>force simp: name_core_def\<close>)+
qed

lemma core_prefix:
  assumes "name_core n" "name_core k"
  shows "is_prefix n (k @ r) \<longleftrightarrow> n = k"
proof
  assume "is_prefix n (k @ r)"
  then obtain q where q: "k @ r = n @ q" by (auto simp: is_prefix_iff)
  obtain s where s: "n = (CHR ''{'' # s) @ ''}''" "CHR ''}'' \<notin> set s" using assms(1) by (auto simp: name_core_def)
  obtain t where t: "k = (CHR ''{'' # t) @ ''}''" "CHR ''}'' \<notin> set t" using assms(2) by (auto simp: name_core_def)
  have "strchr (k @ r) CHR ''}'' = Some (length (CHR ''{'' # t))"
    using strchr_append [of "CHR ''}''" "CHR ''{'' # t" r] t by simp
  moreover have "strchr (n @ q) CHR ''}'' = Some (length (CHR ''{'' # s))"
    using strchr_append [of "CHR ''}''" "CHR ''{'' # s" q] s by simp
  ultimately have "length k = length n" using q s t by simp
  then show "n = k" using q by simp
qed (auto simp: is_prefix_iff)

lemma find_macro_follow:
  "find_macro types (macro_name m @ r) = find_macro types (macro_name m)"
proof -
  have "is_prefix (macro_name k) (macro_name m @ r) \<longleftrightarrow> is_prefix (macro_name k) (macro_name m)" for k
    using core_prefix [OF macro_name_core macro_name_core, of k m r]
      core_prefix [OF macro_name_core macro_name_core, of k m "[]"] by simp
  then show ?thesis unfolding find_macro_def by presburger
qed

lemma find_macro_other:
  assumes "\<not> is_capital (hd (s @ ''}''))"
  shows "find_macro types (CHR ''{'' # s @ CHR ''}'' # r) = None"
proof -
  have "\<not> is_prefix (macro_name m) (CHR ''{'' # s @ CHR ''}'' # r)" for m
  proof
    assume "is_prefix (macro_name m) (CHR ''{'' # s @ CHR ''}'' # r)"
    moreover obtain t where "macro_name m = CHR ''{'' # t @ ''}''" "t \<noteq> []" "is_capital (hd t)"
      using macro_name_core [of m] by (auto simp: name_core_def)
    ultimately show False using assms by (cases t; cases s) (auto simp: is_prefix_iff)
  qed
  then have "List.find (\<lambda>(ty, m). common_type types ty \<and> is_prefix (macro_name m) (CHR ''{'' # s @ CHR ''}'' # r)) xs = None"
    "List.find (\<lambda>m. is_prefix (macro_name m) (CHR ''{'' # s @ CHR ''}'' # r)) ys = None" for xs ys
    by (auto simp: find_None_iff)
  then show ?thesis by (simp add: find_macro_def)
qed

lemma macro_loop_plain:
  assumes "CHR ''{'' \<notin> set a"
  shows "macro_loop val types (a @ s) = map_option (\<lambda>out. a @ out) (macro_loop val types s)"
proof (cases "strchr s CHR ''{''")
  case None
  then have "strchr (a @ s) CHR ''{'' = None" using assms by (simp add: strchr_None_iff)
  then show ?thesis using None by (simp add: macro_loop.simps [of val types s] macro_loop.simps [of val types "a @ s"])
next
  case (Some i)
  then have "s = take i s @ CHR ''{'' # drop (Suc i) s" "CHR ''{'' \<notin> set (take i s)"
    using strchr_SomeD [OF Some] id_take_nth_drop [of i s] by auto
  then have "strchr (a @ s) CHR ''{'' = Some (length a + i)"
    using assms strchr_append [of "CHR ''{''" "a @ take i s" "drop (Suc i) s"] strchr_SomeD [OF Some] by simp
  then show ?thesis using Some
    by (simp add: macro_loop.simps [of val types s] macro_loop.simps [of val types "a @ s"] option.map_comp comp_def
        split: option.split)
qed

lemma macro_loop_pieces:
  assumes "list_all (piece_ok types) ps"
  shows "macro_loop val types (pieces_text ps) = pieces_value val ps"
  using assms
proof (induction ps)
  case Nil
  then show ?case by (simp add: macro_loop.simps)
next
  case (Cons p ps)
  then have IH: "macro_loop val types (pieces_text ps) = pieces_value val ps" by simp
  show ?case
  proof (cases p)
    case (Plain s)
    then show ?thesis using Cons IH by (simp add: macro_loop_plain)
  next
    case (Var b)
    then have b: "find_macro types (macro_name (branch_macro b) @ pieces_text ps) = Some b"
      using Cons find_macro_follow by (simp add: enabled_def)
    have "strchr (macro_name (branch_macro b) @ pieces_text ps) CHR ''{'' = Some 0"
      using macro_name_core [of "branch_macro b"] by (auto simp: name_core_def)
    then show ?thesis using Var IH b
      by (simp add: macro_loop.simps [of val types "macro_name (branch_macro b) @ pieces_text ps"] split: option.split)
  next
    case (Other s)
    then have "find_macro types (CHR ''{'' # s @ CHR ''}'' # pieces_text ps) = None"
      using Cons by (intro find_macro_other) (cases s, auto)
    moreover have "macro_loop val types (s @ CHR ''}'' # pieces_text ps) =
        map_option (\<lambda>out. s @ CHR ''}'' # out) (pieces_value val ps)"
      using Cons Other IH macro_loop_plain [of "s @ ''}''" val types "pieces_text ps"] by simp
    ultimately show ?thesis using Other
      by (simp add: macro_loop.simps [of val types "CHR ''{'' # s @ CHR ''}'' # pieces_text ps"] option.map_comp comp_def
          fun_eq_iff cong: option.map_cong)
  qed
qed

text \<open>The macros each type enables.\<close>

lemma find_named:
  "is_prefix (macro_name k) (macro_name m) \<longleftrightarrow> macro_name k = macro_name m"
  using core_prefix [OF macro_name_core macro_name_core, of k m "[]"] by simp

lemma profile_name_inject: "profile_name a = profile_name b \<longleftrightarrow> a = b"
  by (cases a; cases b) simp_all

lemma macro_name_inject: "macro_name k = macro_name m \<longleftrightarrow> k = m"
proof (cases k)
  case (PROFILE f)
  then show ?thesis by (cases m) (auto simp: profile_name_inject)
qed (cases m; simp)+

lemma find_macro_named:
  "find_macro types (macro_name m) =
     (case List.find (\<lambda>(ty, k). common_type types ty \<and> k = m) event_branches of
        Some (_, k) \<Rightarrow> Some (Event_Macro k)
      | None \<Rightarrow> if common_type types item_type then map_option Item_Macro (List.find (\<lambda>k. k = m) item_branches) else None)"
  unfolding find_macro_def find_named macro_name_inject by (rule refl)

lemma enabled_unfold:
  "enabled types b \<longleftrightarrow>
     (case List.find (\<lambda>(ty, k). common_type types ty \<and> k = branch_macro b) event_branches of
        Some (_, k) \<Rightarrow> Some (Event_Macro k)
      | None \<Rightarrow> if common_type types item_type then map_option Item_Macro (List.find (\<lambda>k. k = branch_macro b) item_branches) else None)
     = Some b"
  unfolding enabled_def find_macro_named by (rule refl)

lemmas enabled_simps = enabled_unfold event_branches_def item_branches_def common_type_def message_type_def item_type_def

lemma enabled_message: "m \<notin> {HOST_DNS, HOST_CONN} \<Longrightarrow> enabled [MACRO_TYPE_MESSAGE_BODY] (Event_Macro m)"
proof (cases m)
  case (PROFILE f)
  then show ?thesis by (cases f) (simp_all add: enabled_simps)
qed (simp_all add: enabled_simps)

lemma enabled_expression: "enabled [MACRO_TYPE_TRIGGER_EXPRESSION] (Event_Macro TRIGGER_VALUE)"
  by (simp add: enabled_simps)

lemma enabled_item: "m \<in> set item_branches \<Longrightarrow> enabled [MACRO_TYPE_ITEM_KEY] (Item_Macro m)"
  by (auto simp: enabled_simps)

lemma substitute_pieces:
  assumes "list_all (piece_ok types) ps" "\<not> common_type types [MACRO_TYPE_TRIGGER_DESCRIPTION]"
  shows "substitute_simple_macros en T ev item esc (pieces_text ps) types =
    pieces_value (branch_value en T ev item esc) ps"
proof -
  have "substitute_simple_macros en T ev item esc (pieces_text ps) types =
      macro_loop (branch_value en T ev item esc) types (pieces_text ps)"
    using assms(2) by (simp add: substitute_simple_macros_def macro_loop.simps [of _ _ "[]"])
  then show ?thesis using macro_loop_pieces [OF assms(1)] by simp
qed


definition sample_macro_event :: macro_event where
  "sample_macro_event = \<lparr>e_id = 70, e_source = EVENT_SOURCE_TRIGGERS, e_object = EVENT_OBJECT_TRIGGER, e_objectid = 13, e_clock = 990,
     e_value = 1, e_acknowledged = 0, trigger_description = ''more than $1 on {HOSTNAME}'', trigger_priority = 4,
     trigger_comments = ''see {DATE}'', trigger_url = []\<rparr>"

definition sample_macro_tables :: macro_tables where
  "sample_macro_tables = \<lparr>mt_triggers = [(13, Some ''{15}>10'')], mt_trigger_functions = [(15, 13)],
     mt_functions = [\<lparr>fn_id = 15, fn_itemid = 12, fn_function = ''last'', fn_parameter = ''0'', fn_lastvalue = Some ''12''\<rparr>],
     mt_items = [\<lparr>mi_id = 12, mi_hostid = 11, mi_description = ''Load'', mi_key = ''system.cpu.load'', mi_value_type = VT_FLOAT,
       mi_valuemapid = 0, mi_units = [], mi_lastvalue = Some ''12''\<rparr>],
     mt_hosts = [\<lparr>h_id = 11, h_host = ''web'', h_ip = ''10.0.0.1'', h_dns = ''w'', h_proxy = 0, h_status = 0\<rparr>],
     mt_profiles = [], mt_history_log = [], mt_history_text = [], mt_mappings = [], mt_events = [], mt_alerts = [], mt_media_types = []\<rparr>"

definition sample_macro_env :: macro_env where
  "sample_macro_env = \<lparr>m_now = 1000,
     m_localtime = (\<lambda>_. \<lparr>tm_wday = 3, tm_hour = 12, tm_min = 5, tm_sec = 9, tm_year = 109, tm_mon = 9, tm_mday = 7\<rparr>),
     m_suffix = (\<lambda>v u t. v)\<rparr>"

definition sample_pieces :: "piece list" where
  "sample_pieces = [Var (Event_Macro TRIGGER_STATUS), Plain '': '', Var (Event_Macro TRIGGER_NAME), Plain '' - '',
     Var (Event_Macro TRIGGER_COMMENT), Other ''15'']"

lemma sample_pieces_facts:
  "list_all (piece_ok [MACRO_TYPE_MESSAGE_BODY]) sample_pieces"
  "pieces_text sample_pieces = ''{TRIGGER.STATUS}: {TRIGGER.NAME} - {TRIGGER.COMMENT}{15}''"
  "pieces_value (branch_value sample_macro_env sample_macro_tables sample_macro_event None None) sample_pieces =
     Some ''PROBLEM: more than 10 on web - see {DATE}{15}''"
  by code_simp+


subsection \<open>Functions in messages\<close>

text \<open>The text between the brackets as host, key, function and parameter: the key ends at the last
  dot.\<close>

definition parse_function_macro :: "string \<Rightarrow> (string \<times> string \<times> string \<times> string) option" where
  "parse_function_macro pms =
     (case strchr pms CHR '':'' of
        None \<Rightarrow> None
      | Some a \<Rightarrow>
          let rest = drop (Suc a) pms
          in (case strrchr rest CHR ''.'' of
                None \<Rightarrow> None
              | Some b \<Rightarrow>
                  let call = drop (Suc b) rest
                  in (case strchr call CHR ''('' of
                        None \<Rightarrow> None
                      | Some c \<Rightarrow>
                          let args = drop (Suc c) call
                          in (case strchr args CHR '')'' of
                                None \<Rightarrow> None
                              | Some d \<Rightarrow>
                                  Some (take (MAX_STRING_LEN - 1) (take a pms), take (MAX_STRING_LEN - 1) (take b rest),
                                        take (MAX_STRING_LEN - 1) (take c call), take (MAX_STRING_LEN - 1) (take d args))))))"

text \<open>The loop of \<open>substitute_macros\<close>; \<open>evaluate_function2\<close> is an argument.\<close>

type_synonym evaluator = "string \<Rightarrow> string \<Rightarrow> string \<Rightarrow> string \<Rightarrow> string option"

definition function_macro :: "evaluator \<Rightarrow> string \<Rightarrow> string" where
  "function_macro evaluate_function2 body =
     (case parse_function_macro body of
        None \<Rightarrow> CHR ''{'' # body @ ''}''
      | Some (host, key, function, parameter) \<Rightarrow>
          (case evaluate_function2 host key function parameter of None \<Rightarrow> STR_UNKNOWN_VARIABLE | Some v \<Rightarrow> v))"

function function_macros :: "evaluator \<Rightarrow> string \<Rightarrow> string" where
  "function_macros evaluate_function2 pl =
     (case strchr pl CHR ''{'' of
        None \<Rightarrow> pl
      | Some i \<Rightarrow>
          (case strchr (drop i pl) CHR ''}'' of
             None \<Rightarrow> pl
           | Some k \<Rightarrow>
               let j = i + (case strrchr (take k (drop i pl)) CHR ''{'' of None \<Rightarrow> 0 | Some n \<Rightarrow> n)
               in take j pl @ function_macro evaluate_function2 (take (i + k - Suc j) (drop (Suc j) pl))
                  @ function_macros evaluate_function2 (drop (Suc (i + k)) pl)))"
  by pat_completeness auto
termination
proof (relation "measure (length \<circ> snd)", goal_cases)
  case (2 evaluate_function2 pl i k j)
  then show ?case using strchr_SomeD [OF 2(1)] by (simp, linarith)
qed simp

declare function_macros.simps [simp del]

definition substitute_macros ::
  "evaluator \<Rightarrow> macro_env \<Rightarrow> macro_tables \<Rightarrow> macro_event \<Rightarrow> escalation_row option \<Rightarrow> string \<Rightarrow> string option" where
  "substitute_macros evaluate_function2 en T ev esc data =
     (if data = [] then Some []
      else map_option (function_macros evaluate_function2)
             (substitute_simple_macros en T ev None esc data [MACRO_TYPE_MESSAGE_SUBJECT, MACRO_TYPE_MESSAGE_BODY]))"

lemma parse_function_call:
  assumes "CHR '':'' \<notin> set host" "CHR ''.'' \<notin> set (function @ parameter)" "CHR ''('' \<notin> set function"
    "CHR '')'' \<notin> set parameter" "length host < MAX_STRING_LEN" "length key < MAX_STRING_LEN"
    "length function < MAX_STRING_LEN" "length parameter < MAX_STRING_LEN"
  shows "parse_function_macro (host @ CHR '':'' # key @ CHR ''.'' # function @ CHR ''('' # parameter @ '')'') =
    Some (host, key, function, parameter)"
proof -
  have "strrchr (key @ CHR ''.'' # function @ CHR ''('' # parameter @ '')'') CHR ''.'' = Some (length key)"
    using assms by (intro strrchr_append) auto
  moreover have "strchr (parameter @ '')'') CHR '')'' = Some (length parameter)"
    using strchr_append [of "CHR '')''" parameter "[]"] assms by simp
  ultimately show ?thesis using assms by (simp add: parse_function_macro_def strchr_append Let_def)
qed

text \<open>A parameter with a dot makes the key end inside it, so that the call is left in the text.\<close>

lemma parameter_with_dot: "parse_function_macro ''web:system.cpu.load.count(600,0.5)'' = None"
  by code_simp

end
