(* ===== verification/TriggerExpression.thy ===== *)
theory TriggerExpression
  imports Formulas Macros
begin

section \<open>From the stored expression to the value of the trigger\<close>

text \<open>
  \<open>substitute_functions\<close> and \<open>evaluate_expression\<close>
  (\<open>libs/zbxserver/expression.c\<close>), with \<open>DBget_function_result\<close> and
  \<open>zbx_host_key_function_string\<close> (\<open>libs/zbxdbhigh/db.c\<close>): the macro of the trigger's
  value and the functions of an expression are replaced by their values, and the text that results is
  evaluated.
\<close>

definition zbx_host_key_function_string :: "macro_tables \<Rightarrow> u64 \<Rightarrow> string" where
  "zbx_host_key_function_string T functionid =
     (case [(f, it, h). f \<leftarrow> filter (\<lambda>f. fn_id f = functionid) (mt_functions T),
              it \<leftarrow> filter (\<lambda>it. mi_id it = fn_itemid f) (mt_items T),
              h \<leftarrow> filter (\<lambda>h. h_id h = mi_hostid it) (mt_hosts T)] of
        [] \<Rightarrow> ''???''
      | (f, it, h) # _ \<Rightarrow>
          take 639 (h_host h @ CHR '':'' # mi_key it @ CHR ''.'' # fn_function f @ CHR ''('' # fn_parameter f @ '')''))"

text \<open>The id is put into the statement as it is written: an empty one makes a statement that fails, and one
  beyond 64 bits equals no id.\<close>

definition DBget_function_result :: "macro_tables \<Rightarrow> string \<Rightarrow> string + string" where
  "DBget_function_result T functionid =
     (case filter (\<lambda>f. functionid \<noteq> [] \<and> unat (fn_id f) = dec_val functionid) (mt_functions T) of
        [] \<Rightarrow> Inl (''invalid functionid ['' @ functionid @ '']'')
      | f # _ \<Rightarrow>
          (case fn_lastvalue f of
             None \<Rightarrow> Inl (''lastvalue IS NULL for function ['' @ functionid @ ''][''
                           @ zbx_host_key_function_string T (fn_id f) @ '']'')
           | Some v \<Rightarrow> Inr v))"

text \<open>The id is copied to an array of \<open>ID_LEN\<close> bytes; the test of the bound in the loop is never
  true, so the digits and the zero after them may pass its end.\<close>

definition ID_LEN :: nat where "ID_LEN = 21"

definition prepend :: "string \<Rightarrow> string checked \<Rightarrow> string checked" where
  "prepend v r = map_sum id (\<lambda>out. v @ out) r"

lemma prepend_simps [simp]:
  "prepend [] r = r" "prepend a (prepend b r) = prepend (a @ b) r" "prepend a (Inl e) = Inl e" "prepend a (Inr s) = Inr (a @ s)"
  by (cases r; simp add: prepend_def)+

function substitute_functions_loop :: "macro_tables \<Rightarrow> string \<Rightarrow> string \<Rightarrow> string checked" where
  "substitute_functions_loop T exp [] = Inr []"
| "substitute_functions_loop T exp (c # e) =
     (if c \<noteq> CHR ''{'' then prepend [c] (substitute_functions_loop T exp e)
      else
        (let functionid = takeWhile is_digit e; rest = dropWhile is_digit e
         in if length functionid > ID_LEN then Inl Out_of_bounds
            else
              (case rest of
                 [] \<Rightarrow> Inl (Message (''Invalid expression ['' @ exp @ '']''))
               | d # r \<Rightarrow>
                   if d \<noteq> CHR ''}'' then Inl (Message (''Invalid expression ['' @ exp @ '']''))
                   else if length functionid = ID_LEN then Inl Out_of_bounds
                   else
                     (case DBget_function_result T functionid of
                        Inl err \<Rightarrow> Inl (Message (''unable to get function value: '' @ err))
                      | Inr v \<Rightarrow> prepend v (substitute_functions_loop T exp r)))))"
  by pat_completeness auto
termination
proof (relation "measure (length \<circ> snd \<circ> snd)", goal_cases)
  case (3 T exp c e functionid rest d r)
  have "length (d # r) \<le> length e" unfolding 3(5) [symmetric] 3(3) by (rule length_dropWhile_le)
  then show ?case by simp
qed simp_all

definition substitute_functions :: "macro_tables \<Rightarrow> string \<Rightarrow> string checked" where
  "substitute_functions T exp = substitute_functions_loop T exp exp"

text \<open>The event holds nothing but the value of the trigger.\<close>

definition value_event :: "int \<Rightarrow> macro_event" where
  "value_event v = \<lparr>e_id = 0, e_source = EVENT_SOURCE_TRIGGERS, e_object = EVENT_OBJECT_TRIGGER, e_objectid = 0,
     e_clock = 0, e_value = v, e_acknowledged = 0, trigger_description = [], trigger_priority = 0,
     trigger_comments = [], trigger_url = []\<rparr>"

definition evaluate_expression :: "'f calc \<Rightarrow> macro_env \<Rightarrow> macro_tables \<Rightarrow> int \<Rightarrow> string \<Rightarrow> int checked option" where
  "evaluate_expression D en T trigger_value expression =
     (case substitute_simple_macros en T (value_event trigger_value) None None expression [MACRO_TYPE_TRIGGER_EXPRESSION] of
        None \<Rightarrow> Some (Inl Out_of_bounds)
      | Some s \<Rightarrow>
          (case substitute_functions T (delete_spaces s) of
             Inl e \<Rightarrow> Some (Inl e)
           | Inr t \<Rightarrow> evaluate D t))"

subsection \<open>Templates of expressions\<close>

datatype operand = Constant string | Function u64 | Trigger_Value

fun operand_text :: "operand \<Rightarrow> string" where
  "operand_text (Constant s) = s"
| "operand_text (Function i) = CHR ''{'' # show_u64 i @ ''}''"
| "operand_text Trigger_Value = ''{TRIGGER.VALUE}''"

definition last_value :: "macro_tables \<Rightarrow> u64 \<Rightarrow> string" where
  "last_value T i = (case DBget_function_result T (show_u64 i) of Inl e \<Rightarrow> [] | Inr v \<Rightarrow> v)"

fun operand_value :: "macro_tables \<Rightarrow> int \<Rightarrow> operand \<Rightarrow> string" where
  "operand_value T v (Constant s) = s"
| "operand_value T v (Function i) = last_value T i"
| "operand_value T v Trigger_Value = show_int v"

definition has_value :: "macro_tables \<Rightarrow> operand \<Rightarrow> bool" where
  "has_value T a \<longleftrightarrow>
     (case a of
        Function i \<Rightarrow> (case DBget_function_result T (show_u64 i) of Inl e \<Rightarrow> False | Inr v \<Rightarrow> True)
      | _ \<Rightarrow> True)"

fun known_values :: "macro_tables \<Rightarrow> operand formula \<Rightarrow> bool" where
  "known_values T (Leaf a) = has_value T a"
| "known_values T (Operation l p r) = (known_values T l \<and> known_values T r)"

text \<open>The pieces of a template, for the macros.\<close>

fun operand_piece :: "operand \<Rightarrow> piece" where
  "operand_piece (Constant s) = Plain s"
| "operand_piece (Function i) = Other (show_u64 i)"
| "operand_piece Trigger_Value = Var (Event_Macro TRIGGER_VALUE)"

fun bracketed_pieces :: "operand formula \<Rightarrow> piece list" where
  "bracketed_pieces (Leaf a) = [operand_piece a]"
| "bracketed_pieces (Operation l p r) =
     Plain ''('' # bracketed_pieces l @ Plain [operator_char p] # bracketed_pieces r @ [Plain '')'']"

fun formula_pieces :: "operand formula \<Rightarrow> piece list" where
  "formula_pieces (Leaf a) = [operand_piece a]"
| "formula_pieces (Operation l p r) = bracketed_pieces l @ Plain [operator_char p] # bracketed_pieces r"

definition with_macro :: "int \<Rightarrow> operand \<Rightarrow> string" where
  "with_macro v a = (case a of Trigger_Value \<Rightarrow> show_int v | _ \<Rightarrow> operand_text a)"

lemma piece_list_append [simp]:
  "pieces_text (a @ b) = pieces_text a @ pieces_text b"
  "pieces_value val (a @ b) =
    (case pieces_value val a of None \<Rightarrow> None | Some v \<Rightarrow> map_option (\<lambda>out. v @ out) (pieces_value val b))"
proof -
  show "pieces_text (a @ b) = pieces_text a @ pieces_text b" by (simp add: pieces_text_def)
  show "pieces_value val (a @ b) =
      (case pieces_value val a of None \<Rightarrow> None | Some v \<Rightarrow> map_option (\<lambda>out. v @ out) (pieces_value val b))"
    by (induction a) (cases "pieces_value val b"; auto split: option.split)+
qed

lemma bracketed_pieces_text: "pieces_text (bracketed_pieces t) = bracketed operand_text t"
proof (induction t)
  case (Leaf a)
  then show ?case by (cases a) simp_all
qed simp

lemma bracketed_pieces_value:
  "pieces_value (branch_value en T (value_event v) None None) (bracketed_pieces t) = Some (bracketed (with_macro v) t)"
proof (induction t)
  case (Leaf a)
  then show ?case by (cases a) (simp_all add: with_macro_def branch_value_def event_macro_def value_event_def)
qed simp

lemma formula_pieces_text: "pieces_text (formula_pieces t) = formula_text operand_text t"
  using bracketed_pieces_text [of t] by (cases t) (simp_all add: bracketed_pieces_text)

lemma formula_pieces_value:
  "pieces_value (branch_value en T (value_event v) None None) (formula_pieces t) = Some (formula_text (with_macro v) t)"
  using bracketed_pieces_value [of en T v t] by (cases t) (simp_all add: bracketed_pieces_value)

subsection \<open>Functions replaced by their values\<close>

lemma show_nat_length: "n < 10 ^ Suc k \<Longrightarrow> length (show_nat n) \<le> Suc k"
proof (induction k arbitrary: n)
  case 0
  then show ?case by (simp add: show_nat.simps [of n])
next
  case (Suc k)
  then have "n div 10 < 10 ^ Suc k" by (simp add: div_less_iff_less_mult)
  then show ?case using Suc.IH [of "n div 10"] by (simp add: show_nat.simps [of n])
qed

lemma show_u64_length: "length (show_u64 i) < ID_LEN"
proof -
  have "unat i < 10 ^ Suc 19" using u64_bound [of i] by simp
  then show ?thesis unfolding show_u64_def ID_LEN_def using show_nat_length [of "unat i" 19] by simp
qed

lemma functions_plain:
  assumes "CHR ''{'' \<notin> set a"
  shows "substitute_functions_loop T exp (a @ e) = prepend a (substitute_functions_loop T exp e)"
  using assms by (induction a) auto

lemma functions_value:
  assumes "has_value T (Function i)"
  shows "substitute_functions_loop T exp (CHR ''{'' # show_u64 i @ CHR ''}'' # e) =
    prepend (last_value T i) (substitute_functions_loop T exp e)"
proof -
  have digits: "\<forall>c \<in> set (show_u64 i). is_digit c" using show_nat_digits by (simp add: show_u64_def)
  have bracket: "\<not> is_digit CHR ''}''" by (simp add: is_digit_iff)
  have parts: "takeWhile is_digit (show_u64 i @ CHR ''}'' # e) = show_u64 i"
    "dropWhile is_digit (show_u64 i @ CHR ''}'' # e) = CHR ''}'' # e"
    using digits bracket by (simp_all add: takeWhile_append2 dropWhile_append2)
  obtain v where "DBget_function_result T (show_u64 i) = Inr v" "last_value T i = v"
    using assms by (auto simp: has_value_def last_value_def split: sum.splits)
  then show ?thesis using show_u64_length [of i] by (simp add: parts)
qed

text \<open>Constants and printed operators have no brackets of their own.\<close>

definition plain_constant :: "operand \<Rightarrow> bool" where
  "plain_constant a \<longleftrightarrow> (case a of Constant s \<Rightarrow> CHR ''{'' \<notin> set s \<and> CHR '' '' \<notin> set s | _ \<Rightarrow> True)"

lemma show_int_chars: "c \<in> set (show_int v) \<Longrightarrow> is_digit c \<or> c = CHR ''-''"
  using show_nat_digits by (auto simp: show_int_def split: if_splits)

lemma operand_functions:
  assumes "plain_constant a" "has_value T a"
  shows "substitute_functions_loop T exp (with_macro v a @ e) =
    prepend (operand_value T v a) (substitute_functions_loop T exp e)"
proof (cases a)
  case (Constant s)
  then show ?thesis using assms functions_plain by (simp add: with_macro_def plain_constant_def)
next
  case (Function i)
  then show ?thesis using assms functions_value [of T i exp e] by (simp add: with_macro_def)
next
  case Trigger_Value
  have "CHR ''{'' \<notin> set (show_int v)" using show_int_chars [of "CHR ''{''" v] by (auto simp: is_digit_iff)
  then show ?thesis using Trigger_Value functions_plain by (simp add: with_macro_def)
qed

fun all_operands :: "('a \<Rightarrow> bool) \<Rightarrow> 'a formula \<Rightarrow> bool" where
  "all_operands P (Leaf a) = P a"
| "all_operands P (Operation l p r) = (all_operands P l \<and> all_operands P r)"

lemma bracketed_map: "bracketed h (map_formula g t) = bracketed (\<lambda>a. h (g a)) t"
  by (induction t) simp_all

lemma formula_text_map: "formula_text h (map_formula g t) = formula_text (\<lambda>a. h (g a)) t"
  by (cases t) (simp_all add: bracketed_map)

lemma bracketed_functions:
  assumes "all_operands plain_constant t" "known_values T t"
  shows "substitute_functions_loop T exp (bracketed (with_macro v) t @ e) =
    prepend (bracketed (operand_value T v) t) (substitute_functions_loop T exp e)"
  using assms
proof (induction t arbitrary: e)
  case (Leaf a)
  then show ?case using operand_functions by simp
next
  case (Operation l p r)
  then show ?case using operator_char_neq [of p] by simp
qed

lemma formula_functions:
  assumes "all_operands plain_constant t" "known_values T t"
  shows "substitute_functions T (formula_text (with_macro v) t) = Inr (formula_text (operand_value T v) t)"
proof (cases t)
  case (Leaf a)
  then show ?thesis using assms operand_functions [of a T "with_macro v a" v "[]"] by (simp add: substitute_functions_def)
next
  case (Operation l p r)
  let ?exp = "formula_text (with_macro v) t"
  have "substitute_functions_loop T ?exp (bracketed (with_macro v) r @ []) = Inr (bracketed (operand_value T v) r)"
    using bracketed_functions [of r T ?exp v "[]"] assms Operation by simp
  then show ?thesis
    using bracketed_functions [of l T ?exp v "operator_char p # bracketed (with_macro v) r"] assms Operation operator_char_neq [of p]
    by (simp add: substitute_functions_def)
qed

lemma not_digits: "\<not> is_digit CHR ''{''" "\<not> is_digit CHR '' ''"
  by (simp_all add: is_digit_iff)

lemma formula_pieces_ok:
  assumes "all_operands plain_constant t"
  shows "list_all (piece_ok [MACRO_TYPE_TRIGGER_EXPRESSION]) (formula_pieces t)"
proof -
  have digits: "hd (show_u64 i) \<in> set (show_u64 i)" "\<forall>c \<in> set (show_u64 i). is_digit c" "show_u64 i \<noteq> []" for i
    using show_nat_digits by (simp_all add: show_u64_def)
  have operand: "piece_ok [MACRO_TYPE_TRIGGER_EXPRESSION] (operand_piece a)" if "plain_constant a" for a
  proof (cases a)
    case (Function i)
    have "is_digit (hd (show_u64 i))" using digits by blast
    then have "\<not> is_capital (hd (show_u64 i))" by (auto simp: is_digit_iff is_capital_def less_eq_char_def)
    moreover have "CHR ''{'' \<notin> set (show_u64 i)" using digits(2) [of i] not_digits(1) by blast
    ultimately show ?thesis using Function digits(3) by simp
  qed (use that enabled_expression in \<open>auto simp: plain_constant_def\<close>)
  have "list_all (piece_ok [MACRO_TYPE_TRIGGER_EXPRESSION]) (bracketed_pieces t)" if "all_operands plain_constant t" for t
    using that by (induction t) (use operand operator_char_neq_sym in auto)
  then show ?thesis using assms operand operator_char_neq_sym by (cases t) auto
qed

lemma with_macro_no_blank:
  assumes "all_operands plain_constant t"
  shows "delete_spaces (formula_text (with_macro v) t) = formula_text (with_macro v) t"
proof -
  have digits: "CHR '' '' \<notin> set (show_u64 i)" for i
    using show_nat_digits [of "unat i"] not_digits(2) by (auto simp: show_u64_def)
  have operand: "CHR '' '' \<notin> set (with_macro v a)" if "plain_constant a" for a
    using that show_int_chars [of "CHR '' ''" v] not_digits(2)
    by (cases a) (use digits in \<open>auto simp: with_macro_def plain_constant_def\<close>)
  have "CHR '' '' \<notin> set (bracketed (with_macro v) t)" if "all_operands plain_constant t" for t
    using that by (induction t) (use operand operator_char_neq_sym in auto)
  then have "CHR '' '' \<notin> set (formula_text (with_macro v) t)"
    using assms operand operator_char_neq_sym by (cases t) auto
  then have "\<forall>c \<in> set (formula_text (with_macro v) t). c \<noteq> CHR '' ''" by blast
  then show ?thesis unfolding delete_spaces_def by (rule filter_True)
qed

definition division_by_zero :: "eval_error \<Rightarrow> bool" where
  "division_by_zero e \<longleftrightarrow>
     (\<exists>x y. e = Message (''Division by zero. Cannot evaluate expression ['' @ x @ ''/'' @ y @ '']''))"

lemma operation_fails: "operation_value D p x y = Inl e \<Longrightarrow> division_by_zero e"
  unfolding operation_value_def division_by_zero_def by (cases p) (auto simp: Let_def split: if_splits)

lemma reduce_fails: "reduce D t = Inl e \<Longrightarrow> division_by_zero e"
  by (induction t arbitrary: e) (auto split: sum.splits dest: operation_fails)

lemma meaning_fails: "meaning D t = Inl e \<Longrightarrow> division_by_zero e"
  by (cases t) (auto split: sum.splits dest: operation_fails reduce_fails)


subsection \<open>An instance\<close>

text \<open>Whole numbers in the place of doubles, for trying the definitions on.\<close>

definition whole_calc :: "int calc" where
  "whole_calc = \<lparr>atof = (\<lambda>s. int (dec_val (takeWhile is_digit s))), print_lf = show_int, c_add = (+), c_sub = (-), c_mul = (*),
     c_div = trunc_div, c_neg = uminus, c_abs = abs, c_lt = (<), c_eq = (=), c_int = id, c_millionth = 1\<rparr>"

definition sample_tables :: macro_tables where
  "sample_tables = \<lparr>mt_triggers = [(13, Some ''({15}>10)|({123}=0)'')], mt_trigger_functions = [(15, 13), (123, 13)],
     mt_functions = [\<lparr>fn_id = 15, fn_itemid = 12, fn_function = ''last'', fn_parameter = ''0'', fn_lastvalue = Some ''12''\<rparr>,
       \<lparr>fn_id = 123, fn_itemid = 12, fn_function = ''min'', fn_parameter = ''60'', fn_lastvalue = Some ''3''\<rparr>],
     mt_items = [], mt_hosts = [], mt_profiles = [], mt_history_log = [], mt_history_text = [], mt_mappings = [],
     mt_events = [], mt_alerts = [], mt_media_types = []\<rparr>"

definition sample_formula :: "operand formula" where
  "sample_formula = Operation (Operation (Leaf (Function 15)) Gt (Leaf (Constant ''10''))) Or
       (Operation (Leaf (Function 123)) Eq (Leaf (Constant ''0'')))"

lemma sample_expression:
  "exact_signs whole_calc" "all_operands plain_constant sample_formula" "known_values sample_tables sample_formula"
  "fits whole_calc (map_formula (operand_value sample_tables 0) sample_formula)"
  "formula_text operand_text sample_formula = ''({15}>10)|({123}=0)''"
  "map_sum id (verdict whole_calc) (meaning whole_calc (map_formula (operand_value sample_tables 0) sample_formula)) = Inr TRIGGER_VALUE_TRUE"
  by (simp add: exact_signs_def whole_calc_def) code_simp+


text \<open>Without brackets operators of one kind associate to the right, a sign after a suffix is taken for
  the sign of a number, and an operand that is missing is read in front of its buffer.\<close>

lemma division_to_the_right: "evaluate_simple whole_calc ''8/2/2'' = Inr 8"
  by code_simp

lemma sign_after_suffix:
  "evaluate_simple whole_calc ''1K-1'' = Inl (Message ''Format error or unsupported operator.  Exp: [1KN1]'')"
  by code_simp

lemma missing_operand: "evaluate_simple whole_calc ''5>'' = Inl Out_of_bounds"
  by code_simp

lemma function_id_too_long:
  "substitute_functions sample_tables ''{000000000000000000015}>1'' = Inl Out_of_bounds"
  by code_simp

end
