(* ===== verification/Spec2Isabelle.thy ===== *)
theory Spec2Isabelle
  imports CString CFields KeyParse Numbers SortedArrays IpList TimePeriod HistoryCache Trends NextChecks IdAllocator TriggerValue
    ItemUpdate HistoryWrite HostState Codecs JsonReader Services
    Operations Alerter TriggerExpression
begin

text \<open>
  Zabbix 1.6.7, the monitoring server and its agent.

  \<^bold>\<open>The program.\<close>  Pollers and trappers collect values of items and append them to a queue in
  shared memory.  A syncer takes batches out of the queue; for each batch it computes the values to be
  stored, updates the items and the triggers, writes the history tables and adds to the trends.  A trigger
  that changes its value creates an event; an event changes the IT services and starts escalations, which
  the escalator carries out step by step.  Hosts that stop answering become unavailable and their triggers
  unknown.  Agents, proxies and servers exchange JSON texts; item keys, addresses, periods and lists of
  numbers are parsed wherever they are used.  The rows of every table get their ids from a counter per table.

  \<^bold>\<open>Theories and sources\<close> (paths under \<^verbatim>\<open>src/src\<close>, where \<^verbatim>\<open>dbcache.c\<close> is
  \<^verbatim>\<open>libs/zbxdbcache/dbcache.c\<close> and \<^verbatim>\<open>db.c\<close> is \<^verbatim>\<open>libs/zbxdbhigh/db.c\<close>).

  \<^item> \<^verbatim>\<open>Prelude\<close>: the vocabulary of C that the sources use (strings without their terminator, 64-bit ids,
    return codes, \<open>strchr\<close>, \<open>atoi\<close>, \<open>sscanf\<close>), the list lemmas the components
    share, and the locale \<open>piece_search\<close>, a search through the pieces of a separated list.
  \<^item> \<^verbatim>\<open>CString\<close>, \<^verbatim>\<open>CFields\<close>: \<^verbatim>\<open>libs/zbxcommon/str.c\<close>: trimming, appending with
    reallocation, replacing, bounded copies, fields.  The lemmas give the value of each and that the writes
    stay inside the block.
  \<^item> \<^verbatim>\<open>ItemKey\<close>, \<^verbatim>\<open>KeyParse\<close>: item keys (\<^verbatim>\<open>str.c\<close>, \<^verbatim>\<open>libs/zbxsysinfo/sysinfo.c\<close>, the
    description of an item in \<^verbatim>\<open>libs/zbxserver/expression.c\<close>).  A parameter list is rendered and read back.
  \<^item> \<^verbatim>\<open>Numbers\<close>, \<^verbatim>\<open>IpList\<close>, \<^verbatim>\<open>TimePeriod\<close>: \<^verbatim>\<open>libs/zbxcommon/misc.c\<close>: the recognisers of
    numbers and addresses, the lists of ranges (interpretations of \<open>piece_search\<close>), the periods and the
    next check of an item.
  \<^item> \<^verbatim>\<open>SortedArrays\<close>, \<^verbatim>\<open>NextChecks\<close>: the arrays sorted by an id.  The locale \<open>keyed_array\<close>
    states what a search for the insertion place promises; it is interpreted on the three binary searches of
    \<^verbatim>\<open>misc.c\<close>, \<^verbatim>\<open>nextchecks.c\<close> and \<^verbatim>\<open>dbcache.c\<close>, and insertion is proved once from it.
  \<^item> \<^verbatim>\<open>HistoryCache\<close>: the queue (\<open>DCadd_history*\<close>, \<open>DCget_history_ptr\<close>,
    \<open>DCvacuum_text\<close>, \<open>DCsync_history\<close> of \<^verbatim>\<open>dbcache.c\<close>).  The ring of slots refines a
    queue per item: what was handed over, followed by what is queued, is what was added.
  \<^item> \<^verbatim>\<open>ItemUpdate\<close>, \<^verbatim>\<open>HistoryWrite\<close>, \<^verbatim>\<open>Trends\<close>: what a batch does to the items, the history
    tables and the trends (\<open>DCmass_update_item\<close>, \<open>DCmass_add_history\<close>, their proxy
    counterparts, \<open>DCmass_update_trends\<close>, \<open>DCflush_trend\<close>, \<open>DCsync_trends\<close>).
  \<^item> \<^verbatim>\<open>IdAllocator\<close>: \<open>DCget_nextid\<close>, \<open>DBget_maxid_num\<close>.
  \<^item> \<^verbatim>\<open>SqlEscape\<close>: the literals of the statements and the conditions on lists of ids (\<^verbatim>\<open>db.c\<close>).
  \<^item> \<^verbatim>\<open>TriggerValue\<close>: \<open>DBupdate_trigger_value\<close>, the dependencies of triggers and
    \<open>process_event\<close> (\<^verbatim>\<open>db.c\<close>, \<^verbatim>\<open>zabbix_server/events.c\<close>).
  \<^item> \<^verbatim>\<open>Expression\<close>, \<^verbatim>\<open>Formulas\<close>, \<^verbatim>\<open>Macros\<close>, \<^verbatim>\<open>TriggerExpression\<close>: the evaluation of a
    trigger's expression and the macros of expressions, descriptions and messages
    (\<^verbatim>\<open>libs/zbxserver/expression.c\<close>, \<open>compress_signs\<close> of \<^verbatim>\<open>str.c\<close>).  \<open>evaluate\<close>
    rewrites the text from the innermost brackets outwards; \<^verbatim>\<open>Formulas\<close> gives the meaning of the tree
    behind the text and shows that the rewriting computes it.
  \<^item> \<^verbatim>\<open>ActionTables\<close>, \<^verbatim>\<open>ActionConditions\<close>: the rows that actions are about, their codes, a small
    configuration on which the witnesses evaluate, and the conditions of actions and operations
    (\<^verbatim>\<open>zabbix_server/actions.c\<close>).  The type of a condition is an instance of \<open>linorder\<close>, by its code,
    since the conditions of an action are read in that order.
  \<^item> \<^verbatim>\<open>Escalator\<close>: \<^verbatim>\<open>zabbix_server/escalator/escalator.c\<close>: permissions, messages, steps, recovery and
    cancellation.  \<open>escalator_step\<close> interleaves the passes of the escalator with the events that start and
    stop escalations; the lemmas follow one row of the table through the passes.
  \<^item> \<^verbatim>\<open>Operations\<close>, \<^verbatim>\<open>Alerter\<close>: \<^verbatim>\<open>zabbix_server/operations.c\<close> with \<open>process_actions\<close>, and the
    rounds over the messages to be sent (\<^verbatim>\<open>zabbix_server/alerter/alerter.c\<close>).
  \<^item> \<^verbatim>\<open>HostState\<close>: the availability of a host (\<^verbatim>\<open>db.c\<close>, \<^verbatim>\<open>zabbix_server/poller/poller.c\<close>).
  \<^item> \<^verbatim>\<open>Services\<close>: the IT services (\<^verbatim>\<open>libs/zbxdbhigh/host.c\<close>, \<^verbatim>\<open>db.c\<close>).  What the recursion over the
    links keeps is the locale \<open>kept_by_recursion\<close>, extended to whole updates by \<open>kept_by_updates\<close>.
  \<^item> \<^verbatim>\<open>Codecs\<close>: base64, hexadecimal digits, PostgreSQL byte literals, the byte order of the message
    header; the locale \<open>lossless\<close> is interpreted on each of the four.
  \<^item> \<^verbatim>\<open>JsonWriter\<close>, \<^verbatim>\<open>JsonReader\<close>: \<^verbatim>\<open>libs/zbxjson/json.c\<close>.  The writer renders a tree;
    the reader finds every value again.  The locale \<open>json_scan\<close> covers the two scanning loops.

  \<^bold>\<open>Conventions.\<close>  A structure is a record, a table of the database a list of rows; a query or a
  function of another library is an argument.  Statements are modelled by what they do to the rows, except
  where their text is the point.  A shared structure guarded by a lock changes by one step per call.
  The fatal errors, dereferences of NULL and reads past the end are values: \<open>None\<close>,
  \<open>Inl\<close>, or a constructor of their own.

  \<^bold>\<open>Recursion and fuel.\<close>  Loops over data are structural or have a measure.  Four recursions need a
  bound: the rewriting of an expression is given as many rounds as the text has closing brackets, which
  is enough when printed numbers have none (\<open>evaluate_total\<close>); the dependency check makes at most 33 calls by its own counter, the loop on the table of ids ends
  within three rounds, and the recursion over the links of the services is given a depth, for which the
  number of links and one more is enough when the links have no cycle; for each the result is proved to be
  returned.

  \<^bold>\<open>Not modelled.\<close>  The drivers of the databases, sockets, processes, signals, logging and the
  collectors that read the operating system, since they are calls into code outside the repository; the
  copy of the GNU regular expressions and of getopt; the sequences of statements that maintain hosts and
  templates; the functions of triggers (\<^verbatim>\<open>evalfunc.c\<close>), which are arithmetic on answers of the database;
  the arithmetic of doubles, a parameter of every definition that uses it; the growth of a text inside its
  buffer when signs are marked.
\<close>

end
